(* ===== verification/FS_Prelude.thy ===== *)
theory FS_Prelude
  imports "HOL-Library.Word" "HOL-Library.Sublist"
begin

unbundle bit_operations_syntax

text \<open>
  What every component of the library shares: the machine integers of the source, the
  outcome of a Rust call (a value, an error or a panic), programs that thread a state and
  may fail to return, little-endian encodings of machine integers, a growable byte vector
  with its capacity, and the rendering of numbers and text by \<^verbatim>\<open>format!\<close>.
\<close>

section \<open>Machine integers\<close>

type_synonym u8 = "8 word"
type_synonym u32 = "32 word"
type_synonym u64 = "64 word"
type_synonym bytes = "u8 list"

text \<open>
  \<^verbatim>\<open>usize\<close> values (lengths, capacities, limits) are natural numbers; the target is a 64-bit
  one, so where the source saturates at the end of the type it saturates at \<open>usize_max\<close>.
\<close>

definition usize_max :: nat where
  "usize_max = 2 ^ 64 - 1"

definition u32_max :: nat where
  "u32_max = 2 ^ 32 - 1"

definition usize_saturating_mul :: "nat \<Rightarrow> nat \<Rightarrow> nat" where
  "usize_saturating_mul a b = min (a * b) usize_max"

definition u32_saturating_add :: "nat \<Rightarrow> nat \<Rightarrow> nat" where
  "u32_saturating_add a b = min (a + b) u32_max"

section \<open>Outcomes and programs\<close>

text \<open>
  A Rust call ends with \<^verbatim>\<open>Ok\<close>, with \<^verbatim>\<open>Err\<close>, or by unwinding. A program threads a state;
  the outer option is \<open>None\<close> where the call does not return.
\<close>

datatype ('e, 'a) outcome = Ok 'a | Err 'e | Panic

type_synonym ('s, 'e, 'a) prog = "'s \<Rightarrow> (('e, 'a) outcome \<times> 's) option"

named_theorems prog_simps "evaluation of the program combinators"

definition ret :: "'a \<Rightarrow> ('s, 'e, 'a) prog" where
  "ret a = (\<lambda>s. Some (Ok a, s))"

definition fail :: "'e \<Rightarrow> ('s, 'e, 'a) prog" where
  "fail e = (\<lambda>s. Some (Err e, s))"

definition panic :: "('s, 'e, 'a) prog" where
  "panic = (\<lambda>s. Some (Panic, s))"

text \<open>\<open>bindp m f\<close> is \<^verbatim>\<open>let x = m?; f(x)\<close>.\<close>

definition bindp :: "('s, 'e, 'a) prog \<Rightarrow> ('a \<Rightarrow> ('s, 'e, 'b) prog) \<Rightarrow> ('s, 'e, 'b) prog" where
  "bindp m f = (\<lambda>s. case m s of
       None \<Rightarrow> None
     | Some (Ok a, s') \<Rightarrow> f a s'
     | Some (Err e, s') \<Rightarrow> Some (Err e, s')
     | Some (Panic, s') \<Rightarrow> Some (Panic, s'))"

text \<open>A pure fallible call inside a program, as \<^verbatim>\<open>v.validate(payload)?\<close>.\<close>

definition lift_outcome :: "('e, 'a) outcome \<Rightarrow> ('s, 'e, 'a) prog" where
  "lift_outcome out = (\<lambda>s. Some (out, s))"

text \<open>\<open>map_err g out\<close> is \<^verbatim>\<open>Result::map_err\<close>.\<close>

fun map_err :: "('e \<Rightarrow> 'f) \<Rightarrow> ('e, 'a) outcome \<Rightarrow> ('f, 'a) outcome" where
  "map_err g (Ok a) = Ok a"
| "map_err g (Err e) = Err (g e)"
| "map_err g Panic = Panic"

fun map_ok :: "('a \<Rightarrow> 'b) \<Rightarrow> ('e, 'a) outcome \<Rightarrow> ('e, 'b) outcome" where
  "map_ok f (Ok a) = Ok (f a)"
| "map_ok f (Err e) = Err e"
| "map_ok f Panic = Panic"

text \<open>\<open>and_then x f\<close> is \<^verbatim>\<open>f(x?)\<close> where nothing is threaded.\<close>

definition and_then :: "('e, 'a) outcome \<Rightarrow> ('a \<Rightarrow> ('e, 'b) outcome) \<Rightarrow> ('e, 'b) outcome" where
  "and_then x f = (case x of Ok a \<Rightarrow> f a | Err e \<Rightarrow> Err e | Panic \<Rightarrow> Panic)"

lemma and_then_Ok: "and_then x f = Ok b \<longleftrightarrow> (\<exists>a. x = Ok a \<and> f a = Ok b)"
  by (cases x) (simp_all add: and_then_def)

lemma ret_eval [prog_simps]: "ret a s = Some (Ok a, s)"
  by (simp add: ret_def)

lemma fail_eval [prog_simps]: "fail e s = Some (Err e, s)"
  by (simp add: fail_def)

lemma panic_eval [prog_simps]: "panic s = Some (Panic, s)"
  by (simp add: panic_def)

lemma lift_outcome_eval [prog_simps]: "lift_outcome out s = Some (out, s)"
  by (simp add: lift_outcome_def)

lemma bindp_None [prog_simps]: "m s = None \<Longrightarrow> bindp m f s = None"
  by (simp add: bindp_def)

lemma bindp_Ok [prog_simps]: "m s = Some (Ok a, s') \<Longrightarrow> bindp m f s = f a s'"
  by (simp add: bindp_def)

lemma bindp_Err [prog_simps]: "m s = Some (Err e, s') \<Longrightarrow> bindp m f s = Some (Err e, s')"
  by (simp add: bindp_def)

lemma bindp_Panic [prog_simps]: "m s = Some (Panic, s') \<Longrightarrow> bindp m f s = Some (Panic, s')"
  by (simp add: bindp_def)

text \<open>How a sequenced program can have ended well: both steps did.\<close>

lemma bindp_OkE:
  assumes "bindp m f s = Some (Ok b, s'')"
  obtains a s' where "m s = Some (Ok a, s')" and "f a s' = Some (Ok b, s'')"
proof (cases "m s")
  case None
  with assms show ?thesis by (simp add: bindp_def)
next
  case (Some p)
  with assms that show ?thesis
    by (cases p, cases "fst p") (auto simp: bindp_def)
qed

lemma bindp_assoc: "bindp (bindp m f) g = bindp m (\<lambda>a. bindp (f a) g)"
  by (rule ext) (auto simp: bindp_def split: option.splits prod.splits outcome.splits)

lemma bindp_ret [simp]: "bindp (ret a) f = f a"
  by (simp add: bindp_def ret_def fun_eq_iff)

section \<open>Little-endian encodings\<close>

text \<open>
  \<open>le_bytes n w\<close> are the low \<open>n\<close> bytes of \<open>w\<close>, least significant first
  (\<^verbatim>\<open>to_le_bytes\<close> for \<open>n\<close> the width of the type), and \<open>from_le\<close> is
  \<^verbatim>\<open>from_le_bytes\<close>.
\<close>

primrec le_bytes :: "nat \<Rightarrow> 'a::len word \<Rightarrow> bytes" where
  "le_bytes 0 w = []"
| "le_bytes (Suc n) w = ucast w # le_bytes n (drop_bit 8 w)"

primrec from_le :: "bytes \<Rightarrow> 'a::len word" where
  "from_le [] = 0"
| "from_le (b # bs) = ucast b OR push_bit 8 (from_le bs)"

lemma length_le_bytes [simp]: "length (le_bytes n w) = n"
  by (induction n arbitrary: w) auto

lemma take_le_bytes: "m \<le> n \<Longrightarrow> take m (le_bytes n w) = le_bytes m w"
proof (induction n arbitrary: m w)
  case 0
  then show ?case by simp
next
  case (Suc n)
  then show ?case by (cases m) auto
qed

lemma from_le_bytes: "from_le (le_bytes n w) = take_bit (8 * n) w"
proof (induction n arbitrary: w)
  case 0
  then show ?case by simp
next
  case (Suc n)
  have "from_le (le_bytes (Suc n) w) = ucast (ucast w :: u8) OR push_bit 8 (take_bit (8 * n) (drop_bit 8 w))"
    by (simp add: Suc.IH)
  also have "\<dots> = take_bit (8 * Suc n) w"
    by (rule bit_word_eqI) (auto simp: bit_simps)
  finally show ?case .
qed

lemma from_le_replicate0 [simp]: "from_le (bs @ replicate k 0) = from_le bs"
proof (induction bs)
  case Nil
  show ?case by (induction k) auto
qed simp

lemma bit_from_le: "bit (from_le bs :: 'a::len word) i \<Longrightarrow> i < 8 * length bs"
proof (induction bs arbitrary: i)
  case (Cons b bs)
  show ?case
  proof (cases "i < 8")
    case False
    with Cons.prems have "bit (from_le bs :: 'a word) (i - 8)"
      by (auto simp: bit_simps dest: bit_imp_le_length)
    from Cons.IH [OF this] False show ?thesis by simp
  qed simp
qed simp

lemma take_bit_from_le: "take_bit (8 * length bs) (from_le bs :: 'a::len word) = from_le bs"
  by (rule bit_word_eqI) (auto simp: bit_simps dest: bit_from_le)

lemma drop_bit_from_le_Cons:
  assumes "8 * Suc (length bs) \<le> LENGTH('a)"
  shows "drop_bit 8 (ucast (b :: u8) OR push_bit 8 (from_le bs) :: 'a::len word) = from_le bs"
proof (rule bit_word_eqI)
  fix i
  show "bit (drop_bit 8 (ucast b OR push_bit 8 (from_le bs) :: 'a word)) i = bit (from_le bs :: 'a word) i"
    using assms bit_from_le [of bs i, where ?'a = 'a]
    by (auto simp: bit_simps dest: bit_imp_le_length)
qed

lemma le_bytes_from_le:
  assumes "8 * length bs \<le> LENGTH('a)"
  shows "le_bytes (length bs) (from_le bs :: 'a::len word) = bs"
  using assms
proof (induction bs)
  case (Cons b bs)
  have "ucast (ucast b OR push_bit 8 (from_le bs) :: 'a word) = b"
    using Cons.prems by (intro bit_word_eqI) (auto simp: bit_simps)
  moreover have "drop_bit 8 (ucast b OR push_bit 8 (from_le bs) :: 'a word) = from_le bs"
    using Cons.prems by (intro drop_bit_from_le_Cons) simp
  ultimately show ?case using Cons by (simp del: drop_bit_or)
qed simp

text \<open>Byte strings of one length are equal when the numbers they encode are.\<close>

lemma from_le_eq_iff:
  assumes "length bs = n" and "8 * n \<le> LENGTH('a)"
  shows "(from_le bs :: 'a::len word) = take_bit (8 * n) v \<longleftrightarrow> bs = le_bytes n v"
proof
  assume "(from_le bs :: 'a word) = take_bit (8 * n) v"
  then have "from_le bs = (from_le (le_bytes n v) :: 'a word)" by (simp add: from_le_bytes)
  then have "le_bytes n (from_le bs :: 'a word) = le_bytes n (from_le (le_bytes n v) :: 'a word)" by simp
  then show "bs = le_bytes n v"
    using assms le_bytes_from_le [of bs, where ?'a = 'a] le_bytes_from_le [of "le_bytes n v", where ?'a = 'a]
    by simp
qed (simp add: from_le_bytes)

text \<open>A length below \<open>2 ^ 32\<close> survives the four-byte header.\<close>

definition u32_of_usize :: "nat \<Rightarrow> u32" where
  "u32_of_usize n = word_of_nat n"

lemma unat_u32_of_usize: "unat (u32_of_usize n) = n mod 2 ^ 32"
  by (simp add: u32_of_usize_def unat_of_nat)

lemma unat_header_roundtrip:
  assumes "n \<le> u32_max"
  shows "unat (from_le (le_bytes 4 (u32_of_usize n)) :: u32) = n"
proof -
  have "take_bit 32 (u32_of_usize n) = u32_of_usize n"
    by (rule bit_word_eqI) (simp add: bit_simps)
  then have "from_le (le_bytes 4 (u32_of_usize n)) = u32_of_usize n"
    by (simp add: from_le_bytes)
  with assms show ?thesis
    by (simp add: unat_u32_of_usize u32_max_def)
qed

lemma unat_u32_le: "unat (w :: u32) \<le> u32_max"
  using unsigned_less [of w, where ?'a = nat] by (simp add: u32_max_def)

section \<open>Byte vectors\<close>

text \<open>
  A \<^verbatim>\<open>Vec<u8>\<close>: its elements and its capacity. Growth is the amortised doubling of
  \<^verbatim>\<open>alloc::raw_vec\<close>; an allocation that fails aborts the process and is not modelled.
\<close>

record vec =
  vdata :: bytes
  vcap :: nat

definition vec_new :: vec where
  "vec_new = \<lparr>vdata = [], vcap = 0\<rparr>"

definition vec_with_capacity :: "nat \<Rightarrow> vec" where
  "vec_with_capacity n = \<lparr>vdata = [], vcap = n\<rparr>"

definition grow_amortized :: "nat \<Rightarrow> nat \<Rightarrow> nat" where
  "grow_amortized cap required = max 8 (max (2 * cap) required)"

definition vec_resize :: "vec \<Rightarrow> nat \<Rightarrow> vec" where
  "vec_resize v n =
     \<lparr>vdata = take n (vdata v) @ replicate (n - length (vdata v)) 0,
      vcap = (if n \<le> vcap v then vcap v else grow_amortized (vcap v) n)\<rparr>"

definition vec_reserve :: "vec \<Rightarrow> nat \<Rightarrow> vec" where
  "vec_reserve v additional =
     (if vcap v - length (vdata v) < additional
      then v\<lparr>vcap := grow_amortized (vcap v) (length (vdata v) + additional)\<rparr> else v)"

text \<open>Overwriting the front of the elements, as a read into \<^verbatim>\<open>&mut buf[..n]\<close> does.\<close>

definition vec_fill :: "vec \<Rightarrow> bytes \<Rightarrow> vec" where
  "vec_fill v bs = v\<lparr>vdata := bs @ drop (length bs) (vdata v)\<rparr>"

definition vec_ok :: "vec \<Rightarrow> bool" where
  "vec_ok v \<longleftrightarrow> length (vdata v) \<le> vcap v"

lemma grow_amortized_ge: "n \<le> grow_amortized cap n"
  by (simp add: grow_amortized_def)

lemma length_vec_resize [simp]: "length (vdata (vec_resize v n)) = n"
  by (simp add: vec_resize_def)

lemma vcap_vec_resize_mono: "vcap v \<le> vcap (vec_resize v n)"
  by (auto simp: vec_resize_def grow_amortized_def max_def)

lemma length_vec_fill [simp]:
  "length bs \<le> length (vdata v) \<Longrightarrow> length (vdata (vec_fill v bs)) = length (vdata v)"
  by (simp add: vec_fill_def)

lemma take_vec_fill [simp]: "n \<le> length bs \<Longrightarrow> take n (vdata (vec_fill v bs)) = take n bs"
  by (simp add: vec_fill_def)

lemma vcap_vec_fill [simp]: "vcap (vec_fill v bs) = vcap v"
  by (simp add: vec_fill_def)

lemma vec_ok_new [simp]: "vec_ok vec_new" and vec_ok_with_capacity [simp]: "vec_ok (vec_with_capacity n)"
  by (simp_all add: vec_ok_def vec_new_def vec_with_capacity_def)

lemma vec_ok_resize [simp]: "vec_ok (vec_resize v n)"
  by (auto simp: vec_ok_def vec_resize_def grow_amortized_def max_def)

lemma vec_ok_fill: "vec_ok v \<Longrightarrow> length bs \<le> length (vdata v) \<Longrightarrow> vec_ok (vec_fill v bs)"
  by (simp add: vec_ok_def)

lemma vec_ok_reserve: "vec_ok v \<Longrightarrow> vec_ok (vec_reserve v k)"
  by (auto simp: vec_ok_def vec_reserve_def grow_amortized_def max_def)

lemma vcap_vec_reserve_mono: "vcap v \<le> vcap (vec_reserve v k)"
  by (auto simp: vec_reserve_def grow_amortized_def max_def)

section \<open>Rendering\<close>

text \<open>\<open>dec n\<close> is the decimal numeral that \<^verbatim>\<open>format!("{n}")\<close> prints.\<close>

fun dec :: "nat \<Rightarrow> string" where
  "dec n = (if n < 10 then [char_of (48 + n)] else dec (n div 10) @ [char_of (48 + n mod 10)])"

declare dec.simps [simp del]

lemma dec_nonempty: "dec n \<noteq> []"
  by (subst dec.simps) simp

end
