(* ===== verification/FS_Error.thy ===== *)
theory FS_Error
  imports FS_Prelude
begin

text \<open>
  The error type of \<^verbatim>\<open>src/error.rs\<close>: the failure categories of \<^verbatim>\<open>ErrorKind\<close>, the boxed
  \<^verbatim>\<open>Error\<close>, its constructors and conversions, and what its \<^verbatim>\<open>Display\<close> prints. The
  \<^verbatim>\<open>std::io::Error\<close> that \<^verbatim>\<open>ErrorKind::Io\<close> carries is its kind and its text. Of
  \<^verbatim>\<open>flatbuffers::InvalidFlatbuffer\<close> the crate uses nothing but the text it renders to.
\<close>

section \<open>I/O errors of the standard library\<close>

datatype io_kind =
    Interrupted
  | UnexpectedEofKind
  | WriteZero
  | OtherKind string

datatype io_error = IoError (io_kind: io_kind) (io_text: string)

section \<open>The library's errors\<close>

datatype error_kind =
    Io io_error
  | ChecksumMismatch u64 u64
  | InvalidFrame string "nat option" "nat option" "nat option"
  | FlatbuffersError string
  | ValidationFailed string string
  | UnexpectedEof

datatype error = Error (kind: error_kind)

definition into_kind :: "error \<Rightarrow> error_kind" where
  "into_kind e = (case e of Error k \<Rightarrow> k)"

definition error_of_kind :: "error_kind \<Rightarrow> error" where
  "error_of_kind k = Error k"

definition error_of_io :: "io_error \<Rightarrow> error" where
  "error_of_io e = error_of_kind (Io e)"

definition error_of_flatbuffer :: "string \<Rightarrow> error" where
  "error_of_flatbuffer e = error_of_kind (FlatbuffersError e)"

definition invalid_frame :: "string \<Rightarrow> error" where
  "invalid_frame message = error_of_kind (InvalidFrame message None None None)"

definition invalid_frame_with ::
  "string \<Rightarrow> nat option \<Rightarrow> nat option \<Rightarrow> nat option \<Rightarrow> error" where
  "invalid_frame_with message declared_len buffer_len limit =
     error_of_kind (InvalidFrame message declared_len buffer_len limit)"

definition checksum_mismatch :: "u64 \<Rightarrow> u64 \<Rightarrow> error" where
  "checksum_mismatch expected calculated = error_of_kind (ChecksumMismatch expected calculated)"

definition validation_failed :: "string \<Rightarrow> string \<Rightarrow> error" where
  "validation_failed validator reason = error_of_kind (ValidationFailed validator reason)"

definition unexpected_eof :: error where
  "unexpected_eof = error_of_kind UnexpectedEof"

text \<open>
  The conversion the deframers apply to a failed \<^verbatim>\<open>read_exact\<close> inside a frame:
  \<^verbatim>\<open>UnexpectedEof\<close> becomes the library's own, everything else stays an I/O error.
\<close>

definition in_frame_error :: "io_error \<Rightarrow> error" where
  "in_frame_error e =
     (case io_kind e of UnexpectedEofKind \<Rightarrow> unexpected_eof | _ \<Rightarrow> error_of_io e)"

section \<open>Rendering\<close>

text \<open>
  \<^verbatim>\<open>InvalidFrameContext\<close>: the loop over the three optional fields with its changing
  separator, and the closing parenthesis only when a field was printed.
\<close>

fun render_context :: "string \<Rightarrow> (string \<times> nat option) list \<Rightarrow> string" where
  "render_context sep [] = (if sep = '', '' then '')'' else '''')"
| "render_context sep ((name, None) # items) = render_context sep items"
| "render_context sep ((name, Some v) # items) =
     sep @ name @ ''='' @ dec v @ render_context '', '' items"

definition invalid_frame_context :: "nat option \<Rightarrow> nat option \<Rightarrow> nat option \<Rightarrow> string" where
  "invalid_frame_context declared_len buffer_len limit =
     render_context '' ('' [(''declared_len'', declared_len), (''buffer_len'', buffer_len), (''limit'', limit)]"

fun display_kind :: "error_kind \<Rightarrow> string" where
  "display_kind (Io e) = ''I/O error: '' @ io_text e"
| "display_kind (ChecksumMismatch expected calculated) =
     ''Checksum mismatch: expected '' @ dec (unat expected) @ '', got '' @ dec (unat calculated)"
| "display_kind (InvalidFrame message declared_len buffer_len limit) =
     ''Invalid frame: '' @ message @ invalid_frame_context declared_len buffer_len limit"
| "display_kind (FlatbuffersError e) = ''FlatBuffers error: '' @ e"
| "display_kind (ValidationFailed validator reason) =
     ''Validation failed (validator: '' @ validator @ ''): '' @ reason"
| "display_kind UnexpectedEof = ''Unexpected end of file while reading stream''"

definition display_error :: "error \<Rightarrow> string" where
  "display_error e = display_kind (kind e)"

text \<open>\<^verbatim>\<open>Error\<close> is transparent: its source is the source of its kind.\<close>

fun error_source :: "error \<Rightarrow> (io_error + string) option" where
  "error_source (Error (Io e)) = Some (Inl e)"
| "error_source (Error (FlatbuffersError e)) = Some (Inr e)"
| "error_source _ = None"

section \<open>Properties\<close>

lemmas error_defs = error_of_kind_def error_of_io_def error_of_flatbuffer_def invalid_frame_def
  invalid_frame_with_def checksum_mismatch_def validation_failed_def unexpected_eof_def

lemma into_kind_kind: "into_kind e = kind e"
  by (cases e) (simp add: into_kind_def)

lemma in_frame_error_eof [simp]: "io_kind e = UnexpectedEofKind \<Longrightarrow> in_frame_error e = unexpected_eof"
  by (simp add: in_frame_error_def)

lemma in_frame_error_other [simp]: "io_kind e \<noteq> UnexpectedEofKind \<Longrightarrow> in_frame_error e = error_of_io e"
  by (simp add: in_frame_error_def split: io_kind.splits)

lemma error_of_io_neq_eof [simp]: "error_of_io e \<noteq> unexpected_eof"
  by (simp add: error_defs)

lemma in_frame_error_iff: "in_frame_error e = unexpected_eof \<longleftrightarrow> io_kind e = UnexpectedEofKind"
  by (cases "io_kind e = UnexpectedEofKind") simp_all

text \<open>The declarative reading of the context: the present fields, joined by commas.\<close>

fun join_fields :: "string list \<Rightarrow> string" where
  "join_fields [] = ''''"
| "join_fields [f] = f"
| "join_fields (f # g # fs) = f @ '', '' @ join_fields (g # fs)"

fun present_fields :: "(string \<times> nat option) list \<Rightarrow> string list" where
  "present_fields [] = []"
| "present_fields ((name, None) # items) = present_fields items"
| "present_fields ((name, Some n) # items) = (name @ ''='' @ dec n) # present_fields items"

lemma render_context_tail:
  "render_context '', '' items = concat (map (\<lambda>f. '', '' @ f) (present_fields items)) @ '')''"
  by (induction items rule: present_fields.induct) simp_all

lemma join_fields_Cons: "join_fields (f # fs) = f @ concat (map (\<lambda>g. '', '' @ g) fs)"
  by (induction fs arbitrary: f) simp_all

lemma render_context_head:
  "render_context '' ('' items =
     (if present_fields items = [] then '''' else '' ('' @ join_fields (present_fields items) @ '')'')"
  by (induction items rule: present_fields.induct)
    (simp_all add: join_fields_Cons render_context_tail)

section \<open>Properties\<close>

text \<open>The message of an invalid frame lists the fields that are present, in the order
  declared length, buffer length, limit, as \<^verbatim>\<open>name=value\<close> joined by commas inside one pair of
  parentheses, and prints nothing when all are absent.\<close>

lemma invalid_frame_message:
  "display_error (invalid_frame_with msg len buf lim) =
     ''Invalid frame: '' @ msg @
     (let fs = present_fields [(''declared_len'', len), (''buffer_len'', buf), (''limit'', lim)]
      in if fs = [] then '''' else '' ('' @ join_fields fs @ '')'')"
  by (simp add: display_error_def invalid_frame_with_def error_of_kind_def invalid_frame_context_def
      render_context_head Let_def)

end
