(* ===== verification/FS_Std_IO.thy ===== *)
theory FS_Std_IO
  imports FS_Error
begin

text \<open>
  The part of \<^verbatim>\<open>std::io\<close> the library is written against. A \<^verbatim>\<open>Read\<close> or \<^verbatim>\<open>Write\<close>
  implementation is a parameter: the function it supplies, on the state it keeps. On top of
  it stand the provided methods \<^verbatim>\<open>read_exact\<close> and \<^verbatim>\<open>write_all\<close>, with their retry of
  \<^verbatim>\<open>Interrupted\<close>, their handling of an early end, and the panic on an implementation that
  claims more bytes than were asked for. The contracts of the traits are locales; the
  in-memory \<^verbatim>\<open>Cursor\<close> and \<^verbatim>\<open>Vec<u8>\<close> interpret them.
\<close>

section \<open>Readers\<close>

type_synonym 'r read_op = "'r \<Rightarrow> nat \<Rightarrow> (io_error, bytes) outcome \<times> 'r"

definition eof_error :: io_error where
  "eof_error = IoError UnexpectedEofKind ''failed to fill whole buffer''"

text \<open>
  \<open>read_exact rd n r\<close> fills a slice of \<open>n\<close> bytes. Besides the outcome it returns the
  bytes stored at the front of the slice: all of them after \<^verbatim>\<open>Ok\<close>, those that had arrived
  after a failure.
\<close>

partial_function (option) read_loop ::
  "'r read_op \<Rightarrow> nat \<Rightarrow> bytes \<Rightarrow> 'r \<Rightarrow> ((io_error, unit) outcome \<times> bytes \<times> 'r) option" where
  "read_loop rd n got r =
     (if n = 0 then Some (Ok (), got, r)
      else (case rd r n of
          (Ok bs, r') \<Rightarrow>
            (if bs = [] then Some (Err eof_error, got, r')
             else if n < length bs then Some (Panic, got, r')
             else read_loop rd (n - length bs) (got @ bs) r')
        | (Err e, r') \<Rightarrow>
            (if io_kind e = Interrupted then read_loop rd n got r'
             else Some (Err e, got, r'))
        | (Panic, r') \<Rightarrow> Some (Panic, got, r')))"

definition read_exact ::
  "'r read_op \<Rightarrow> nat \<Rightarrow> 'r \<Rightarrow> ((io_error, unit) outcome \<times> bytes \<times> 'r) option" where
  "read_exact rd n r = read_loop rd n [] r"

declare read_loop.simps [code]

lemma read_loop_0 [simp]: "read_loop rd 0 got r = Some (Ok (), got, r)"
  by (simp add: read_loop.simps)

lemma read_exact_0 [simp]: "read_exact rd 0 r = Some (Ok (), [], r)"
  by (simp add: read_exact_def)

text \<open>Whatever the reader does, no more than the slice is filled, and \<^verbatim>\<open>Ok\<close> means all of it.\<close>

lemma read_loop_length:
  assumes "read_loop rd n got r = Some y"
  shows "length (fst (snd y)) \<le> length got + n \<and> (fst y = Ok () \<longrightarrow> length (fst (snd y)) = length got + n)"
  using assms
proof (induction rule: read_loop.raw_induct [rotated, consumes 1, case_names step])
  case (step rec rd n got r y)
  obtain o1 r1 where rd: "rd r n = (o1, r1)" by (cases "rd r n")
  show ?case
  proof (cases o1)
    case (Ok piece)
    with step.hyps rd show ?thesis
      by (cases "piece = []") (auto split: if_splits dest!: step.IH)
  next
    case (Err e)
    with step.hyps rd show ?thesis by (auto split: if_splits dest!: step.IH)
  next
    case Panic
    with step.hyps rd show ?thesis by (auto split: if_splits)
  qed
qed

lemma read_exact_length:
  "read_exact rd n r = Some (out, bs, r') \<Longrightarrow> length bs \<le> n"
  "read_exact rd n r = Some (Ok (), bs, r') \<Longrightarrow> length bs = n"
  using read_loop_length [of rd n "[]" r "(out, bs, r')"] read_loop_length [of rd n "[]" r "(Ok (), bs, r')"]
  by (simp_all add: read_exact_def)

text \<open>
  The contract of \<^verbatim>\<open>Read\<close>: \<open>content r\<close> are the bytes the reader still delivers, and
  \<open>patience r\<close> bounds the interruptions before the next delivery. A read returns a
  non-empty piece of the content while there is any; a failed read loses nothing.
\<close>

locale byte_source =
  fixes rd :: "'r read_op"
    and content :: "'r \<Rightarrow> bytes"
    and patience :: "'r \<Rightarrow> nat"
    and healthy :: "'r \<Rightarrow> bool"
  assumes read_Ok: "\<And>r n bs r'. healthy r \<Longrightarrow> 0 < n \<Longrightarrow> rd r n = (Ok bs, r') \<Longrightarrow>
      healthy r' \<and> content r = bs @ content r' \<and> length bs \<le> n \<and> (bs = [] \<longrightarrow> content r = [])"
    and read_Err: "\<And>r n e r'. healthy r \<Longrightarrow> 0 < n \<Longrightarrow> rd r n = (Err e, r') \<Longrightarrow>
      healthy r' \<and> content r' = content r \<and> (io_kind e = Interrupted \<longrightarrow> patience r' < patience r)"
    and read_not_Panic: "\<And>r n r'. healthy r \<Longrightarrow> 0 < n \<Longrightarrow> rd r n \<noteq> (Panic, r')"
begin

definition delivered :: "nat \<Rightarrow> 'r \<Rightarrow> (io_error, unit) outcome \<Rightarrow> bytes \<Rightarrow> 'r \<Rightarrow> bool" where
  "delivered n r out bs r' \<longleftrightarrow> healthy r' \<and> content r = bs @ content r' \<and>
     (case out of
        Ok u \<Rightarrow> length bs = n
      | Err e \<Rightarrow> length bs < n \<and> io_kind e \<noteq> Interrupted \<and>
          (e = eof_error \<and> content r' = [] \<or>
           (\<exists>r0 m r1. healthy r0 \<and> 0 < m \<and> rd r0 m = (Err e, r1)))
      | Panic \<Rightarrow> False)"

lemma delivered_step:
  assumes "delivered (n - length bs) r1 out bs' r'" and "content r = bs @ content r1" and "length bs \<le> n"
  shows "delivered n r out (bs @ bs') r'"
  using assms by (auto simp: delivered_def split: outcome.splits)

lemma delivered_retry:
  "delivered n r1 out bs r' \<Longrightarrow> content r1 = content r \<Longrightarrow> delivered n r out bs r'"
  by (simp add: delivered_def)

lemma read_loop_delivers:
  assumes "healthy r"
  shows "\<exists>out bs r'. read_loop rd n got r = Some (out, got @ bs, r') \<and> delivered n r out bs r'"
  using assms
proof (induction n arbitrary: got r rule: less_induct)
  case (less n)
  note shorter = less.IH
  from less.prems show ?case
  proof (induction "patience r" arbitrary: r rule: less_induct)
    case (less r)
    show ?case
    proof (cases "n = 0")
      case True
      with less.prems have "read_loop rd n got r = Some (Ok (), got @ [], r)"
        and "delivered n r (Ok ()) [] r"
        by (simp_all add: delivered_def)
      then show ?thesis by blast
    next
      case False
      then have n: "0 < n" by simp
      obtain out r1 where rd: "rd r n = (out, r1)" by (cases "rd r n")
      note step = read_loop.simps [of rd n got r] rd
      show ?thesis
      proof (cases out)
        case (Ok bs)
        note laws = read_Ok [OF less.prems n rd [unfolded Ok]]
        show ?thesis
        proof (cases "bs = []")
          case True
          with laws have "content r1 = []" and "content r = []" and "healthy r1" by auto
          with True n have "read_loop rd n got r = Some (Err eof_error, got @ [], r1)"
            and "delivered n r (Err eof_error) [] r1"
            by (simp_all add: step Ok delivered_def eof_error_def)
          then show ?thesis by blast
        next
          case False
          with laws n have "n - length bs < n" by simp
          from shorter [OF this, of r1 "got @ bs"] laws obtain out' bs' r' where
            "read_loop rd (n - length bs) (got @ bs) r1 = Some (out', (got @ bs) @ bs', r')"
            and "delivered (n - length bs) r1 out' bs' r'" by blast
          with False n laws have "read_loop rd n got r = Some (out', got @ (bs @ bs'), r')"
            and "delivered n r out' (bs @ bs') r'"
            by (simp_all add: step Ok delivered_step)
          then show ?thesis by blast
        qed
      next
        case (Err e)
        note laws = read_Err [OF less.prems n rd [unfolded Err]]
        show ?thesis
        proof (cases "io_kind e = Interrupted")
          case True
          with laws less.hyps [of r1] obtain out' bs r' where
            "read_loop rd n got r1 = Some (out', got @ bs, r')" and "delivered n r1 out' bs r'"
            by blast
          moreover from True n have "read_loop rd n got r = read_loop rd n got r1"
            by (simp add: step Err)
          ultimately show ?thesis using laws by (auto intro: delivered_retry)
        next
          case False
          have "delivered n r (Err e) [] r1"
            using False laws n less.prems rd Err by (auto simp: delivered_def)
          moreover from False n have "read_loop rd n got r = Some (Err e, got @ [], r1)"
            by (simp add: step Err)
          ultimately show ?thesis by blast
        qed
      next
        case Panic
        with read_not_Panic [OF less.prems n] rd show ?thesis by blast
      qed
    qed
  qed
qed

text \<open>\<^verbatim>\<open>read_exact\<close> returns, and what it returns.\<close>

lemma read_exact_delivers:
  assumes "healthy r"
  obtains out bs r' where "read_exact rd n r = Some (out, bs, r')" and "delivered n r out bs r'"
  using read_loop_delivers [OF assms, of n "[]"] by (auto simp: read_exact_def)

end

text \<open>A fault of the device: an error it reports in a healthy state and that is not a request to retry.\<close>

definition device_fault :: "'r read_op \<Rightarrow> ('r \<Rightarrow> bool) \<Rightarrow> io_error \<Rightarrow> bool" where
  "device_fault rd healthy e \<longleftrightarrow>
     io_kind e \<noteq> Interrupted \<and> (\<exists>r n r'. healthy r \<and> 0 < n \<and> rd r n = (Err e, r'))"

text \<open>
  \<^verbatim>\<open>read_exact\<close> fills the slice, or runs into the end of the content, or passes on a fault of the device.
\<close>

context byte_source
begin

lemma read_exact_cases:
  assumes "healthy r"
  obtains (full) r' where "n \<le> length (content r)" "read_exact rd n r = Some (Ok (), take n (content r), r')"
      "healthy r'" "content r' = drop n (content r)"
    | (short) r' where "length (content r) < n" "read_exact rd n r = Some (Err eof_error, content r, r')"
      "healthy r'" "content r' = []"
    | (fault) e bs r' where "device_fault rd healthy e" "length bs < n" "read_exact rd n r = Some (Err e, bs, r')" "healthy r'"
proof -
  from assms obtain out bs r' where run: "read_exact rd n r = Some (out, bs, r')"
    and d: "delivered n r out bs r'" by (rule read_exact_delivers)
  show ?thesis
  proof (cases out)
    case (Ok u)
    with run d full show ?thesis by (auto simp: delivered_def)
  next
    case (Err e)
    with run d short fault show ?thesis
      by (auto simp: delivered_def device_fault_def)
  next
    case Panic
    with d show ?thesis by (simp add: delivered_def)
  qed
qed

end

text \<open>
  An honest source may fail, but it leaves \<^verbatim>\<open>UnexpectedEof\<close> to \<^verbatim>\<open>read_exact\<close>: no failed read
  claims to be the end of the stream.
\<close>

locale honest_source = byte_source rd content patience healthy
  for rd :: "'r read_op" and content :: "'r \<Rightarrow> bytes" and patience :: "'r \<Rightarrow> nat" and healthy :: "'r \<Rightarrow> bool" +
  assumes no_eof_kind: "\<And>r n e r'. healthy r \<Longrightarrow> 0 < n \<Longrightarrow> rd r n = (Err e, r') \<Longrightarrow> io_kind e \<noteq> UnexpectedEofKind"
begin

lemma device_fault_kind: "device_fault rd healthy e \<Longrightarrow> io_kind e \<noteq> UnexpectedEofKind"
  using no_eof_kind by (auto simp: device_fault_def)

end

text \<open>
  A reliable source has no device faults: the only error it reports is an interruption, which
  \<^verbatim>\<open>read_exact\<close> absorbs. Then \<^verbatim>\<open>read_exact\<close> is a function of the content alone.
\<close>

locale reliable_source = byte_source rd content patience healthy
  for rd :: "'r read_op" and content :: "'r \<Rightarrow> bytes" and patience :: "'r \<Rightarrow> nat" and healthy :: "'r \<Rightarrow> bool" +
  assumes only_interrupted: "\<And>r n e r'. healthy r \<Longrightarrow> 0 < n \<Longrightarrow> rd r n = (Err e, r') \<Longrightarrow> io_kind e = Interrupted"

sublocale reliable_source \<subseteq> honest_source
  using only_interrupted by unfold_locales simp

context reliable_source
begin

lemma no_device_fault: "\<not> device_fault rd healthy e"
  using only_interrupted by (auto simp: device_fault_def)

lemma read_exact_reliable:
  assumes "healthy r"
  shows "\<exists>r'. read_exact rd n r =
      Some (if n \<le> length (content r) then Ok () else Err eof_error, take n (content r), r') \<and>
    healthy r' \<and> content r' = drop n (content r)"
  using assms by (rule read_exact_cases [where n = n]) (auto simp: no_device_fault)

end

section \<open>Writers\<close>

type_synonym 'w write_op = "'w \<Rightarrow> bytes \<Rightarrow> (io_error, nat) outcome \<times> 'w"
type_synonym 'w flush_op = "'w \<Rightarrow> (io_error, unit) outcome \<times> 'w"

definition write_zero_error :: io_error where
  "write_zero_error = IoError WriteZero ''failed to write whole buffer''"

partial_function (option) write_all ::
  "'w write_op \<Rightarrow> bytes \<Rightarrow> 'w \<Rightarrow> ((io_error, unit) outcome \<times> 'w) option" where
  "write_all wr buf w =
     (if buf = [] then Some (Ok (), w)
      else (case wr w buf of
          (Ok k, w') \<Rightarrow>
            (if k = 0 then Some (Err write_zero_error, w')
             else if length buf < k then Some (Panic, w')
             else write_all wr (drop k buf) w')
        | (Err e, w') \<Rightarrow>
            (if io_kind e = Interrupted then write_all wr buf w'
             else Some (Err e, w'))
        | (Panic, w') \<Rightarrow> Some (Panic, w')))"

declare write_all.simps [code]

lemma write_all_Nil [simp]: "write_all wr [] w = Some (Ok (), w)"
  by (simp add: write_all.simps)

text \<open>
  The contract of \<^verbatim>\<open>Write\<close>: \<open>written w\<close> are the bytes accepted so far. A write accepts a
  prefix of its buffer; a failed one accepts nothing.
\<close>

locale byte_sink =
  fixes wr :: "'w write_op"
    and written :: "'w \<Rightarrow> bytes"
    and wpatience :: "'w \<Rightarrow> nat"
    and open_sink :: "'w \<Rightarrow> bool"
  assumes write_Ok: "\<And>w buf k w'. open_sink w \<Longrightarrow> buf \<noteq> [] \<Longrightarrow> wr w buf = (Ok k, w') \<Longrightarrow>
      open_sink w' \<and> k \<le> length buf \<and> written w' = written w @ take k buf"
    and write_Err: "\<And>w buf e w'. open_sink w \<Longrightarrow> buf \<noteq> [] \<Longrightarrow> wr w buf = (Err e, w') \<Longrightarrow>
      open_sink w' \<and> written w' = written w \<and> (io_kind e = Interrupted \<longrightarrow> wpatience w' < wpatience w)"
    and write_not_Panic: "\<And>w buf w'. open_sink w \<Longrightarrow> buf \<noteq> [] \<Longrightarrow> wr w buf \<noteq> (Panic, w')"
begin

definition stored :: "bytes \<Rightarrow> 'w \<Rightarrow> (io_error, unit) outcome \<Rightarrow> 'w \<Rightarrow> bool" where
  "stored buf w out w' \<longleftrightarrow> open_sink w' \<and>
     (case out of
        Ok u \<Rightarrow> written w' = written w @ buf
      | Err e \<Rightarrow> io_kind e \<noteq> Interrupted \<and> (\<exists>k < length buf. written w' = written w @ take k buf)
          \<and> (e = write_zero_error \<or> (\<exists>w0 b w1. open_sink w0 \<and> b \<noteq> [] \<and> wr w0 b = (Err e, w1)))
      | Panic \<Rightarrow> False)"

lemma stored_step:
  assumes "stored (drop k buf) w1 out w'" and "written w1 = written w @ take k buf" and "k \<le> length buf"
  shows "stored buf w out w'"
proof (cases out)
  case (Err e)
  with assms obtain j where "j < length buf - k" and "written w' = written w @ take k buf @ take j (drop k buf)"
    by (auto simp: stored_def)
  then have "k + j < length buf" and "written w' = written w @ take (k + j) buf"
    by (simp_all add: take_add)
  with assms Err show ?thesis by (auto simp: stored_def)
qed (use assms in \<open>auto simp: stored_def\<close>)

lemma stored_retry: "stored buf w1 out w' \<Longrightarrow> written w1 = written w \<Longrightarrow> stored buf w out w'"
  by (auto simp: stored_def split: outcome.splits)

lemma write_all_stores:
  assumes "open_sink w"
  shows "\<exists>out w'. write_all wr buf w = Some (out, w') \<and> stored buf w out w'"
  using assms
proof (induction "length buf" arbitrary: buf w rule: less_induct)
  case less
  note shorter = less.hyps
  from less.prems show ?case
  proof (induction "wpatience w" arbitrary: w rule: less_induct)
    case (less w)
    show ?case
    proof (cases "buf = []")
      case True
      with less.prems show ?thesis
        by (simp add: stored_def)
    next
      case False
      obtain out w1 where wr: "wr w buf = (out, w1)" by (cases "wr w buf")
      note step = write_all.simps [of wr buf w] wr False
      show ?thesis
      proof (cases out)
        case (Ok k)
        note laws = write_Ok [OF less.prems False wr [unfolded Ok]]
        show ?thesis
        proof (cases "k = 0")
          case True
          have "stored buf w (Err write_zero_error) w1"
            using laws False True
            by (auto simp: stored_def write_zero_error_def intro!: exI [of _ 0])
          with True show ?thesis by (auto simp: step Ok)
        next
          case k: False
          with laws False have "length (drop k buf) < length buf" by simp
          from shorter [OF this, of w1] laws obtain out' w' where
            "write_all wr (drop k buf) w1 = Some (out', w')" and "stored (drop k buf) w1 out' w'"
            by blast
          with k laws show ?thesis by (auto simp: step Ok intro: stored_step)
        qed
      next
        case (Err e)
        note laws = write_Err [OF less.prems False wr [unfolded Err]]
        show ?thesis
        proof (cases "io_kind e = Interrupted")
          case True
          with laws less.hyps [of w1] obtain out' w' where
            "write_all wr buf w1 = Some (out', w')" and "stored buf w1 out' w'" by blast
          with True laws show ?thesis by (auto simp: step Err intro: stored_retry)
        next
          case kind: False
          have "\<exists>k < length buf. written w1 = written w @ take k buf"
            using laws False by (intro exI [of _ 0]) simp
          moreover have "\<exists>w0 b w1. open_sink w0 \<and> b \<noteq> [] \<and> wr w0 b = (Err e, w1)"
            using less.prems False wr Err by blast
          ultimately have "stored buf w (Err e) w1"
            using kind laws by (simp add: stored_def)
          with kind show ?thesis by (auto simp: step Err)
        qed
      next
        case Panic
        with write_not_Panic [OF less.prems False] wr show ?thesis by blast
      qed
    qed
  qed
qed

lemma write_all_returns:
  assumes "open_sink w"
  obtains out w' where "write_all wr buf w = Some (out, w')" and "stored buf w out w'"
  using write_all_stores [OF assms] by blast

end

text \<open>A reliable sink accepts at least one byte of every write and is at most interrupted.\<close>

locale reliable_sink = byte_sink wr written wpatience open_sink
  for wr :: "'w write_op" and written :: "'w \<Rightarrow> bytes" and wpatience :: "'w \<Rightarrow> nat" and open_sink :: "'w \<Rightarrow> bool" +
  assumes write_progress: "\<And>w buf k w'. open_sink w \<Longrightarrow> buf \<noteq> [] \<Longrightarrow> wr w buf = (Ok k, w') \<Longrightarrow> 0 < k"
    and only_write_interrupted: "\<And>w buf e w'. open_sink w \<Longrightarrow> buf \<noteq> [] \<Longrightarrow> wr w buf = (Err e, w') \<Longrightarrow> io_kind e = Interrupted"
begin

text \<open>A zero-length accept is the only source of the write-zero error, so it does not arise.\<close>

lemma write_all_Ok:
  assumes "open_sink w"
  shows "\<exists>w'. write_all wr buf w = Some (Ok (), w') \<and> open_sink w' \<and> written w' = written w @ buf"
  using assms
proof (induction "length buf" arbitrary: buf w rule: less_induct)
  case less
  note shorter = less.hyps
  from less.prems show ?case
  proof (induction "wpatience w" arbitrary: w rule: less_induct)
    case (less w)
    show ?case
    proof (cases "buf = []")
      case True
      with less.prems show ?thesis by simp
    next
      case False
      obtain out w1 where wr: "wr w buf = (out, w1)" by (cases "wr w buf")
      note step = write_all.simps [of wr buf w] wr False
      show ?thesis
      proof (cases out)
        case (Ok k)
        note laws = write_Ok [OF less.prems False wr [unfolded Ok]]
          write_progress [OF less.prems False wr [unfolded Ok]]
        with False have "length (drop k buf) < length buf" by simp
        from shorter [OF this, of w1] laws obtain w' where
          "write_all wr (drop k buf) w1 = Some (Ok (), w')" and "open_sink w'"
          and "written w' = written w1 @ drop k buf" by blast
        with laws show ?thesis by (simp add: step Ok)
      next
        case (Err e)
        note laws = write_Err [OF less.prems False wr [unfolded Err]]
          only_write_interrupted [OF less.prems False wr [unfolded Err]]
        with less.hyps [of w1] show ?thesis by (auto simp: step Err)
      next
        case Panic
        with write_not_Panic [OF less.prems False] wr show ?thesis by blast
      qed
    qed
  qed
qed

end

section \<open>Seeking\<close>

type_synonym 'r seek_op = "'r \<Rightarrow> u64 \<Rightarrow> (io_error, u64) outcome \<times> 'r"

text \<open>
  A seekable file: \<open>whole r\<close> are all its bytes, reading leaves them alone, and seeking to an
  absolute offset makes the content the bytes from there on.
\<close>

locale seekable_source = reliable_source rd content patience healthy
  for rd :: "'r read_op" and content :: "'r \<Rightarrow> bytes" and patience :: "'r \<Rightarrow> nat" and healthy :: "'r \<Rightarrow> bool" +
  fixes seek_start :: "'r seek_op"
    and whole :: "'r \<Rightarrow> bytes"
    and position :: "'r \<Rightarrow> nat"
  assumes seek_start_law: "\<And>r off. healthy r \<Longrightarrow> \<exists>r'. seek_start r off = (Ok off, r') \<and> healthy r'
      \<and> whole r' = whole r \<and> content r' = drop (unat off) (whole r) \<and> position r' = unat off"
    and read_keeps_file: "\<And>r n out r'. healthy r \<Longrightarrow> 0 < n \<Longrightarrow> rd r n = (out, r') \<Longrightarrow> whole r' = whole r"

section \<open>The in-memory cursor\<close>

record cursor =
  cursor_data :: bytes
  cursor_pos :: nat

definition cursor_new :: "bytes \<Rightarrow> cursor" where
  "cursor_new bs = \<lparr>cursor_data = bs, cursor_pos = 0\<rparr>"

definition cursor_rest :: "cursor \<Rightarrow> bytes" where
  "cursor_rest c = drop (cursor_pos c) (cursor_data c)"

definition cursor_read :: "cursor read_op" where
  "cursor_read c n =
     (let bs = take n (cursor_rest c)
      in (Ok bs, c\<lparr>cursor_pos := cursor_pos c + length bs\<rparr>))"

definition cursor_seek_start :: "cursor seek_op" where
  "cursor_seek_start c off = (Ok off, c\<lparr>cursor_pos := unat off\<rparr>)"

text \<open>
  Writing through a cursor over a \<^verbatim>\<open>Vec<u8>\<close> overwrites from the position on and extends
  the vector past its end, padding with zeros where the position lies beyond it.
\<close>

definition cursor_write :: "cursor write_op" where
  "cursor_write c bs =
     (let n = cursor_pos c; d = cursor_data c
      in (Ok (length bs),
          \<lparr>cursor_data = take n d @ replicate (n - length d) 0 @ bs @ drop (n + length bs) d,
           cursor_pos = n + length bs\<rparr>))"

lemma length_take_le: "length (take n xs) \<le> n"
  by simp

lemma cursor_read_rest:
  "cursor_rest (c\<lparr>cursor_pos := cursor_pos c + length (take n (cursor_rest c))\<rparr>) = drop n (cursor_rest c)"
  by (cases "n \<le> length (cursor_rest c)") (auto simp: cursor_rest_def add.commute)

interpretation cursor_source: byte_source cursor_read cursor_rest "\<lambda>_. 0" "\<lambda>_. True"
  by unfold_locales (auto simp: cursor_read_def Let_def cursor_read_rest length_take_le simp del: length_take)

interpretation cursor_source: reliable_source cursor_read cursor_rest "\<lambda>_. 0" "\<lambda>_. True"
  by unfold_locales (simp add: cursor_read_def Let_def)

text \<open>
  A device that fails: it delivers what is before the position \<open>k\<close> and then answers every read with the
  error \<open>e\<close>.
\<close>

definition failing_read :: "nat \<Rightarrow> io_error \<Rightarrow> cursor read_op" where
  "failing_read k e c n =
     (if k \<le> cursor_pos c then (Err e, c) else cursor_read c (min n (k - cursor_pos c)))"

text \<open>A disk that fails, and a device that reports its failure as an end of file.\<close>

definition disk_error :: io_error where
  "disk_error = IoError (OtherKind ''PermissionDenied'') ''disk''"

definition eof_kind_error :: io_error where
  "eof_kind_error = IoError UnexpectedEofKind ''connection lost''"

lemma failing_source:
  assumes "io_kind e \<noteq> Interrupted"
  shows "byte_source (failing_read k e) cursor_rest (\<lambda>_. 0) (\<lambda>_. True)"
proof unfold_locales
  fix c c' :: cursor and n bs assume "0 < (n :: nat)" "failing_read k e c n = (Ok bs, c')"
  then have "cursor_read c (min n (k - cursor_pos c)) = (Ok bs, c')" "0 < min n (k - cursor_pos c)"
    by (auto simp: failing_read_def split: if_splits)
  from cursor_source.read_Ok [OF TrueI this(2,1)]
  show "True \<and> cursor_rest c = bs @ cursor_rest c' \<and> length bs \<le> n \<and> (bs = [] \<longrightarrow> cursor_rest c = [])" by auto
qed (use assms in \<open>auto simp: failing_read_def cursor_read_def Let_def split: if_splits\<close>)

lemma failing_fault: "device_fault (failing_read k e) (\<lambda>_. True) e' \<longleftrightarrow> e' = e \<and> io_kind e \<noteq> Interrupted"
proof -
  have "failing_read k e \<lparr>cursor_data = [], cursor_pos = k\<rparr> 1 = (Err e, \<lparr>cursor_data = [], cursor_pos = k\<rparr>)"
    by (simp add: failing_read_def)
  moreover have "e' = e" if "failing_read k e r n = (Err e', r')" for r n r'
    using that by (auto simp: failing_read_def cursor_read_def Let_def split: if_splits)
  ultimately show ?thesis unfolding device_fault_def by (metis zero_less_one)
qed

interpretation cursor_file: seekable_source cursor_read cursor_rest "\<lambda>_. 0" "\<lambda>_. True"
    cursor_seek_start cursor_data cursor_pos
  by unfold_locales
    (auto simp: cursor_seek_start_def cursor_rest_def cursor_read_def Let_def)

text \<open>A \<^verbatim>\<open>Vec<u8>\<close> as a writer appends and accepts everything.\<close>

definition vec_write :: "bytes write_op" where
  "vec_write w bs = (Ok (length bs), w @ bs)"

definition vec_flush :: "bytes flush_op" where
  "vec_flush w = (Ok (), w)"

interpretation vec_sink: byte_sink vec_write "\<lambda>w. w" "\<lambda>_. 0" "\<lambda>_. True"
  by unfold_locales (auto simp: vec_write_def)

interpretation vec_sink: reliable_sink vec_write "\<lambda>w. w" "\<lambda>_. 0" "\<lambda>_. True"
  by unfold_locales (auto simp: vec_write_def)

lemma write_all_vec [simp]: "write_all vec_write bs w = Some (Ok (), w @ bs)"
  using vec_sink.write_all_Ok [of bs w] by auto

text \<open>A cursor positioned at the end of its data appends, too: the journal being extended.\<close>

interpretation cursor_sink: byte_sink cursor_write cursor_data "\<lambda>_. 0"
    "\<lambda>c. cursor_pos c = length (cursor_data c)"
  by unfold_locales (auto simp: cursor_write_def Let_def)

interpretation cursor_sink: reliable_sink cursor_write cursor_data "\<lambda>_. 0"
    "\<lambda>c. cursor_pos c = length (cursor_data c)"
  by unfold_locales (auto simp: cursor_write_def Let_def)

section \<open>Properties\<close>

text \<open>On every reader \<^verbatim>\<open>read_exact\<close> returns, and either fills the slice with the next
  bytes of the content, or consumes a content that is too short and reports the end of the file, or
  passes on a fault of the device; interruptions are never visible.\<close>

lemma read_exact_outcomes:
  assumes "byte_source rd content patience healthy" and "healthy r"
  shows "\<exists>out bs r'. read_exact rd n r = Some (out, bs, r') \<and> healthy r' \<and>
    (n \<le> length (content r) \<and> out = Ok () \<and> bs = take n (content r) \<and> content r' = drop n (content r) \<or>
     length (content r) < n \<and> out = Err eof_error \<and> bs = content r \<and> content r' = [] \<or>
     (\<exists>e. device_fault rd healthy e \<and> out = Err e \<and> length bs < n))"
  using assms(2) by (rule byte_source.read_exact_cases [OF assms(1), where n = n]) auto

lemma read_exact_outcomes_witness:
  "\<exists>r'. read_exact cursor_read 2 (cursor_new [5, 6, 7]) = Some (Ok (), [5, 6], r') \<and> cursor_rest r' = [7]"
  using read_exact_outcomes [OF cursor_source.byte_source_axioms, of 2 "cursor_new [5, 6, 7]"]
  by (auto simp: device_fault_def cursor_read_def Let_def cursor_rest_def cursor_new_def)

end
