(* ===== verification/FS_Checksum.thy ===== *)
theory FS_Checksum
  imports FS_Error
begin

text \<open>
  \<^verbatim>\<open>src/checksum.rs\<close>: the trait \<^verbatim>\<open>Checksum\<close> as a record of its constant and its methods,
  the provided methods, the mask of a field width, and the built-in implementations. The hash
  functions come from other crates (\<^verbatim>\<open>xxhash_rust\<close>, \<^verbatim>\<open>crc32fast\<close>, \<^verbatim>\<open>crc16\<close>) and are
  parameters. The locale \<open>lawful_checksum\<close> is what framing relies on.
\<close>

section \<open>The trait\<close>

record checksum =
  cs_SIZE :: nat
  cs_calculate :: "bytes \<Rightarrow> u64"
  cs_verify :: "u64 \<Rightarrow> bytes \<Rightarrow> (error, unit) outcome"
  cs_write_bytes :: "u64 \<Rightarrow> bytes \<times> bytes"
  cs_read_bytes :: "bytes \<Rightarrow> u64 option"

definition width_mask :: "nat \<Rightarrow> u64" where
  "width_mask sz = (if 8 \<le> sz then - 1 else push_bit (8 * sz) 1 - 1)"

text \<open>
  The provided methods. \<open>write_bytes_default\<close> returns the whole 8-byte scratch array after
  the copy and the slice of it that is the wire form; \<open>read_bytes_default\<close> is \<open>None\<close>
  where the slice is too short and the source panics.
\<close>

definition verify_default :: "nat \<Rightarrow> (bytes \<Rightarrow> u64) \<Rightarrow> u64 \<Rightarrow> bytes \<Rightarrow> (error, unit) outcome" where
  "verify_default sz calculate expected payload =
     (let calculated = calculate payload;
          mask = width_mask sz
      in if calculated AND mask = expected AND mask then Ok ()
         else Err (checksum_mismatch (expected AND mask) (calculated AND mask)))"

definition write_bytes_default :: "nat \<Rightarrow> u64 \<Rightarrow> bytes \<times> bytes" where
  "write_bytes_default sz value =
     (let out = le_bytes 8 value in (out, take sz out))"

definition read_bytes_default :: "nat \<Rightarrow> bytes \<Rightarrow> u64 option" where
  "read_bytes_default sz bytes =
     (if length bytes < sz \<or> 8 < sz then None
      else Some (from_le (take sz bytes @ replicate (8 - sz) 0)))"

definition checksum_default :: "nat \<Rightarrow> (bytes \<Rightarrow> u64) \<Rightarrow> checksum" where
  "checksum_default sz calculate =
     \<lparr>cs_SIZE = sz, cs_calculate = calculate,
      cs_verify = verify_default sz calculate,
      cs_write_bytes = write_bytes_default sz,
      cs_read_bytes = read_bytes_default sz\<rparr>"

section \<open>The built-in implementations\<close>

definition XxHash64 :: "(bytes \<Rightarrow> u64) \<Rightarrow> checksum" where
  "XxHash64 xxh3_64 = checksum_default 8 xxh3_64"

definition Crc32 :: "(bytes \<Rightarrow> u32) \<Rightarrow> checksum" where
  "Crc32 crc32fast_hash = checksum_default 4 (\<lambda>payload. ucast (crc32fast_hash payload))"

definition Crc16 :: "(bytes \<Rightarrow> 16 word) \<Rightarrow> checksum" where
  "Crc16 crc16_xmodem = checksum_default 2 (\<lambda>payload. ucast (crc16_xmodem payload))"

definition NoChecksum :: checksum where
  "NoChecksum = (checksum_default 0 (\<lambda>_. 0))\<lparr>cs_verify := (\<lambda>_ _. Ok ())\<rparr>"

section \<open>The mask and the field\<close>

lemma width_mask_eq_mask: "width_mask sz = mask (8 * sz)"
proof (cases "8 \<le> sz")
  case True
  then have "(mask (8 * sz) :: u64) = - 1"
    by (intro bit_word_eqI) (simp add: bit_simps)
  with True show ?thesis by (simp add: width_mask_def)
next
  case False
  then show ?thesis by (simp add: width_mask_def mask_eq_exp_minus_1 push_bit_eq_mult)
qed

lemma and_width_mask: "v AND width_mask sz = take_bit (8 * sz) v"
  by (simp add: width_mask_eq_mask take_bit_eq_mask)

lemma read_bytes_default_field:
  assumes "sz \<le> 8"
  shows "read_bytes_default sz (take sz (le_bytes 8 v) @ rest) = Some (v AND width_mask sz)"
  using assms
  by (simp add: read_bytes_default_def take_le_bytes from_le_bytes and_width_mask)

section \<open>The contract framing relies on\<close>

text \<open>
  Wire fields have the declared width; reading back what was written gives the value modulo
  that width; a payload verifies against its own checksum; verification never unwinds, and it
  fails with nothing but a checksum mismatch.
\<close>

locale lawful_checksum =
  fixes alg :: checksum
  assumes size_le_8: "cs_SIZE alg \<le> 8"
    and scratch_length: "\<And>v. length (fst (cs_write_bytes alg v)) = 8"
    and wire_form: "\<And>v. snd (cs_write_bytes alg v) = take (cs_SIZE alg) (fst (cs_write_bytes alg v))"
    and read_back: "\<And>v rest. cs_read_bytes alg (snd (cs_write_bytes alg v) @ rest)
        = Some (v AND width_mask (cs_SIZE alg))"
    and read_total: "\<And>bs. cs_SIZE alg \<le> length bs \<Longrightarrow>
        \<exists>v. cs_read_bytes alg bs = Some v \<and> cs_read_bytes alg (take (cs_SIZE alg) bs) = Some v"
    and verify_own: "\<And>p. cs_verify alg (cs_calculate alg p AND width_mask (cs_SIZE alg)) p = Ok ()"
    and verify_result: "\<And>v p. cs_verify alg v p = Ok () \<or>
        (\<exists>a b. cs_verify alg v p = Err (checksum_mismatch a b))"
begin

definition wire_field :: "bytes \<Rightarrow> bytes" where
  "wire_field p = snd (cs_write_bytes alg (cs_calculate alg p))"

lemma length_wire_field: "length (wire_field p) = cs_SIZE alg"
  using size_le_8 by (simp add: wire_field_def wire_form scratch_length)

lemma verify_written:
  "\<exists>v. cs_read_bytes alg (wire_field p @ rest) = Some v \<and> cs_verify alg v p = Ok ()"
  by (simp add: wire_field_def read_back verify_own)

lemma verify_not_Panic: "cs_verify alg v p \<noteq> Panic"
  using verify_result [of v p] by auto

end

lemma verify_default_own: "verify_default sz calc (calc p AND width_mask sz) p = Ok ()"
  by (simp add: verify_default_def and.assoc)

lemma verify_default_result:
  "verify_default sz calc v p = Ok () \<or> (\<exists>a b. verify_default sz calc v p = Err (checksum_mismatch a b))"
  by (auto simp: verify_default_def Let_def)

lemma checksum_default_lawful:
  assumes "sz \<le> 8"
  shows "lawful_checksum (checksum_default sz calc)"
proof
  show "\<exists>v. cs_read_bytes (checksum_default sz calc) bs = Some v
      \<and> cs_read_bytes (checksum_default sz calc) (take (cs_SIZE (checksum_default sz calc)) bs) = Some v"
    if "cs_SIZE (checksum_default sz calc) \<le> length bs" for bs
    using that assms by (simp add: checksum_default_def read_bytes_default_def)
qed (use assms verify_default_result in \<open>auto simp: checksum_default_def write_bytes_default_def
    Let_def read_bytes_default_field verify_default_own\<close>)

interpretation xxhash64: lawful_checksum "XxHash64 xxh3_64" for xxh3_64
  unfolding XxHash64_def by (rule checksum_default_lawful) simp

interpretation crc32: lawful_checksum "Crc32 crc32fast_hash" for crc32fast_hash
  unfolding Crc32_def by (rule checksum_default_lawful) simp

interpretation crc16: lawful_checksum "Crc16 crc16_xmodem" for crc16_xmodem
  unfolding Crc16_def by (rule checksum_default_lawful) simp

lemma NoChecksum_lawful: "lawful_checksum NoChecksum"
proof -
  note d = lawful_checksum.scratch_length lawful_checksum.wire_form
    lawful_checksum.read_back lawful_checksum.read_total
  from d [OF checksum_default_lawful [of 0 "\<lambda>_. 0"]] show ?thesis
    by unfold_locales (auto simp: NoChecksum_def checksum_default_def)
qed

interpretation no_checksum: lawful_checksum NoChecksum
  by (rule NoChecksum_lawful)

section \<open>Properties\<close>

text \<open>The provided conversions round-trip for every field width: what is written has the
  declared width, and reading it back, whatever bytes follow, gives the value modulo that width.\<close>

lemma checksum_field_round_trip:
  assumes "sz \<le> 8"
  shows "length (snd (write_bytes_default sz v)) = sz \<and>
    read_bytes_default sz (snd (write_bytes_default sz v) @ rest) = Some (v AND width_mask sz)"
  using assms by (simp_all add: write_bytes_default_def Let_def read_bytes_default_field)

lemma checksum_field_round_trip_witness:
  "read_bytes_default 2 (snd (write_bytes_default 2 0x12345678) @ [9]) = Some (0x12345678 AND width_mask 2)"
  using checksum_field_round_trip [of 2 "0x12345678" "[9]"] by simp

text \<open>The provided verification compares exactly the bytes on the wire: it accepts if and only if
  the stored and the computed value agree in the low bits of the field, and otherwise reports both
  of them masked to it.\<close>

lemma verify_compares_field:
  "verify_default sz calc expected p =
     (if take_bit (8 * sz) expected = take_bit (8 * sz) (calc p) then Ok ()
      else Err (checksum_mismatch (take_bit (8 * sz) expected) (take_bit (8 * sz) (calc p))))"
  by (auto simp: verify_default_def Let_def and_width_mask)

end
