(* ===== verification/FS_Validation.thy ===== *)
theory FS_Validation
  imports FS_Error
begin

text \<open>
  \<^verbatim>\<open>src/validation.rs\<close>: the trait \<^verbatim>\<open>Validator\<close> as a record of its two methods and the
  built-in validators. The FlatBuffers verifier is a parameter: the function that visits the
  table at an offset, or verifies a whole buffer for a schema, and reports the text of what
  is invalid.
\<close>

section \<open>The trait\<close>

record validator =
  v_validate :: "bytes \<Rightarrow> (error, unit) outcome"
  v_name :: string

definition NoValidator :: validator where
  "NoValidator = \<lparr>v_validate = (\<lambda>_. Ok ()), v_name = ''NoValidator''\<rparr>"

section \<open>Table roots\<close>

text \<open>The two limits the library sets; the other options keep the verifier's defaults.\<close>

record verifier_options =
  opt_max_depth :: nat
  opt_max_tables :: nat

type_synonym visit_table = "verifier_options \<Rightarrow> bytes \<Rightarrow> nat \<Rightarrow> string option"

record table_root_validator =
  trv_max_depth :: nat
  trv_max_tables :: nat

definition table_root_new :: table_root_validator where
  "table_root_new = \<lparr>trv_max_depth = 64, trv_max_tables = 1000000\<rparr>"

definition table_root_with_limits :: "nat \<Rightarrow> nat \<Rightarrow> table_root_validator" where
  "table_root_with_limits depth tables = \<lparr>trv_max_depth = depth, trv_max_tables = tables\<rparr>"

definition table_root_validate ::
  "visit_table \<Rightarrow> table_root_validator \<Rightarrow> bytes \<Rightarrow> (error, unit) outcome" where
  "table_root_validate visit t payload =
     (if length payload < 4
      then Err (validation_failed ''TableRootValidator'' ''buffer too small for FlatBuffer'')
      else
        let opts = \<lparr>opt_max_depth = trv_max_depth t, opt_max_tables = trv_max_tables t\<rparr>;
            root_rel = unat (from_le [payload ! 0, payload ! 1, payload ! 2, payload ! 3] :: u32)
        in case visit opts payload root_rel of
             None \<Rightarrow> Ok ()
           | Some e \<Rightarrow> Err (validation_failed ''TableRootValidator'' e))"

definition TableRootValidator :: "visit_table \<Rightarrow> table_root_validator \<Rightarrow> validator" where
  "TableRootValidator visit t =
     \<lparr>v_validate = table_root_validate visit t, v_name = ''TableRootValidator''\<rparr>"

section \<open>Sizes\<close>

record size_validator =
  sv_min_size :: nat
  sv_max_size :: nat

definition size_validator_new :: "nat \<Rightarrow> nat \<Rightarrow> size_validator" where
  "size_validator_new lo hi = \<lparr>sv_min_size = lo, sv_max_size = hi\<rparr>"

definition size_validate :: "size_validator \<Rightarrow> bytes \<Rightarrow> (error, unit) outcome" where
  "size_validate sv payload =
     (let n = length payload
      in if n < sv_min_size sv
         then Err (validation_failed ''SizeValidator''
             (''payload size '' @ dec n @ '' is less than min '' @ dec (sv_min_size sv)))
         else if sv_max_size sv < n
         then Err (validation_failed ''SizeValidator''
             (''payload size '' @ dec n @ '' exceeds max '' @ dec (sv_max_size sv)))
         else Ok ())"

definition SizeValidator :: "size_validator \<Rightarrow> validator" where
  "SizeValidator sv = \<lparr>v_validate = size_validate sv, v_name = ''SizeValidator''\<rparr>"

section \<open>Composition\<close>

record composite_validator =
  cv_validators :: "validator list"

definition composite_new :: composite_validator where
  "composite_new = \<lparr>cv_validators = []\<rparr>"

definition composite_add :: "composite_validator \<Rightarrow> validator \<Rightarrow> composite_validator" where
  "composite_add c v = c\<lparr>cv_validators := cv_validators c @ [v]\<rparr>"

fun validate_each :: "validator list \<Rightarrow> bytes \<Rightarrow> (error, unit) outcome" where
  "validate_each [] payload = Ok ()"
| "validate_each (v # vs) payload =
     (case v_validate v payload of
        Ok _ \<Rightarrow> validate_each vs payload
      | Err e \<Rightarrow> Err e
      | Panic \<Rightarrow> Panic)"

definition composite_validate :: "composite_validator \<Rightarrow> bytes \<Rightarrow> (error, unit) outcome" where
  "composite_validate c payload = validate_each (cv_validators c) payload"

definition CompositeValidator :: "composite_validator \<Rightarrow> validator" where
  "CompositeValidator c =
     \<lparr>v_validate = composite_validate c, v_name = ''CompositeValidator''\<rparr>"

section \<open>Schema verifiers\<close>

type_synonym verify_fn = "verifier_options \<Rightarrow> bytes \<Rightarrow> string option"

record typed_validator =
  tv_opts :: verifier_options
  tv_verify :: verify_fn
  tv_name :: string

definition from_verify_named :: "verifier_options \<Rightarrow> string \<Rightarrow> verify_fn \<Rightarrow> typed_validator" where
  "from_verify_named default_options name verify =
     \<lparr>tv_opts = default_options, tv_verify = verify, tv_name = name\<rparr>"

definition from_verify :: "verifier_options \<Rightarrow> verify_fn \<Rightarrow> typed_validator" where
  "from_verify default_options verify = from_verify_named default_options ''TypedValidator'' verify"

definition with_limits_from_verify :: "nat \<Rightarrow> nat \<Rightarrow> verify_fn \<Rightarrow> typed_validator" where
  "with_limits_from_verify depth tables verify =
     \<lparr>tv_opts = \<lparr>opt_max_depth = depth, opt_max_tables = tables\<rparr>,
      tv_verify = verify, tv_name = ''TypedValidator''\<rparr>"

definition with_limits_from_verify_named ::
  "nat \<Rightarrow> nat \<Rightarrow> string \<Rightarrow> verify_fn \<Rightarrow> typed_validator" where
  "with_limits_from_verify_named depth tables name verify =
     \<lparr>tv_opts = \<lparr>opt_max_depth = depth, opt_max_tables = tables\<rparr>,
      tv_verify = verify, tv_name = name\<rparr>"

definition typed_validate :: "typed_validator \<Rightarrow> bytes \<Rightarrow> (error, unit) outcome" where
  "typed_validate t payload =
     (case tv_verify t (tv_opts t) payload of
        None \<Rightarrow> Ok ()
      | Some e \<Rightarrow> Err (validation_failed (tv_name t) e))"

definition TypedValidator :: "typed_validator \<Rightarrow> validator" where
  "TypedValidator t = \<lparr>v_validate = typed_validate t, v_name = tv_name t\<rparr>"

section \<open>The contract of a validator\<close>

text \<open>Validation succeeds or fails with \<^verbatim>\<open>ValidationFailed\<close>; it does not unwind.\<close>

locale lawful_validator =
  fixes v :: validator
  assumes validate_result: "\<And>p. v_validate v p = Ok () \<or>
      (\<exists>name reason. v_validate v p = Err (validation_failed name reason))"
begin

lemma validate_not_Panic: "v_validate v p \<noteq> Panic"
  using validate_result [of p] by auto

lemma validate_not_eof: "v_validate v p \<noteq> Err unexpected_eof"
  using validate_result [of p] by (auto simp: error_defs)

end

interpretation no_validator: lawful_validator NoValidator
  by unfold_locales (simp add: NoValidator_def)

interpretation table_root: lawful_validator "TableRootValidator visit t" for visit t
  by unfold_locales
    (auto simp: TableRootValidator_def table_root_validate_def Let_def split: option.splits)

interpretation size_bounds: lawful_validator "SizeValidator sv" for sv
  by unfold_locales (auto simp: SizeValidator_def size_validate_def Let_def)

interpretation schema: lawful_validator "TypedValidator t" for t
  by unfold_locales (auto simp: TypedValidator_def typed_validate_def split: option.splits)

lemma validate_each_lawful:
  "list_all lawful_validator vs \<Longrightarrow> validate_each vs p = Ok () \<or>
     (\<exists>name reason. validate_each vs p = Err (validation_failed name reason))"
proof (induction vs)
  case (Cons v vs)
  then have "v_validate v p = Ok () \<or> (\<exists>name reason. v_validate v p = Err (validation_failed name reason))"
    by (simp add: lawful_validator.validate_result)
  with Cons show ?case by (elim disjE exE) (simp_all, blast+)
qed simp

lemma CompositeValidator_lawful:
  "list_all lawful_validator (cv_validators c) \<Longrightarrow> lawful_validator (CompositeValidator c)"
  by unfold_locales
    (simp add: CompositeValidator_def composite_validate_def validate_each_lawful)

section \<open>What the validators check\<close>

lemma size_validate_iff:
  "size_validate sv p = Ok () \<longleftrightarrow> sv_min_size sv \<le> length p \<and> length p \<le> sv_max_size sv"
  by (auto simp: size_validate_def Let_def)

lemma validate_each_append:
  "validate_each (vs @ ws) p =
     (case validate_each vs p of Ok _ \<Rightarrow> validate_each ws p | Err e \<Rightarrow> Err e | Panic \<Rightarrow> Panic)"
  by (induction vs) (auto split: outcome.splits)

lemma validate_each_Ok_iff:
  "validate_each vs p = Ok () \<longleftrightarrow> (\<forall>v \<in> set vs. v_validate v p = Ok ())"
  by (induction vs) (auto split: outcome.splits)

text \<open>A failing pipeline reports the first validator that rejects, and runs none after it.\<close>

lemma validate_each_Err_iff:
  "validate_each vs p = Err e \<longleftrightarrow>
     (\<exists>us v ws. vs = us @ v # ws \<and> (\<forall>u \<in> set us. v_validate u p = Ok ()) \<and> v_validate v p = Err e)"
proof (induction vs)
  case Nil
  show ?case by simp
next
  case (Cons v vs)
  show ?case
  proof (cases "v_validate v p")
    case (Ok u)
    then have "v_validate v p = Ok ()" by simp
    then show ?thesis using Cons
      by (auto simp: Cons_eq_append_conv) (metis append_Cons set_ConsD)+
  next
    case (Err e')
    then show ?thesis by (fastforce simp: Cons_eq_append_conv)
  next
    case Panic
    then show ?thesis by (auto simp: Cons_eq_append_conv)
  qed
qed

section \<open>Properties\<close>

text \<open>A composite validator accepts if and only if every validator accepts, and otherwise
  reports the error of the first one, in the order of addition, that rejects; those before it all
  accepted.\<close>

lemma composite_reports_first_failure:
  "(composite_validate c p = Ok () \<longleftrightarrow> (\<forall>v \<in> set (cv_validators c). v_validate v p = Ok ())) \<and>
   (composite_validate c p = Err e \<longleftrightarrow>
     (\<exists>us v ws. cv_validators c = us @ v # ws \<and> (\<forall>u \<in> set us. v_validate u p = Ok ()) \<and> v_validate v p = Err e))"
  unfolding composite_validate_def by (intro conjI validate_each_Ok_iff validate_each_Err_iff)

lemma composite_reports_first_failure_witness:
  "composite_validate (composite_add (composite_add composite_new NoValidator)
      (SizeValidator (size_validator_new 2 4))) [1, 2, 3] = Ok ()"
  unfolding composite_reports_first_failure [THEN conjunct1]
  by (simp add: composite_add_def composite_new_def NoValidator_def SizeValidator_def size_validate_def
      size_validator_new_def)

text \<open>Adding a validator to a composite appends a check: the payload is validated by the earlier
  ones first, and by the new one only after they all accepted.\<close>

lemma composite_add_appends:
  "composite_validate (composite_add c v) p =
     (case composite_validate c p of Ok _ \<Rightarrow> v_validate v p | Err e \<Rightarrow> Err e | Panic \<Rightarrow> Panic)"
  by (auto simp: composite_validate_def composite_add_def validate_each_append split: outcome.splits)

text \<open>The size validator accepts exactly the lengths between its bounds, both inclusive, and
  names the violated bound otherwise, the lower one first.\<close>

lemma size_validator_bounds:
  "size_validate (size_validator_new lo hi) p =
     (if lo \<le> length p \<and> length p \<le> hi then Ok ()
      else Err (validation_failed ''SizeValidator''
        (''payload size '' @ dec (length p) @
         (if length p < lo then '' is less than min '' @ dec lo else '' exceeds max '' @ dec hi))))"
  by (auto simp: size_validate_def size_validator_new_def Let_def)

end
