(* ===== verification/FS_Wire.thy ===== *)
theory FS_Wire
  imports FS_Checksum FS_Validation
begin

text \<open>
  The wire format as the library documents it, independent of how it is read: what a frame
  is, what the next frame of a byte string is, and what a whole stream parses to. The framers
  and deframers are proved against these definitions, and recovery and the readers inherit
  what is proved here of \<open>scan\<close>.
\<close>

section \<open>Formats\<close>

text \<open>
  A format is the width of the checksum field, the accepted payload length, and the check of
  a complete frame (checksum and validation), which names the error of a frame it rejects.
\<close>

record frame_format =
  ff_width :: nat
  ff_max :: nat
  ff_check :: "bytes \<Rightarrow> bytes \<Rightarrow> error option"

definition frame_too_long :: "nat \<Rightarrow> nat \<Rightarrow> error" where
  "frame_too_long n limit =
     invalid_frame_with ''frame length exceeds configured limit'' (Some n) None (Some limit)"

datatype next_frame =
    EndOfStream
  | Frame bytes bytes
  | Bad error

definition declared_len :: "bytes \<Rightarrow> nat" where
  "declared_len bs = unat (from_le (take 4 bs) :: u32)"

definition next_frame :: "frame_format \<Rightarrow> bytes \<Rightarrow> next_frame" where
  "next_frame fmt bs =
     (let n = declared_len bs;
          body = drop (4 + ff_width fmt) bs
      in if bs = [] then EndOfStream
         else if length bs < 4 + ff_width fmt then Bad unexpected_eof
         else if ff_max fmt < n then Bad (frame_too_long n (ff_max fmt))
         else if length body < n then Bad unexpected_eof
         else case ff_check fmt (take (ff_width fmt) (drop 4 bs)) (take n body) of
                None \<Rightarrow> Frame (take n body) (drop n body)
              | Some e \<Rightarrow> Bad e)"

text \<open>
  The reader state machine of the wire-format document reads the length alone and bounds it
  before it reads the checksum field.
\<close>

definition next_frame_spec :: "frame_format \<Rightarrow> bytes \<Rightarrow> next_frame" where
  "next_frame_spec fmt bs =
     (let n = declared_len bs;
          body = drop (4 + ff_width fmt) bs
      in if bs = [] then EndOfStream
         else if length bs < 4 then Bad unexpected_eof
         else if ff_max fmt < n then Bad (frame_too_long n (ff_max fmt))
         else if length bs < 4 + ff_width fmt then Bad unexpected_eof
         else if length body < n then Bad unexpected_eof
         else case ff_check fmt (take (ff_width fmt) (drop 4 bs)) (take n body) of
                None \<Rightarrow> Frame (take n body) (drop n body)
              | Some e \<Rightarrow> Bad e)"

lemma next_frame_Nil [simp]: "next_frame fmt [] = EndOfStream"
  by (simp add: next_frame_def)

lemma next_frame_End_iff: "next_frame fmt bs = EndOfStream \<longleftrightarrow> bs = []"
  by (auto simp: next_frame_def Let_def split: if_splits option.splits)

lemma next_frame_FrameD:
  assumes "next_frame fmt bs = Frame p rest"
  shows "bs = take (4 + ff_width fmt) bs @ p @ rest" and "length p = declared_len bs"
    and "length bs = 4 + ff_width fmt + length p + length rest" and "length p \<le> ff_max fmt"
    and "ff_check fmt (take (ff_width fmt) (drop 4 bs)) p = None"
proof -
  have *: "\<not> length bs < 4 + ff_width fmt" "\<not> ff_max fmt < declared_len bs"
    "\<not> length (drop (4 + ff_width fmt) bs) < declared_len bs"
    "p = take (declared_len bs) (drop (4 + ff_width fmt) bs)"
    "rest = drop (declared_len bs) (drop (4 + ff_width fmt) bs)"
    and check: "ff_check fmt (take (ff_width fmt) (drop 4 bs)) p = None"
    using assms by (auto simp: next_frame_def Let_def split: if_splits option.splits)
  then have "p @ rest = drop (4 + ff_width fmt) bs" by (simp only: append_take_drop_id)
  then show "bs = take (4 + ff_width fmt) bs @ p @ rest" by simp
  from * show "length p = declared_len bs" and "length p \<le> ff_max fmt"
    and "length bs = 4 + ff_width fmt + length p + length rest" by auto
  from check show "ff_check fmt (take (ff_width fmt) (drop 4 bs)) p = None" .
qed

lemma next_frame_eq_spec:
  "next_frame fmt bs =
     (if 4 \<le> length bs \<and> length bs < 4 + ff_width fmt \<and> ff_max fmt < declared_len bs
      then Bad unexpected_eof else next_frame_spec fmt bs)"
  by (auto simp: next_frame_def next_frame_spec_def Let_def)

section \<open>Streams\<close>

datatype scan_end = Clean | Stopped error

function scan :: "frame_format \<Rightarrow> bytes \<Rightarrow> bytes list \<times> scan_end" where
  "scan fmt bs =
     (case next_frame fmt bs of
        EndOfStream \<Rightarrow> ([], Clean)
      | Bad e \<Rightarrow> ([], Stopped e)
      | Frame p rest \<Rightarrow> (let (ps, e) = scan fmt rest in (p # ps, e)))"
  by pat_completeness auto
termination
  by (relation "measure (\<lambda>(fmt, bs). length bs)") (auto dest: next_frame_FrameD(3))

declare scan.simps [simp del]

lemma scan_End: "next_frame fmt bs = EndOfStream \<Longrightarrow> scan fmt bs = ([], Clean)"
  and scan_Bad: "next_frame fmt bs = Bad e \<Longrightarrow> scan fmt bs = ([], Stopped e)"
  and scan_Frame: "next_frame fmt bs = Frame p rest \<Longrightarrow>
    scan fmt bs = (p # fst (scan fmt rest), snd (scan fmt rest))"
  by (simp_all add: scan.simps [of fmt bs] split_beta)

lemma scan_Nil [simp]: "scan fmt [] = ([], Clean)"
  by (simp add: scan_End)

definition frame_size :: "frame_format \<Rightarrow> bytes \<Rightarrow> nat" where
  "frame_size fmt p = 4 + ff_width fmt + length p"

definition stream_size :: "frame_format \<Rightarrow> bytes list \<Rightarrow> nat" where
  "stream_size fmt ps = sum_list (map (frame_size fmt) ps)"

lemma stream_size_simps [simp]:
  "stream_size fmt [] = 0" "stream_size fmt (p # ps) = frame_size fmt p + stream_size fmt ps"
  "stream_size fmt (ps @ qs) = stream_size fmt ps + stream_size fmt qs"
  by (simp_all add: stream_size_def)

text \<open>The frames a scan reports account for a prefix of the stream, and the rest explains the stop.\<close>

lemma scan_prefix:
  "stream_size fmt (fst (scan fmt bs)) \<le> length bs \<and>
   (snd (scan fmt bs) = Clean \<longrightarrow> stream_size fmt (fst (scan fmt bs)) = length bs) \<and>
   (\<forall>e. snd (scan fmt bs) = Stopped e \<longrightarrow>
      next_frame fmt (drop (stream_size fmt (fst (scan fmt bs))) bs) = Bad e)"
proof (induction fmt bs rule: scan.induct)
  case (1 fmt bs)
  show ?case
  proof (cases "next_frame fmt bs")
    case EndOfStream
    then show ?thesis by (simp add: scan_End next_frame_End_iff)
  next
    case (Frame p rest)
    note parts = next_frame_FrameD [OF Frame]
    from parts(3) have "drop (frame_size fmt p) (take (4 + ff_width fmt) bs @ p @ rest) = rest"
      by (simp add: frame_size_def)
    then have "drop (frame_size fmt p) bs = rest" by (simp only: parts(1) [symmetric])
    then have shift: "drop (frame_size fmt p + k) bs = drop k rest" for k
      by (metis add.commute drop_drop)
    from parts(3) have "length bs = frame_size fmt p + length rest" by (simp add: frame_size_def)
    with "1" Frame show ?thesis by (auto simp: scan_Frame shift)
  next
    case (Bad e)
    then show ?thesis by (simp add: scan_Bad)
  qed
qed

text \<open>
  The intact prefix alone scans cleanly to the same frames, however the scan ended:
  truncating there leaves a sound stream.
\<close>

lemma next_frame_append:
  "next_frame fmt bs = Frame p rest \<Longrightarrow> next_frame fmt (bs @ extra) = Frame p (rest @ extra)"
  by (auto simp: next_frame_def declared_len_def Let_def split: if_splits option.splits)

lemma next_frame_take:
  assumes "next_frame fmt bs = Frame p rest"
  shows "next_frame fmt (take (frame_size fmt p + k) bs) = Frame p (take k rest)"
proof -
  define head where "head = take (4 + ff_width fmt) bs"
  note parts = next_frame_FrameD [OF assms]
  have len: "length head = 4 + ff_width fmt" and bs: "bs = head @ p @ rest"
    using parts(1,3) by (simp_all add: head_def)
  have decl: "declared_len (head @ x) = length p" for x
    using parts(2) len by (simp add: bs declared_len_def)
  have check: "ff_check fmt (take (ff_width fmt) (drop 4 head)) p = None"
    using parts(5) len by (simp add: bs)
  have "take (frame_size fmt p + k) bs = head @ p @ take k rest"
    by (simp add: bs frame_size_def len)
  then show ?thesis using parts(4) len check decl [of "p @ take k rest"]
    by (auto simp: next_frame_def Let_def)
qed

lemma scan_truncate:
  "scan fmt (take (stream_size fmt (fst (scan fmt bs))) bs) = (fst (scan fmt bs), Clean)"
proof (induction fmt bs rule: scan.induct)
  case (1 fmt bs)
  show ?case
  proof (cases "next_frame fmt bs")
    case (Frame p rest)
    with "1" show ?thesis by (simp add: scan_Frame next_frame_take)
  qed (simp_all add: scan_End scan_Bad)
qed

lemma scan_append_clean:
  "snd (scan fmt xs) = Clean \<Longrightarrow>
     scan fmt (xs @ ys) = (fst (scan fmt xs) @ fst (scan fmt ys), snd (scan fmt ys))"
proof (induction fmt xs rule: scan.induct)
  case (1 fmt xs)
  show ?case
  proof (cases "next_frame fmt xs")
    case EndOfStream
    then show ?thesis by (simp add: next_frame_End_iff)
  next
    case (Frame p rest)
    with "1" next_frame_append [OF Frame, of ys] show ?thesis by (simp add: scan_Frame)
  next
    case (Bad e)
    with "1.prems" show ?thesis by (simp add: scan_Bad)
  qed
qed

section \<open>Encodings\<close>

definition encode_frame :: "(bytes \<Rightarrow> bytes) \<Rightarrow> bytes \<Rightarrow> bytes" where
  "encode_frame field p = le_bytes 4 (u32_of_usize (length p)) @ field p @ p"

definition encode_stream :: "(bytes \<Rightarrow> bytes) \<Rightarrow> bytes list \<Rightarrow> bytes" where
  "encode_stream field ps = concat (map (encode_frame field) ps)"

lemma encode_stream_simps [simp]:
  "encode_stream field [] = []"
  "encode_stream field (p # ps) = encode_frame field p @ encode_stream field ps"
  "encode_stream field (ps @ qs) = encode_stream field ps @ encode_stream field qs"
  by (simp_all add: encode_stream_def)

lemma encode_stream_append: "encode_stream field (ps @ [p]) = encode_stream field ps @ encode_frame field p"
  by (simp add: encode_stream_def)

lemma encode_frame_nonempty [simp]: "encode_frame field p \<noteq> []"
  by (simp add: encode_frame_def numeral_eq_Suc)

definition fits :: "frame_format \<Rightarrow> bytes \<Rightarrow> bool" where
  "fits fmt p \<longleftrightarrow> length p \<le> u32_max \<and> length p \<le> ff_max fmt"

text \<open>
  The writer's field and the reader's format agree: the field has the format's width, and a
  frame carrying its own field is accepted.
\<close>

locale wire_codec =
  fixes fmt :: frame_format
    and field :: "bytes \<Rightarrow> bytes"
    and acceptable :: "bytes \<Rightarrow> bool"
  assumes field_width: "\<And>p. length (field p) = ff_width fmt"
    and field_accepted: "\<And>p. acceptable p \<Longrightarrow> ff_check fmt (field p) p = None"
begin

lemma length_encode_frame: "length (encode_frame field p) = frame_size fmt p"
  by (simp add: encode_frame_def frame_size_def field_width)

lemma length_encode_stream: "length (encode_stream field ps) = stream_size fmt ps"
  by (induction ps) (simp_all add: length_encode_frame)

lemma declared_len_encode:
  "length p \<le> u32_max \<Longrightarrow> declared_len (encode_frame field p @ rest) = length p"
  using unat_header_roundtrip [of "length p"] by (simp add: declared_len_def encode_frame_def)

lemma next_frame_encode:
  assumes "fits fmt p" and "acceptable p"
  shows "next_frame fmt (encode_frame field p @ rest) = Frame p rest"
proof -
  have "declared_len (encode_frame field p @ rest) = length p"
    using assms by (simp add: declared_len_encode fits_def)
  then show ?thesis using assms field_accepted [of p]
    by (simp add: next_frame_def Let_def fits_def)
      (simp add: encode_frame_def field_width)
qed

lemma scan_encode:
  "list_all (\<lambda>p. fits fmt p \<and> acceptable p) ps \<Longrightarrow>
   scan fmt (encode_stream field ps @ rest) = (ps @ fst (scan fmt rest), snd (scan fmt rest))"
  by (induction ps) (simp_all add: scan_Frame next_frame_encode)

text \<open>A frame cut anywhere inside is torn, whatever its contents.\<close>

lemma next_frame_torn:
  assumes "fits fmt p" and "0 < k" and "k < length (encode_frame field p)"
  shows "next_frame fmt (take k (encode_frame field p)) = Bad unexpected_eof"
proof (cases "k < 4 + ff_width fmt")
  case True
  with assms show ?thesis by (auto simp: next_frame_def Let_def)
next
  case False
  then have "take 4 (take k (encode_frame field p)) = take 4 (encode_frame field p @ [])"
    by (simp add: min_def)
  then have "declared_len (take k (encode_frame field p)) = length p"
    using assms declared_len_encode [of p "[]"] by (simp add: declared_len_def fits_def)
  moreover have "k - (4 + ff_width fmt) < length p"
    using assms False by (simp add: length_encode_frame frame_size_def)
  ultimately show ?thesis using assms False
    by (auto simp: next_frame_def Let_def fits_def length_encode_frame)
qed

end

text \<open>The plain format and the checksummed one.\<close>

definition plain_format :: "nat \<Rightarrow> frame_format" where
  "plain_format limit = \<lparr>ff_width = 0, ff_max = limit, ff_check = (\<lambda>_ _. None)\<rparr>"

definition error_of :: "(error, unit) outcome \<Rightarrow> error option" where
  "error_of out = (case out of Err e \<Rightarrow> Some e | _ \<Rightarrow> None)"

definition checksum_format :: "checksum \<Rightarrow> nat \<Rightarrow> frame_format" where
  "checksum_format alg limit =
     \<lparr>ff_width = cs_SIZE alg, ff_max = limit,
      ff_check = (\<lambda>f p. case cs_read_bytes alg f of
          None \<Rightarrow> None
        | Some expected \<Rightarrow> error_of (cs_verify alg expected p))\<rparr>"

definition checksum_field :: "checksum \<Rightarrow> bytes \<Rightarrow> bytes" where
  "checksum_field alg p = take (cs_SIZE alg) (fst (cs_write_bytes alg (cs_calculate alg p)))"

definition validated_format :: "validator \<Rightarrow> frame_format \<Rightarrow> frame_format" where
  "validated_format v fmt =
     fmt\<lparr>ff_check := (\<lambda>f p. case ff_check fmt f p of
        None \<Rightarrow> error_of (v_validate v p) | Some e \<Rightarrow> Some e)\<rparr>"

lemma checksum_format_fields:
  "ff_width (checksum_format alg limit) = cs_SIZE alg" "ff_max (checksum_format alg limit) = limit"
  by (simp_all add: checksum_format_def)

interpretation plain: wire_codec "plain_format limit" "\<lambda>_. []" "\<lambda>_. True" for limit
  by unfold_locales (simp_all add: plain_format_def)

lemma checksum_wire_codec:
  assumes "lawful_checksum alg"
  shows "wire_codec (checksum_format alg limit) (checksum_field alg) (\<lambda>_. True)"
proof
  fix p
  show "length (checksum_field alg p) = ff_width (checksum_format alg limit)"
    using lawful_checksum.scratch_length [OF assms] lawful_checksum.size_le_8 [OF assms]
    by (simp add: checksum_field_def checksum_format_def)
  show "ff_check (checksum_format alg limit) (checksum_field alg p) p = None"
    using lawful_checksum.read_back [OF assms, of "cs_calculate alg p" "[]"]
      lawful_checksum.wire_form [OF assms] lawful_checksum.verify_own [OF assms, of p]
    by (simp add: checksum_field_def checksum_format_def error_of_def)
qed

sublocale lawful_checksum \<subseteq> codec: wire_codec "checksum_format alg limit" "checksum_field alg" "\<lambda>_. True" for limit
  by (rule checksum_wire_codec) (rule lawful_checksum_axioms)

lemma validated_wire_codec:
  assumes "wire_codec fmt field ok"
  shows "wire_codec (validated_format v fmt) field (\<lambda>p. ok p \<and> v_validate v p = Ok ())"
  using wire_codec.field_width [OF assms] wire_codec.field_accepted [OF assms]
  by unfold_locales (simp_all add: validated_format_def error_of_def)

text \<open>
  \<open>speaks field fmt ok\<close>: a reader of format \<open>fmt\<close> understands a writer whose checksum field
  is \<open>field\<close>, for the payloads \<open>ok\<close> that its validators accept.
\<close>

inductive speaks :: "(bytes \<Rightarrow> bytes) \<Rightarrow> frame_format \<Rightarrow> (bytes \<Rightarrow> bool) \<Rightarrow> bool" where
  speaks_plain: "speaks (\<lambda>_. []) (plain_format limit) (\<lambda>_. True)"
| speaks_checksum: "lawful_checksum alg \<Longrightarrow>
    speaks (checksum_field alg) (checksum_format alg limit) (\<lambda>_. True)"
| speaks_validated: "speaks field fmt ok \<Longrightarrow>
    speaks field (validated_format v fmt) (\<lambda>p. ok p \<and> v_validate v p = Ok ())"

inductive_cases speaks_validatedE: "speaks field (validated_format v fmt) ok"

lemma speaks_wire_codec: "speaks field fmt ok \<Longrightarrow> wire_codec fmt field ok"
proof (induction rule: speaks.induct)
  case (speaks_plain limit)
  show ?case by (rule plain.wire_codec_axioms)
next
  case (speaks_checksum alg limit)
  then show ?case by (rule checksum_wire_codec)
next
  case (speaks_validated field fmt ok v)
  then show ?case by (intro validated_wire_codec)
qed

section \<open>Cut streams\<close>

text \<open>Every cut of an encoded stream falls at a frame boundary or inside one frame.\<close>

context wire_codec
begin

lemma cut_stream:
  assumes "n \<le> length (encode_stream field ps)"
  obtains qs rs where "ps = qs @ rs" and "take n (encode_stream field ps) = encode_stream field qs"
      and "n = stream_size fmt qs"
    | qs p rs k where "ps = qs @ p # rs" and "0 < k" and "k < length (encode_frame field p)"
      and "take n (encode_stream field ps) = encode_stream field qs @ take k (encode_frame field p)"
      and "n = stream_size fmt qs + k"
  using assms
proof (induction ps arbitrary: n thesis)
  case Nil
  show ?case by (rule Nil(1) [of "[]" "[]"]) (use Nil(3) in simp_all)
next
  case (Cons p ps)
  let ?l = "length (encode_frame field p)"
  have l: "?l = frame_size fmt p" by (rule length_encode_frame)
  consider "n = 0" | "0 < n" "n < ?l" | "?l \<le> n" by linarith
  then show ?case
  proof cases
    case 1
    then show ?thesis by (intro Cons.prems(1) [of "[]" "p # ps"]) simp_all
  next
    case 2
    then show ?thesis by (intro Cons.prems(2) [of "[]" p ps n]) simp_all
  next
    case 3
    then have cut: "take n (encode_stream field (p # ps)) = encode_frame field p @ take (n - ?l) (encode_stream field ps)"
      by simp
    from 3 Cons.prems(3) have "n - ?l \<le> length (encode_stream field ps)" by simp
    then show ?thesis
    proof (rule Cons.IH [rotated 2])
      fix qs rs
      assume ps: "ps = qs @ rs" and tk: "take (n - ?l) (encode_stream field ps) = encode_stream field qs"
        and n: "n - ?l = stream_size fmt qs"
      have "take n (encode_stream field (p # ps)) = encode_stream field (p # qs)"
        unfolding cut tk by simp
      moreover from n 3 have "n = stream_size fmt (p # qs)" by (simp add: l)
      ultimately show ?thesis using ps by (intro Cons.prems(1) [of "p # qs" rs]) simp_all
    next
      fix qs q rs k
      assume ps: "ps = qs @ q # rs" "0 < k" "k < length (encode_frame field q)"
        and tk: "take (n - ?l) (encode_stream field ps) = encode_stream field qs @ take k (encode_frame field q)"
        and n: "n - ?l = stream_size fmt qs + k"
      have "take n (encode_stream field (p # ps)) = encode_stream field (p # qs) @ take k (encode_frame field q)"
        unfolding cut tk by simp
      moreover from n 3 have "n = stream_size fmt (p # qs) + k" by (simp add: l)
      ultimately show ?thesis using ps by (intro Cons.prems(2) [of "p # qs" q rs k]) simp_all
    qed
  qed
qed

lemma scan_cut:
  assumes "list_all (\<lambda>p. fits fmt p \<and> acceptable p) ps" and "n \<le> length (encode_stream field ps)"
  shows "\<exists>qs rs. ps = qs @ rs \<and> stream_size fmt qs \<le> n \<and>
    (rs \<noteq> [] \<longrightarrow> n < stream_size fmt qs + frame_size fmt (hd rs)) \<and>
    scan fmt (take n (encode_stream field ps)) =
      (qs, if n = stream_size fmt qs then Clean else Stopped unexpected_eof)"
  using assms(2)
proof (cases rule: cut_stream)
  case (1 qs rs)
  with assms(1) scan_encode [of qs "[]"] show ?thesis
    by (intro exI [of _ qs] exI [of _ rs]) (cases rs; auto simp: frame_size_def)
next
  case (2 qs p rs k)
  from assms(1) 2(1) have "fits fmt p" by simp
  with 2 have "next_frame fmt (take k (encode_frame field p)) = Bad unexpected_eof"
    by (intro next_frame_torn)
  with assms(1) 2 scan_encode [of qs "take k (encode_frame field p)"] show ?thesis
    by (intro exI [of _ qs] exI [of _ "p # rs"]) (auto simp: scan_Bad length_encode_frame)
qed

text \<open>A journal of whole frames followed by one whole frame, or by a proper prefix of one.\<close>

lemma scan_acknowledged:
  assumes "list_all (\<lambda>q. fits fmt q \<and> acceptable q) (qs @ [p])"
  shows "scan fmt (encode_stream field qs @ encode_frame field p) = (qs @ [p], Clean)"
    and "k < length (encode_frame field p) \<Longrightarrow>
      scan fmt (encode_stream field qs @ take k (encode_frame field p)) =
        (qs, if k = 0 then Clean else Stopped unexpected_eof)"
    and "scan fmt (encode_stream field qs) = (qs, Clean)"
proof -
  show "scan fmt (encode_stream field qs) = (qs, Clean)"
    using scan_encode [of qs "[]"] assms by simp
  show "scan fmt (encode_stream field qs @ encode_frame field p) = (qs @ [p], Clean)"
    using scan_encode [OF assms, of "[]"] by (simp add: encode_stream_append)
  assume k: "k < length (encode_frame field p)"
  have "scan fmt (take k (encode_frame field p)) = ([], if k = 0 then Clean else Stopped unexpected_eof)"
    using next_frame_torn [of p k] assms k by (auto simp: scan_Bad)
  with scan_encode [of qs "take k (encode_frame field p)"] assms
  show "scan fmt (encode_stream field qs @ take k (encode_frame field p)) =
      (qs, if k = 0 then Clean else Stopped unexpected_eof)" by simp
qed

end

section \<open>Properties\<close>

text \<open>What a writer encodes, a reader that speaks its format parses back: a stream of acceptable
  payloads that fit, followed by anything, scans to those payloads in order and then to whatever
  follows.\<close>

lemma encoded_stream_scans_back:
  assumes "speaks field fmt ok" and "list_all (\<lambda>p. fits fmt p \<and> ok p) ps"
  shows "scan fmt (encode_stream field ps @ rest) = (ps @ fst (scan fmt rest), snd (scan fmt rest))"
  using wire_codec.scan_encode [OF speaks_wire_codec [OF assms(1)] assms(2)] by simp

lemma encoded_stream_scans_back_witness:
  "scan (checksum_format (Crc32 (\<lambda>_. 5)) 16) (encode_stream (checksum_field (Crc32 (\<lambda>_. 5))) [[1], [], [2, 3]] @ [0])
     = ([[1], [], [2, 3]], Stopped unexpected_eof)"
proof -
  have "next_frame (checksum_format (Crc32 (\<lambda>_. 5)) 16) [0] = Bad unexpected_eof"
    by (simp add: next_frame_def checksum_format_def Crc32_def checksum_default_def)
  moreover have "list_all (\<lambda>p. fits (checksum_format (Crc32 (\<lambda>_. 5)) 16) p \<and> True) [[1], [], [2, 3]]"
    by (simp add: fits_def checksum_format_def u32_max_def)
  ultimately show ?thesis
    using encoded_stream_scans_back [OF speaks_checksum [OF crc32.lawful_checksum_axioms [of "\<lambda>_. 5"]],
        of 16 "[[1], [], [2, 3]]" "[0]"]
    by (simp add: scan_Bad)
qed

text \<open>C31: With the provided checksum conversions, a complete frame is accepted if and only if its
  checksum field is byte for byte the one a writer puts there for that payload; otherwise it is
  rejected with the mismatch of the two values.\<close>

theorem checksum_field_decides_frame:
  assumes "sz \<le> 8" and "length f = sz" and "length p \<le> u32_max" and "length p \<le> limit"
  shows "next_frame (checksum_format (checksum_default sz calc) limit)
      (le_bytes 4 (u32_of_usize (length p)) @ f @ p @ rest) =
    (if f = checksum_field (checksum_default sz calc) p then Frame p rest
     else Bad (checksum_mismatch (from_le f) (take_bit (8 * sz) (calc p))))"
proof -
  let ?alg = "checksum_default sz calc" and ?bs = "le_bytes 4 (u32_of_usize (length p)) @ f @ p @ rest"
  have "declared_len ?bs = length p"
    using assms(3) unat_header_roundtrip [of "length p"] by (simp add: declared_len_def)
  moreover have "ff_width (checksum_format ?alg limit) = sz" "ff_max (checksum_format ?alg limit) = limit"
    by (simp_all add: checksum_format_def checksum_default_def)
  ultimately have frame: "next_frame (checksum_format ?alg limit) ?bs =
      (case ff_check (checksum_format ?alg limit) f p of None \<Rightarrow> Frame p rest | Some e \<Rightarrow> Bad e)"
    using assms(2,4) by (simp add: next_frame_def Let_def flip: length_0_conv split: option.split)
  have field: "checksum_field ?alg p = le_bytes sz (calc p)"
    using assms(1) by (simp add: checksum_field_def checksum_default_def write_bytes_default_def take_le_bytes)
  have "8 * sz \<le> LENGTH(64)" using assms(1) by simp
  from from_le_eq_iff [OF assms(2) this, of "calc p"]
  have eq: "(from_le f :: u64) = take_bit (8 * sz) (calc p) \<longleftrightarrow> f = checksum_field ?alg p"
    by (simp only: field)
  have read: "read_bytes_default sz f = Some (from_le f)"
    using assms(1,2) by (simp add: read_bytes_default_def)
  have "take_bit (8 * sz) (from_le f :: u64) = from_le f"
    using take_bit_from_le [of f, where ?'a = 64] assms(2) by simp
  then have "verify_default sz calc (from_le f) p =
      (if f = checksum_field ?alg p then Ok () else Err (checksum_mismatch (from_le f) (take_bit (8 * sz) (calc p))))"
    by (auto simp: verify_default_def and_width_mask Let_def simp flip: eq)
  with read have "ff_check (checksum_format ?alg limit) f p =
      (if f = checksum_field ?alg p then None else Some (checksum_mismatch (from_le f) (take_bit (8 * sz) (calc p))))"
    by (simp add: checksum_format_def checksum_default_def error_of_def)
  with frame show ?thesis by simp
qed

theorem checksum_field_decides_frame_witness:
  "next_frame (checksum_format (checksum_default 2 (\<lambda>_. 0x10203)) 16)
      (le_bytes 4 (u32_of_usize 1) @ [3, 1] @ [9] @ []) = Bad (checksum_mismatch (from_le [3, 1]) (take_bit 16 0x10203))"
proof -
  have "[3, 1] \<noteq> checksum_field (checksum_default 2 (\<lambda>_. 0x10203)) [9]" by code_simp
  then show ?thesis
    using checksum_field_decides_frame [of 2 "[3, 1]" "[9]" 16 "\<lambda>_. 0x10203" "[]"]
    by (simp add: u32_max_def)
qed

text \<open>The deframers' order of checks against the documented one, which bounds the declared
  length before it reads the checksum field: the two verdicts are the same on every byte string,
  except that a header torn inside the checksum field and declaring more than the limit is an
  unexpected end here and an invalid frame there.\<close>

lemma frame_order_vs_documented:
  "next_frame fmt bs =
     (if 4 \<le> length bs \<and> length bs < 4 + ff_width fmt \<and> ff_max fmt < declared_len bs
      then Bad unexpected_eof else next_frame_spec fmt bs)"
  "4 \<le> length bs \<and> length bs < 4 + ff_width fmt \<and> ff_max fmt < declared_len bs \<Longrightarrow>
     next_frame_spec fmt bs = Bad (frame_too_long (declared_len bs) (ff_max fmt))"
  by (rule next_frame_eq_spec) (auto simp: next_frame_spec_def Let_def)

lemma frame_order_vs_documented_witness:
  "next_frame (checksum_format (Crc32 (\<lambda>_. 5)) 16) [17, 0, 0, 0, 1] = Bad unexpected_eof
   \<and> next_frame_spec (checksum_format (Crc32 (\<lambda>_. 5)) 16) [17, 0, 0, 0, 1] = Bad (frame_too_long 17 16)"
proof -
  have "declared_len [17, 0, 0, 0, 1] = 17" by code_simp
  then show ?thesis
    using frame_order_vs_documented
      [where fmt = "checksum_format (Crc32 (\<lambda>_. 5)) 16" and bs = "[17, 0, 0, 0, 1]"]
    by (simp add: checksum_format_def Crc32_def checksum_default_def)
qed

end
