(* ===== verification/FS_Deframing.thy ===== *)
theory FS_Deframing
  imports FS_Std_IO FS_Wire
begin

text \<open>
  The read half of \<^verbatim>\<open>src/framing.rs\<close>: the header and payload reads, the trait
  \<^verbatim>\<open>Deframer\<close> as a record of its two methods, the plain and the checksumming deframer and
  the validating and observing adapters. A deframer runs on the reader behind \<^verbatim>\<open>&mut R\<close>, the
  caller's buffer, and the state of the world that observers' callbacks act on. The locale
  \<open>frame_reader\<close> is the contract of the trait: a deframer takes exactly the next frame of
  its format.
\<close>

section \<open>Limits\<close>

text \<open>The FlatBuffers maximum, \<^verbatim>\<open>flatbuffers::FLATBUFFERS_MAX_BUFFER_SIZE\<close>, is a parameter.\<close>

definition DEFAULT_MAX_FRAME_LEN :: "nat \<Rightarrow> nat" where
  "DEFAULT_MAX_FRAME_LEN flatbuffers_max_buffer_size = flatbuffers_max_buffer_size"

definition MAX_WIRE_FRAME_LEN :: nat where
  "MAX_WIRE_FRAME_LEN = u32_max"

section \<open>Reads\<close>

record ('r, 'o) rx =
  rx_source :: 'r
  rx_buffer :: vec
  rx_world :: 'o

definition read_exact_rx :: "'r read_op \<Rightarrow> nat \<Rightarrow> (('r, 'o) rx, io_error, bytes) prog" where
  "read_exact_rx rd n = (\<lambda>s. case read_exact rd n (rx_source s) of
       None \<Rightarrow> None
     | Some (out, bs, r') \<Rightarrow>
         Some (case out of Ok _ \<Rightarrow> Ok bs | Err e \<Rightarrow> Err e | Panic \<Rightarrow> Panic, s\<lparr>rx_source := r'\<rparr>))"

text \<open>
  \<open>read_header rd k\<close> fills a header of \<open>k\<close> bytes: a one-byte probe that tells the end of
  the stream, then the rest.
\<close>

definition read_header :: "'r read_op \<Rightarrow> nat \<Rightarrow> (('r, 'o) rx, error, bytes option) prog" where
  "read_header rd k = (\<lambda>s. case read_exact_rx rd 1 s of
       None \<Rightarrow> None
     | Some (Ok first, s1) \<Rightarrow>
         (case read_exact_rx rd (k - 1) s1 of
            None \<Rightarrow> None
          | Some (Ok rest, s2) \<Rightarrow> Some (Ok (Some (first @ rest)), s2)
          | Some (Err e, s2) \<Rightarrow> Some (Err (in_frame_error e), s2)
          | Some (Panic, s2) \<Rightarrow> Some (Panic, s2))
     | Some (Err e, s1) \<Rightarrow>
         (if io_kind e = UnexpectedEofKind then Some (Ok None, s1)
          else Some (Err (error_of_io e), s1))
     | Some (Panic, s1) \<Rightarrow> Some (Panic, s1))"

definition check_frame_len :: "nat \<Rightarrow> nat \<Rightarrow> (error, unit) outcome" where
  "check_frame_len payload_len limit =
     (if limit < payload_len
      then Err (invalid_frame_with ''frame length exceeds configured limit''
             (Some payload_len) None (Some limit))
      else Ok ())"

definition read_payload :: "'r read_op \<Rightarrow> nat \<Rightarrow> (('r, 'o) rx, error, unit) prog" where
  "read_payload rd payload_len = (\<lambda>s.
     let buffer = (if length (vdata (rx_buffer s)) < payload_len
                   then vec_resize (rx_buffer s) payload_len else rx_buffer s)
     in case read_exact rd payload_len (rx_source s) of
          None \<Rightarrow> None
        | Some (out, bs, r') \<Rightarrow>
            Some (map_err in_frame_error out,
                  s\<lparr>rx_source := r', rx_buffer := vec_fill buffer bs\<rparr>))"

text \<open>The slice \<^verbatim>\<open>&buffer[..n]\<close>, whose bounds check can panic.\<close>

definition with_payload :: "nat \<Rightarrow> (bytes \<Rightarrow> (('r, 'o) rx, error, 'a) prog) \<Rightarrow> (('r, 'o) rx, error, 'a) prog" where
  "with_payload n f = (\<lambda>s. if length (vdata (rx_buffer s)) < n then Some (Panic, s)
                           else f (take n (vdata (rx_buffer s))) s)"

section \<open>The deframers\<close>

record ('r, 'o) deframer =
  read_and_deframe :: "(('r, 'o) rx, error, nat option) prog"
  read_after_length :: "nat \<Rightarrow> (('r, 'o) rx, error, nat option) prog"

text \<open>The provided \<^verbatim>\<open>read_and_deframe\<close>.\<close>

definition read_and_deframe_default ::
  "'r read_op \<Rightarrow> (nat \<Rightarrow> (('r, 'o) rx, error, nat option) prog) \<Rightarrow> (('r, 'o) rx, error, nat option) prog" where
  "read_and_deframe_default rd after_length =
     bindp (read_header rd 4) (\<lambda>h. case h of
         Some len_bytes \<Rightarrow> after_length (unat (from_le len_bytes :: u32))
       | None \<Rightarrow> ret None)"

record default_deframer =
  dd_max_frame_len :: nat

definition default_deframer_new :: "nat \<Rightarrow> default_deframer" where
  "default_deframer_new flatbuffers_max = \<lparr>dd_max_frame_len = DEFAULT_MAX_FRAME_LEN flatbuffers_max\<rparr>"

definition default_with_max_frame_len :: "default_deframer \<Rightarrow> nat \<Rightarrow> default_deframer" where
  "default_with_max_frame_len d limit = d\<lparr>dd_max_frame_len := limit\<rparr>"

definition default_read_after_length ::
  "'r read_op \<Rightarrow> default_deframer \<Rightarrow> nat \<Rightarrow> (('r, 'o) rx, error, nat option) prog" where
  "default_read_after_length rd d payload_len =
     bindp (lift_outcome (check_frame_len payload_len (dd_max_frame_len d))) (\<lambda>_.
     bindp (read_payload rd payload_len) (\<lambda>_.
     ret (Some payload_len)))"

definition DefaultDeframer :: "'r read_op \<Rightarrow> default_deframer \<Rightarrow> ('r, 'o) deframer" where
  "DefaultDeframer rd d =
     \<lparr>read_and_deframe = read_and_deframe_default rd (default_read_after_length rd d),
      read_after_length = default_read_after_length rd d\<rparr>"

record checksum_deframer =
  cd_checksum_alg :: checksum
  cd_max_frame_len :: nat

definition checksum_deframer_new :: "nat \<Rightarrow> checksum \<Rightarrow> checksum_deframer option" where
  "checksum_deframer_new flatbuffers_max alg =
     (if cs_SIZE alg \<le> 8
      then Some \<lparr>cd_checksum_alg = alg, cd_max_frame_len = DEFAULT_MAX_FRAME_LEN flatbuffers_max\<rparr>
      else None)"

definition checksum_with_max_frame_len :: "checksum_deframer \<Rightarrow> nat \<Rightarrow> checksum_deframer" where
  "checksum_with_max_frame_len d limit = d\<lparr>cd_max_frame_len := limit\<rparr>"

definition checksum_read_and_deframe ::
  "'r read_op \<Rightarrow> checksum_deframer \<Rightarrow> (('r, 'o) rx, error, nat option) prog" where
  "checksum_read_and_deframe rd d =
     (let alg = cd_checksum_alg d in
      bindp (read_header rd (4 + cs_SIZE alg)) (\<lambda>h. case h of
          None \<Rightarrow> ret None
        | Some header \<Rightarrow>
            (let payload_len = unat (from_le (take 4 header) :: u32) in
             bindp (lift_outcome (check_frame_len payload_len (cd_max_frame_len d))) (\<lambda>_.
             case cs_read_bytes alg (take (cs_SIZE alg) (drop 4 header)) of
               None \<Rightarrow> panic
             | Some expected \<Rightarrow>
                 bindp (read_payload rd payload_len) (\<lambda>_.
                 with_payload payload_len (\<lambda>payload.
                 bindp (lift_outcome (cs_verify alg expected payload)) (\<lambda>_.
                 ret (Some payload_len))))))))"

text \<open>A read inside a frame, where an early end is the library's \<^verbatim>\<open>UnexpectedEof\<close>.\<close>

definition read_in_frame :: "'r read_op \<Rightarrow> nat \<Rightarrow> (('r, 'o) rx, error, bytes) prog" where
  "read_in_frame rd n = (\<lambda>s. case read_exact_rx rd n s of
       None \<Rightarrow> None
     | Some (out, s') \<Rightarrow> Some (map_err in_frame_error out, s'))"

definition checksum_read_after_length ::
  "'r read_op \<Rightarrow> checksum_deframer \<Rightarrow> nat \<Rightarrow> (('r, 'o) rx, error, nat option) prog" where
  "checksum_read_after_length rd d payload_len =
     (let alg = cd_checksum_alg d in
      bindp (lift_outcome (check_frame_len payload_len (cd_max_frame_len d))) (\<lambda>_.
      bindp (read_in_frame rd (cs_SIZE alg)) (\<lambda>bs.
      let checksum_bytes = bs @ replicate (8 - cs_SIZE alg) 0 in
      case cs_read_bytes alg checksum_bytes of
        None \<Rightarrow> panic
      | Some expected \<Rightarrow>
          bindp (read_payload rd payload_len) (\<lambda>_.
          with_payload payload_len (\<lambda>payload.
          bindp (lift_outcome (cs_verify alg expected payload)) (\<lambda>_.
          ret (Some payload_len)))))))"

definition ChecksumDeframer :: "'r read_op \<Rightarrow> checksum_deframer \<Rightarrow> ('r, 'o) deframer" where
  "ChecksumDeframer rd d =
     \<lparr>read_and_deframe = checksum_read_and_deframe rd d,
      read_after_length = checksum_read_after_length rd d\<rparr>"

text \<open>The adapters run the inner method and then look at the payload it produced.\<close>

definition validate_deframed ::
  "validator \<Rightarrow> (('r, 'o) rx, error, nat option) prog \<Rightarrow> (('r, 'o) rx, error, nat option) prog" where
  "validate_deframed v inner =
     bindp inner (\<lambda>r. case r of
         Some n \<Rightarrow> with_payload n (\<lambda>payload.
             bindp (lift_outcome (v_validate v payload)) (\<lambda>_. ret (Some n)))
       | None \<Rightarrow> ret None)"

definition ValidatingDeframer :: "('r, 'o) deframer \<Rightarrow> validator \<Rightarrow> ('r, 'o) deframer" where
  "ValidatingDeframer inner v =
     \<lparr>read_and_deframe = validate_deframed v (read_and_deframe inner),
      read_after_length = (\<lambda>payload_len. validate_deframed v (read_after_length inner payload_len))\<rparr>"

definition observe_deframed ::
  "(bytes \<Rightarrow> 'o \<Rightarrow> 'o) \<Rightarrow> (('r, 'o) rx, error, nat option) prog \<Rightarrow> (('r, 'o) rx, error, nat option) prog" where
  "observe_deframed callback inner =
     bindp inner (\<lambda>r. case r of
         Some n \<Rightarrow> with_payload n (\<lambda>payload s.
             Some (Ok (Some n), s\<lparr>rx_world := callback payload (rx_world s)\<rparr>))
       | None \<Rightarrow> ret None)"

definition ObserverDeframer :: "('r, 'o) deframer \<Rightarrow> (bytes \<Rightarrow> 'o \<Rightarrow> 'o) \<Rightarrow> ('r, 'o) deframer" where
  "ObserverDeframer inner callback =
     \<lparr>read_and_deframe = observe_deframed callback (read_and_deframe inner),
      read_after_length = (\<lambda>payload_len. observe_deframed callback (read_after_length inner payload_len))\<rparr>"

definition deframer_observed :: "('r, 'o) deframer \<Rightarrow> (bytes \<Rightarrow> 'o \<Rightarrow> 'o) \<Rightarrow> ('r, 'o) deframer" where
  "deframer_observed self callback = ObserverDeframer self callback"

definition deframer_with_validator :: "('r, 'o) deframer \<Rightarrow> validator \<Rightarrow> ('r, 'o) deframer" where
  "deframer_with_validator self v = ValidatingDeframer self v"

text \<open>Every stack of the library's deframers over one reader, and the format it accepts.\<close>

inductive library_deframer :: "'r read_op \<Rightarrow> frame_format \<Rightarrow> ('r, 'o) deframer \<Rightarrow> bool" for rd where
  plain_deframer: "library_deframer rd (plain_format (dd_max_frame_len d)) (DefaultDeframer rd d)"
| checksummed_deframer: "lawful_checksum (cd_checksum_alg d) \<Longrightarrow>
    library_deframer rd (checksum_format (cd_checksum_alg d) (cd_max_frame_len d)) (ChecksumDeframer rd d)"
| validating_deframer: "library_deframer rd fmt f \<Longrightarrow> lawful_validator v \<Longrightarrow>
    library_deframer rd (validated_format v fmt) (ValidatingDeframer f v)"
| observer_deframer: "library_deframer rd fmt f \<Longrightarrow> library_deframer rd fmt (ObserverDeframer f cb)"

section \<open>The contract of a deframer\<close>

text \<open>
  \<open>deframed\<close>: what one call makes of the content \<open>bs\<close> of a reliable reader. It yields
  the payload of the next frame at the front of the buffer and leaves exactly the rest; it
  reports the end of the stream on the empty content; otherwise it reports the error of the
  format. The buffer never shrinks.
\<close>

definition deframed :: "('r \<Rightarrow> bytes) \<Rightarrow> ('r \<Rightarrow> bool) \<Rightarrow> frame_format \<Rightarrow>
    ('r, 'o) rx \<Rightarrow> (error, nat option) outcome \<Rightarrow> ('r, 'o) rx \<Rightarrow> bool" where
  "deframed content healthy fmt s out s' \<longleftrightarrow> healthy (rx_source s') \<and>
     length (vdata (rx_buffer s)) \<le> length (vdata (rx_buffer s')) \<and>
     (case next_frame fmt (content (rx_source s)) of
        EndOfStream \<Rightarrow> out = Ok None \<and> content (rx_source s') = []
      | Frame p rest \<Rightarrow> out = Ok (Some (length p)) \<and> take (length p) (vdata (rx_buffer s')) = p
          \<and> length p \<le> length (vdata (rx_buffer s')) \<and> content (rx_source s') = rest
      | Bad e \<Rightarrow> out = Err e)"

text \<open>
  The contract has two strengths. On any reader a call may also pass on a fault of the device, as
  the I/O error it was, with one exception: a fault whose kind is \<^verbatim>\<open>UnexpectedEof\<close> is taken for the
  end of the bytes, a clean one where it meets the first byte of a header. On a reliable reader
  there is no such case.
\<close>

definition faulted :: "'r read_op \<Rightarrow> ('r \<Rightarrow> bool) \<Rightarrow> (error, 'a option) outcome \<Rightarrow> bool" where
  "faulted rd healthy out \<longleftrightarrow> (\<exists>e. device_fault rd healthy e \<and>
     (out = Err (in_frame_error e) \<or> io_kind e = UnexpectedEofKind \<and> out = Ok None))"

lemma faulted_in_frame: "device_fault rd healthy e \<Longrightarrow> faulted rd healthy (Err (in_frame_error e))"
  unfolding faulted_def by blast

lemma faultedE:
  assumes "faulted rd healthy out"
  obtains (passed) e where "device_fault rd healthy e" "io_kind e \<noteq> UnexpectedEofKind" "out = Err (error_of_io e)"
    | (ended) e where "device_fault rd healthy e" "io_kind e = UnexpectedEofKind" "out = Ok None \<or> out = Err unexpected_eof"
  using assms by (auto simp: faulted_def) (metis in_frame_error_eof in_frame_error_other)

context reliable_source
begin

lemma not_faulted: "\<not> faulted rd healthy out"
  by (simp add: faulted_def no_device_fault)

end

locale fault_reader = byte_source rd content patience healthy
  for rd :: "'r read_op" and content and patience and healthy +
  fixes dfr :: "('r, 'o) deframer"
    and fmt :: frame_format
  assumes deframe_or_fault: "\<And>s. healthy (rx_source s) \<Longrightarrow>
      \<exists>out s'. read_and_deframe dfr s = Some (out, s') \<and> healthy (rx_source s') \<and>
        (faulted rd healthy out \<or> deframed content healthy fmt s out s')"

locale frame_reader = reliable_source rd content patience healthy
  for rd :: "'r read_op" and content and patience and healthy +
  fixes dfr :: "('r, 'o) deframer"
    and fmt :: frame_format
  assumes deframe_result: "\<And>s. healthy (rx_source s) \<Longrightarrow>
      \<exists>out s'. read_and_deframe dfr s = Some (out, s') \<and> deframed content healthy fmt s out s'"

sublocale frame_reader \<subseteq> fault_reader
proof unfold_locales
  fix s :: "('r, 'o) rx"
  assume "healthy (rx_source s)"
  then show "\<exists>out s'. read_and_deframe dfr s = Some (out, s') \<and> healthy (rx_source s') \<and>
      (faulted rd healthy out \<or> deframed content healthy fmt s out s')"
    using deframe_result [of s] by (auto simp: deframed_def)
qed

lemma fault_reader_reliable:
  fixes dfr :: "('r, 'o) deframer"
  assumes "fault_reader rd content patience healthy dfr fmt" and "reliable_source rd content patience healthy"
  shows "frame_reader rd content patience healthy dfr fmt"
proof (intro frame_reader.intro frame_reader_axioms.intro assms(2))
  fix s :: "('r, 'o) rx"
  assume "healthy (rx_source s)"
  from fault_reader.deframe_or_fault [OF assms(1) this] reliable_source.not_faulted [OF assms(2)]
  show "\<exists>out s'. read_and_deframe dfr s = Some (out, s') \<and> deframed content healthy fmt s out s'"
    by blast
qed

context byte_source
begin

text \<open>The header probe, case by case.\<close>

lemma read_header_cases:
  assumes "healthy (rx_source s)" and "0 < k"
  obtains (fault) e out r' where "device_fault rd healthy e" "healthy r'"
      "out = Err (in_frame_error e) \<or> io_kind e = UnexpectedEofKind \<and> out = Ok None" "read_header rd k s = Some (out, s\<lparr>rx_source := r'\<rparr>)"
    | (fine) r' where "healthy r'" "content r' = drop k (content (rx_source s))"
      "read_header rd k s =
        (if content (rx_source s) = [] then Some (Ok None, s\<lparr>rx_source := r'\<rparr>)
         else if length (content (rx_source s)) < k then Some (Err unexpected_eof, s\<lparr>rx_source := r'\<rparr>)
         else Some (Ok (Some (take k (content (rx_source s)))), s\<lparr>rx_source := r'\<rparr>))"
  using assms(1)
proof (cases rule: read_exact_cases [where n = 1])
  case (full r1)
  then obtain b bs where c: "content (rx_source s) = b # bs" "content r1 = bs"
    by (cases "content (rx_source s)") auto
  have take_k: "take k (b # bs) = b # take (k - 1) bs" "drop k (b # bs) = drop (k - 1) bs"
    using assms(2) by (cases k; simp)+
  from \<open>healthy r1\<close> show ?thesis
  proof (cases rule: read_exact_cases [where n = "k - 1"])
    case rest: (full r2)
    with full c take_k assms(2) show ?thesis
      by (intro fine [of r2]) (auto simp: read_header_def read_exact_rx_def)
  next
    case rest: (short r2)
    with full c take_k show ?thesis
      by (intro fine [of r2]) (auto simp: read_header_def read_exact_rx_def eof_error_def)
  next
    case rest: (fault e got r2)
    with full c show ?thesis
      by (intro that(1) [of e r2 "Err (in_frame_error e)"]) (auto simp: read_header_def read_exact_rx_def)
  qed
next
  case (short r1)
  then show ?thesis
    by (intro fine [of r1]) (auto simp: read_header_def read_exact_rx_def eof_error_def)
next
  case (fault e got r1)
  then show ?thesis
    by (intro that(1) [of e r1 "if io_kind e = UnexpectedEofKind then Ok None else Err (in_frame_error e)"])
      (auto simp: read_header_def read_exact_rx_def)
qed

lemma read_in_frame_cases:
  assumes "healthy (rx_source s)"
  obtains (fault) e r' where "device_fault rd healthy e" "healthy r'"
      "read_in_frame rd n s = Some (Err (in_frame_error e), s\<lparr>rx_source := r'\<rparr>)"
    | (fine) r' where "healthy r'" "content r' = drop n (content (rx_source s))"
      "read_in_frame rd n s =
        (if length (content (rx_source s)) < n then Some (Err unexpected_eof, s\<lparr>rx_source := r'\<rparr>)
         else Some (Ok (take n (content (rx_source s))), s\<lparr>rx_source := r'\<rparr>))"
  using assms
proof (cases rule: read_exact_cases [where n = n])
  case (full r1)
  then show ?thesis by (intro fine [of r1]) (auto simp: read_in_frame_def read_exact_rx_def)
next
  case (short r1)
  then show ?thesis by (intro fine [of r1]) (auto simp: read_in_frame_def read_exact_rx_def eof_error_def)
next
  case (fault e got r1)
  then show ?thesis
    by (intro that(1) [of e r1]) (auto simp: read_in_frame_def read_exact_rx_def)
qed

text \<open>The payload read: all of it at the front of a buffer grown at most to its length.\<close>

lemma read_payload_cases:
  assumes "healthy (rx_source s)"
  obtains (full) s' where "n \<le> length (content (rx_source s))" "read_payload rd n s = Some (Ok (), s')"
      "healthy (rx_source s')" "content (rx_source s') = drop n (content (rx_source s))"
      "length (vdata (rx_buffer s')) = max n (length (vdata (rx_buffer s)))"
      "take n (vdata (rx_buffer s')) = take n (content (rx_source s))"
    | (short) s' where "length (content (rx_source s)) < n" "read_payload rd n s = Some (Err unexpected_eof, s')"
      "healthy (rx_source s')" "length (vdata (rx_buffer s')) = max n (length (vdata (rx_buffer s)))"
    | (fault) e s' where "device_fault rd healthy e" "read_payload rd n s = Some (Err (in_frame_error e), s')"
      "healthy (rx_source s')"
  using assms
proof (cases rule: read_exact_cases [where n = n])
  case (full r1)
  then show ?thesis by (intro that(1)) (auto simp: read_payload_def Let_def)
next
  case (short r1)
  then show ?thesis by (intro that(2)) (auto simp: read_payload_def Let_def eof_error_def)
next
  case (fault e got r1)
  then show ?thesis
    by (intro that(3)) (auto simp: read_payload_def Let_def)
qed

lemma DefaultDeframer_or_fault:
  "fault_reader rd content patience healthy (DefaultDeframer rd d) (plain_format (dd_max_frame_len d))"
proof (unfold_locales)
  fix s :: "('r, 'o) rx"
  assume h: "healthy (rx_source s)"
  let ?c = "content (rx_source s)" and ?s = "\<lambda>r. s\<lparr>rx_source := r\<rparr>"
  let ?goal = "\<exists>out s'. read_and_deframe (DefaultDeframer rd d) s = Some (out, s') \<and> healthy (rx_source s') \<and>
    (faulted rd healthy out \<or>
     deframed content healthy (plain_format (dd_max_frame_len d)) s out s')"
  note defs = DefaultDeframer_def read_and_deframe_default_def default_read_after_length_def
    check_frame_len_def prog_simps
  note fmt = deframed_def next_frame_def plain_format_def declared_len_def frame_too_long_def Let_def
  from h zero_less_numeral show ?goal
  proof (cases rule: read_header_cases [where k = 4])
    case (fault e out r1)
    then show ?thesis by (auto simp: defs faulted_def)
  next
    case (fine r1)
    consider (eos) "?c = []" | (torn) "?c \<noteq> []" "length ?c < 4"
      | (long) "4 \<le> length ?c" "dd_max_frame_len d < declared_len ?c"
      | (body) "4 \<le> length ?c" "declared_len ?c \<le> dd_max_frame_len d" by fastforce
    then show ?thesis
    proof cases
      case eos
      with fine show ?thesis by (simp add: defs fmt)
    next
      case torn
      with fine show ?thesis by (simp add: defs fmt)
    next
      case long
      with fine show ?thesis by (auto simp: defs fmt)
    next
      case body
      from fine(1) have "healthy (rx_source (?s r1))" by simp
      then show ?thesis
        by (cases rule: read_payload_cases [where n = "declared_len ?c"])
          (use body fine in \<open>auto simp: defs fmt faulted_in_frame\<close>)
    qed
  qed
qed

text \<open>Reading the payload and verifying it, once the header is in.\<close>

lemma checked_payload_or_fault:
  assumes h: "healthy (rx_source s)" and law: "lawful_checksum alg"
  shows "\<exists>out s'. bindp (read_payload rd n) (\<lambda>_. with_payload n (\<lambda>payload.
      bindp (lift_outcome (cs_verify alg v payload)) (\<lambda>_. ret (Some n)))) s = Some (out, s') \<and>
    healthy (rx_source s') \<and>
    (faulted rd healthy out \<or>
     length (vdata (rx_buffer s)) \<le> length (vdata (rx_buffer s')) \<and>
     (if length (content (rx_source s)) < n then out = Err unexpected_eof
      else case error_of (cs_verify alg v (take n (content (rx_source s)))) of
         Some e \<Rightarrow> out = Err e
       | None \<Rightarrow> out = Ok (Some n) \<and> n \<le> length (vdata (rx_buffer s')) \<and>
           take n (vdata (rx_buffer s')) = take n (content (rx_source s)) \<and>
           content (rx_source s') = drop n (content (rx_source s))))"
  using h
proof (cases rule: read_payload_cases [where n = n])
  case (full s1)
  consider "cs_verify alg v (take n (content (rx_source s))) = Ok ()"
    | e where "cs_verify alg v (take n (content (rx_source s))) = Err e"
    using lawful_checksum.verify_result [OF law] by blast
  then show ?thesis using full
    by cases (auto simp: with_payload_def prog_simps error_of_def bindp_def)
qed (auto simp: prog_simps faulted_in_frame)

lemma ChecksumDeframer_or_fault:
  assumes "lawful_checksum (cd_checksum_alg d)"
  shows "fault_reader rd content patience healthy (ChecksumDeframer rd d)
    (checksum_format (cd_checksum_alg d) (cd_max_frame_len d))"
proof (unfold_locales)
  fix s :: "('r, 'o) rx"
  assume h: "healthy (rx_source s)"
  define alg where "alg = cd_checksum_alg d"
  define w where "w = cs_SIZE alg"
  let ?c = "content (rx_source s)" and ?s = "\<lambda>r. s\<lparr>rx_source := r\<rparr>"
  have law: "lawful_checksum alg" using assms by (simp add: alg_def)
  note defs = ChecksumDeframer_def checksum_read_and_deframe_def check_frame_len_def
    prog_simps Let_def
  note fmt = checksum_format_def next_frame_def deframed_def Let_def
  have "0 < 4 + w" by simp
  with h show "\<exists>out s'. read_and_deframe (ChecksumDeframer rd d) s = Some (out, s') \<and> healthy (rx_source s') \<and>
    (faulted rd healthy out \<or>
     deframed content healthy (checksum_format (cd_checksum_alg d) (cd_max_frame_len d)) s out s')"
  proof (cases rule: read_header_cases [where k = "4 + w"])
    case (fault e out r1)
    then show ?thesis by (auto simp: defs faulted_def simp flip: alg_def w_def)
  next
    case hdr: (fine r1)
    show ?thesis
    proof (cases "length ?c < 4 + w")
      case True
      with hdr show ?thesis
        by (auto simp: defs fmt simp flip: alg_def w_def)
    next
      case False
      then have header: "take 4 (take (4 + w) ?c) = take 4 ?c"
        "take w (drop 4 (take (4 + w) ?c)) = take w (drop 4 ?c)"
        by (simp_all add: min_def drop_take)
      from False have "w \<le> length (take w (drop 4 ?c))" by simp
      then obtain v where v: "cs_read_bytes alg (take w (drop 4 ?c)) = Some v"
        using lawful_checksum.read_total [OF law, of "take w (drop 4 ?c)"] w_def by blast
      show ?thesis
      proof (cases "cd_max_frame_len d < declared_len ?c")
        case True
        with False hdr header show ?thesis
          by (auto simp: defs fmt declared_len_def frame_too_long_def simp flip: alg_def w_def)
      next
        case in_bounds: False
        have "\<not> length ?c < 4 + w" "?c \<noteq> []" using False by auto
        with in_bounds hdr header v
        have "read_and_deframe (ChecksumDeframer rd d) s =
          bindp (read_payload rd (declared_len ?c)) (\<lambda>_. with_payload (declared_len ?c) (\<lambda>payload.
            bindp (lift_outcome (cs_verify alg v payload)) (\<lambda>_. ret (Some (declared_len ?c))))) (?s r1)"
          by (simp add: defs declared_len_def flip: alg_def w_def)
        then show ?thesis
          using checked_payload_or_fault [of "?s r1" alg "declared_len ?c" v] law hdr False in_bounds v
          by (auto simp: fmt split: option.splits simp flip: alg_def w_def)
      qed
    qed
  qed
qed

end

context reliable_source
begin

text \<open>
  The checksumming deframer entered through its length: the length is bounded before the
  checksum field is read, so the two entry points differ on a header that is torn in the
  checksum field and declares too much, and there alone.
\<close>

lemma checksum_by_length:
  assumes h: "healthy (rx_source s)" and law: "lawful_checksum (cd_checksum_alg d)"
  defines "fmt \<equiv> checksum_format (cd_checksum_alg d) (cd_max_frame_len d)"
    and "c \<equiv> content (rx_source s)"
  shows "\<exists>out s'. read_and_deframe_default rd (checksum_read_after_length rd d) s = Some (out, s') \<and>
    (if 4 \<le> length c \<and> length c < 4 + ff_width fmt \<and> ff_max fmt < declared_len c
     then out = Err (frame_too_long (declared_len c) (ff_max fmt))
     else deframed content healthy fmt s out s')"
proof -
  define alg where "alg = cd_checksum_alg d"
  define w where "w = cs_SIZE alg"
  have law: "lawful_checksum alg" using law by (simp add: alg_def)
  have fmt: "fmt = checksum_format alg (cd_max_frame_len d)" by (simp add: fmt_def alg_def)
  let ?s = "\<lambda>r. s\<lparr>rx_source := r\<rparr>"
  obtain r1 where r1: "healthy r1" "content r1 = drop 4 c"
    and hdr: "read_header rd 4 s =
      (if c = [] then Some (Ok None, ?s r1)
       else if length c < 4 then Some (Err unexpected_eof, ?s r1)
       else Some (Ok (Some (take 4 c)), ?s r1))"
    using h zero_less_numeral
    by (cases rule: read_header_cases [where k = 4]) (auto simp: c_def no_device_fault)
  then have "healthy (rx_source (?s r1))" by simp
  then obtain r2 where r2: "healthy r2" "content r2 = drop (4 + w) c"
    and field: "read_in_frame rd w (?s r1) =
      (if length (drop 4 c) < w then Some (Err unexpected_eof, ?s r1\<lparr>rx_source := r2\<rparr>)
       else Some (Ok (take w (drop 4 c)), ?s r1\<lparr>rx_source := r2\<rparr>))"
    by (cases rule: read_in_frame_cases [where n = w]) (use r1 no_device_fault in \<open>auto simp: add.commute\<close>)
  note defs = read_and_deframe_default_def checksum_read_after_length_def check_frame_len_def
    prog_simps Let_def
  note fmt_defs = fmt checksum_format_def next_frame_def deframed_def frame_too_long_def Let_def
  show ?thesis
  proof (cases "length c < 4 \<or> cd_max_frame_len d < declared_len c")
    case True
    with hdr r1 show ?thesis
      by (cases "c = []"; cases "4 \<le> length c"; cases "length c < 4 + w") (auto simp: defs fmt_defs declared_len_def simp flip: c_def alg_def w_def)
  next
    case small: False
    show ?thesis
    proof (cases "length c < 4 + w")
      case True
      with small have "length c - 4 < w" "c \<noteq> []" by auto
      with True small hdr field r2 show ?thesis
        by (auto simp: defs fmt_defs declared_len_def simp flip: c_def alg_def w_def)
    next
      case False
      then have "cs_SIZE alg \<le> length (take w (drop 4 c) @ replicate (8 - w) 0)"
        by (simp add: w_def)
      with lawful_checksum.read_total [OF law, of "take w (drop 4 c) @ replicate (8 - w) 0"] False
      obtain v where v: "cs_read_bytes alg (take w (drop 4 c) @ replicate (8 - w) 0) = Some v"
        "cs_read_bytes alg (take w (drop 4 c)) = Some v"
        by (auto simp: w_def)
      have "c \<noteq> []" "\<not> length c - 4 < w" using False by auto
      with False small hdr field v
      have "read_and_deframe_default rd (checksum_read_after_length rd d) s =
        bindp (read_payload rd (declared_len c)) (\<lambda>_. with_payload (declared_len c) (\<lambda>payload.
          bindp (lift_outcome (cs_verify alg v payload)) (\<lambda>_. ret (Some (declared_len c))))) (?s r1\<lparr>rx_source := r2\<rparr>)"
        by (simp add: defs declared_len_def flip: alg_def w_def)
      then show ?thesis
        using not_faulted checked_payload_or_fault [of "?s r1\<lparr>rx_source := r2\<rparr>" alg "declared_len c" v] law r2 False small v(2)
        by (auto simp: fmt_defs split: option.splits simp flip: c_def alg_def w_def)
    qed
  qed
qed

end

context fault_reader
begin

text \<open>The adapters look at the payload the inner deframer has put at the front of the buffer.\<close>

lemma next_frame_validated:
  "next_frame (validated_format v fmt) bs =
     (case next_frame fmt bs of
        Frame p rest \<Rightarrow> (case error_of (v_validate v p) of None \<Rightarrow> Frame p rest | Some e \<Rightarrow> Bad e)
      | other \<Rightarrow> other)"
  by (auto simp: next_frame_def validated_format_def Let_def split: option.splits)

lemma ValidatingDeframer_or_fault:
  assumes "lawful_validator v"
  shows "fault_reader rd content patience healthy (ValidatingDeframer dfr v) (validated_format v fmt)"
proof (unfold_locales)
  fix s :: "('r, 'o) rx"
  assume "healthy (rx_source s)"
  then obtain out s1 where run: "read_and_deframe dfr s = Some (out, s1)" "healthy (rx_source s1)"
    and res: "faulted rd healthy out \<or> deframed content healthy fmt s out s1"
    using deframe_or_fault by blast
  note defs = ValidatingDeframer_def validate_deframed_def with_payload_def prog_simps
  from res show "\<exists>out s'. read_and_deframe (ValidatingDeframer dfr v) s = Some (out, s') \<and> healthy (rx_source s') \<and>
    (faulted rd healthy out \<or> deframed content healthy (validated_format v fmt) s out s')"
  proof
    assume "faulted rd healthy out"
    with run show ?thesis by (auto simp: defs faulted_def)
  next
    assume d: "deframed content healthy fmt s out s1"
    show ?thesis
    proof (cases "next_frame fmt (content (rx_source s))")
      case (Frame p rest)
      with d have out: "out = Ok (Some (length p))" "take (length p) (vdata (rx_buffer s1)) = p"
        "length p \<le> length (vdata (rx_buffer s1))" by (auto simp: deframed_def)
      consider "v_validate v p = Ok ()" | e where "v_validate v p = Err e"
        using lawful_validator.validate_result [OF assms, of p] by blast
      then show ?thesis using run d out Frame
        by cases (auto simp: defs bindp_def deframed_def next_frame_validated error_of_def)
    qed (use run d in \<open>auto simp: defs deframed_def next_frame_validated\<close>)
  qed
qed

lemma ObserverDeframer_or_fault:
  "fault_reader rd content patience healthy (ObserverDeframer dfr cb) fmt"
proof (unfold_locales)
  fix s :: "('r, 'o) rx"
  assume "healthy (rx_source s)"
  then obtain out s1 where run: "read_and_deframe dfr s = Some (out, s1)" "healthy (rx_source s1)"
    and res: "faulted rd healthy out \<or> deframed content healthy fmt s out s1"
    using deframe_or_fault by blast
  note defs = ObserverDeframer_def observe_deframed_def with_payload_def prog_simps
  from res show "\<exists>out s'. read_and_deframe (ObserverDeframer dfr cb) s = Some (out, s') \<and> healthy (rx_source s') \<and>
    (faulted rd healthy out \<or> deframed content healthy fmt s out s')"
  proof
    assume "faulted rd healthy out"
    with run show ?thesis by (auto simp: defs faulted_def)
  next
    assume "deframed content healthy fmt s out s1"
    with run show ?thesis
      by (cases "next_frame fmt (content (rx_source s))") (auto simp: defs deframed_def)
  qed
qed

end

lemma library_deframer_or_fault:
  assumes "library_deframer rd fmt dfr" and "byte_source rd content patience healthy"
  shows "fault_reader rd content patience healthy dfr fmt"
  using assms
proof (induction rule: library_deframer.induct)
  case (plain_deframer d)
  then show ?case by (rule byte_source.DefaultDeframer_or_fault)
next
  case (checksummed_deframer d)
  then show ?case by (simp add: byte_source.ChecksumDeframer_or_fault)
next
  case (validating_deframer fmt f v)
  then show ?case by (simp add: fault_reader.ValidatingDeframer_or_fault)
next
  case (observer_deframer fmt f cb)
  then show ?case by (simp add: fault_reader.ObserverDeframer_or_fault)
qed

lemma library_deframer_contract:
  assumes "library_deframer rd fmt dfr" and "reliable_source rd content patience healthy"
  shows "frame_reader rd content patience healthy dfr fmt"
  using assms by (blast intro: fault_reader_reliable library_deframer_or_fault reliable_source.axioms(1))

section \<open>What a deframer may do to the buffer\<close>

text \<open>
  These hold on every reader, faulty ones included: the buffer is never sized by anything but
  an accepted length, and a length over the limit is rejected before the buffer is touched.
\<close>

definition buffer_step :: "nat \<Rightarrow> vec \<Rightarrow> vec \<Rightarrow> bool" where
  "buffer_step limit b b' \<longleftrightarrow>
     length (vdata b) \<le> length (vdata b') \<and> length (vdata b') \<le> max (length (vdata b)) limit \<and>
     vcap b \<le> vcap b' \<and> vcap b' \<le> max (vcap b) (max 8 (2 * limit)) \<and> (vec_ok b \<longrightarrow> vec_ok b')"

lemma buffer_step_refl [simp]: "buffer_step limit b b"
  by (simp add: buffer_step_def)

lemma buffer_step_trans: "buffer_step limit a b \<Longrightarrow> buffer_step limit b c \<Longrightarrow> buffer_step limit a c"
  by (auto simp: buffer_step_def)

lemma buffer_step_resize:
  "n \<le> limit \<Longrightarrow> length (vdata b) < n \<Longrightarrow> buffer_step limit b (vec_resize b n)"
  by (auto simp: buffer_step_def vec_resize_def vec_ok_def grow_amortized_def max_def)

lemma buffer_step_fill: "length bs \<le> length (vdata b) \<Longrightarrow> buffer_step limit b (vec_fill b bs)"
  by (simp add: buffer_step_def vec_ok_fill)

definition bounded_prog :: "nat \<Rightarrow> (('r, 'o) rx, error, 'a) prog \<Rightarrow> bool" where
  "bounded_prog limit m \<longleftrightarrow>
     (\<forall>s out s'. m s = Some (out, s') \<longrightarrow> buffer_step limit (rx_buffer s) (rx_buffer s'))"

named_theorems bounded_rules "programs that keep to the buffer bound"

lemma bounded_bindp [bounded_rules]:
  assumes "bounded_prog limit m" and "\<And>a. bounded_prog limit (f a)"
  shows "bounded_prog limit (bindp m f)"
proof -
  have "buffer_step limit (rx_buffer s) (rx_buffer s')" if "bindp m f s = Some (out, s')" for s out s'
  proof (cases "m s")
    case (Some r)
    then show ?thesis using that assms buffer_step_trans
      by (cases r, cases "fst r") (auto simp: bindp_def bounded_prog_def, blast)
  qed (use that in \<open>simp add: bindp_def\<close>)
  then show ?thesis by (simp add: bounded_prog_def)
qed

lemma bounded_pure [bounded_rules]:
  "bounded_prog limit (ret a)" "bounded_prog limit panic" "bounded_prog limit (lift_outcome out)"
  by (simp_all add: bounded_prog_def prog_simps)

lemma bounded_with_payload [bounded_rules]:
  "(\<And>p. bounded_prog limit (f p)) \<Longrightarrow> bounded_prog limit (with_payload n f)"
  by (auto simp: bounded_prog_def with_payload_def)

lemma read_exact_rx_buffer: "read_exact_rx rd n s = Some (out, s') \<Longrightarrow> rx_buffer s' = rx_buffer s"
  by (auto simp: read_exact_rx_def split: option.splits)

lemma read_header_buffer: "read_header rd k s = Some (out, s') \<Longrightarrow> rx_buffer s' = rx_buffer s"
  by (auto simp: read_header_def split: option.splits prod.splits outcome.splits if_splits
      dest!: read_exact_rx_buffer)

lemma bounded_read_header [bounded_rules]: "bounded_prog limit (read_header rd k)"
  by (auto simp: bounded_prog_def dest: read_header_buffer)

lemma bounded_read_in_frame [bounded_rules]: "bounded_prog limit (read_in_frame rd n)"
  by (auto simp: bounded_prog_def read_in_frame_def split: option.splits dest!: read_exact_rx_buffer)

lemma bounded_read_payload:
  fixes rd :: "'r read_op"
  assumes "n \<le> limit"
  shows "bounded_prog limit (read_payload rd n :: (('r, 'o) rx, error, unit) prog)"
proof -
  have "buffer_step limit (rx_buffer s) (rx_buffer s')" if "read_payload rd n s = Some (out, s')"
    for s s' :: "('r, 'o) rx" and out
  proof -
    let ?b = "if length (vdata (rx_buffer s)) < n then vec_resize (rx_buffer s) n else rx_buffer s"
    from that obtain o1 bs r' where "read_exact rd n (rx_source s) = Some (o1, bs, r')"
      and s': "rx_buffer s' = vec_fill ?b bs"
      by (auto simp: read_payload_def Let_def split: option.splits if_splits)
    then have "length bs \<le> n" by (simp add: read_exact_length(1))
    then have "length bs \<le> length (vdata ?b)" by auto
    then have "buffer_step limit ?b (vec_fill ?b bs)" by (rule buffer_step_fill)
    moreover have "buffer_step limit (rx_buffer s) ?b" using assms by (simp add: buffer_step_resize)
    ultimately show ?thesis unfolding s' by (rule buffer_step_trans [rotated])
  qed
  then show ?thesis by (simp add: bounded_prog_def)
qed

text \<open>The length check guards everything behind it.\<close>

lemma bounded_checked:
  assumes "n \<le> limit \<Longrightarrow> bounded_prog limit (f ())"
  shows "bounded_prog limit (bindp (lift_outcome (check_frame_len n limit)) f)"
  using assms
  by (cases "limit < n") (auto simp: bounded_prog_def check_frame_len_def prog_simps)

lemma bounded_option [bounded_rules]:
  assumes "x = None \<Longrightarrow> bounded_prog limit m" and "\<And>a. x = Some a \<Longrightarrow> bounded_prog limit (f a)"
  shows "bounded_prog limit (case x of None \<Rightarrow> m | Some a \<Rightarrow> f a)"
  using assms by (cases x) simp_all

lemma bounded_verified:
  assumes "n \<le> limit"
  shows "bounded_prog limit (bindp (read_payload rd n) (\<lambda>_. with_payload n (\<lambda>payload.
    bindp (lift_outcome (cs_verify alg v payload)) (\<lambda>_. ret (Some n)))))"
  using assms by (intro bounded_rules bounded_read_payload)

lemma bounded_checksum_read_and_deframe:
  "bounded_prog (cd_max_frame_len d) (checksum_read_and_deframe rd d)"
  unfolding checksum_read_and_deframe_def Let_def
  by (intro bounded_checked bounded_bindp bounded_read_header bounded_option bounded_pure bounded_verified)

lemma bounded_checksum_read_after_length:
  "bounded_prog (cd_max_frame_len d) (checksum_read_after_length rd d n)"
  unfolding checksum_read_after_length_def Let_def
  by (intro bounded_checked bounded_bindp bounded_read_in_frame bounded_option bounded_pure bounded_verified)

lemma library_deframer_bounded:
  fixes dfr :: "('r, 'o) deframer"
  assumes "library_deframer rd fmt dfr"
  shows "bounded_prog (ff_max fmt) (read_and_deframe dfr)"
    and "bounded_prog (ff_max fmt) (read_after_length dfr n)"
proof -
  have "bounded_prog (ff_max fmt) (read_and_deframe dfr) \<and>
      (\<forall>n. bounded_prog (ff_max fmt) (read_after_length dfr n))"
    using assms
  proof (induction rule: library_deframer.induct)
    case (plain_deframer d)
    have "bounded_prog (dd_max_frame_len d)
        (default_read_after_length rd d n :: (('r, 'o) rx, error, nat option) prog)" for n
      unfolding default_read_after_length_def
      by (intro bounded_checked bounded_bindp bounded_read_payload bounded_pure)
    then show ?case
      by (auto simp: DefaultDeframer_def plain_format_def read_and_deframe_default_def intro!: bounded_rules)
  next
    case (checksummed_deframer d)
    show ?case
      by (simp add: ChecksumDeframer_def checksum_format_def bounded_checksum_read_and_deframe
          bounded_checksum_read_after_length)
  next
    case (validating_deframer fmt f v)
    then show ?case
      by (auto simp: ValidatingDeframer_def validate_deframed_def validated_format_def intro!: bounded_rules)
  next
    case (observer_deframer fmt f cb)
    have "bounded_prog (ff_max fmt)
        (\<lambda>s :: ('r, 'o) rx. Some (Ok (Some k), s\<lparr>rx_world := cb p (rx_world s)\<rparr>))" for k p
      by (simp add: bounded_prog_def)
    with observer_deframer show ?case
      by (auto simp: ObserverDeframer_def observe_deframed_def intro!: bounded_rules)
  qed
  then show "bounded_prog (ff_max fmt) (read_and_deframe dfr)"
    and "bounded_prog (ff_max fmt) (read_after_length dfr n)" by blast+
qed

text \<open>A rejected length leaves the buffer exactly as it was.\<close>

definition is_invalid_frame :: "error \<Rightarrow> bool" where
  "is_invalid_frame e = (case kind e of InvalidFrame _ _ _ _ \<Rightarrow> True | _ \<Rightarrow> False)"

lemma is_invalid_frame_simps [simp]:
  "\<not> is_invalid_frame (error_of_io x)" "\<not> is_invalid_frame unexpected_eof"
  "\<not> is_invalid_frame (checksum_mismatch a b)" "\<not> is_invalid_frame (validation_failed n r)"
  "is_invalid_frame (invalid_frame_with msg len cap lim)"
  by (simp_all add: is_invalid_frame_def error_defs)

lemma in_frame_not_invalid [simp]: "\<not> is_invalid_frame (in_frame_error x)"
  by (cases "io_kind x = UnexpectedEofKind") simp_all

definition leaves_buffer :: "(('r, 'o) rx, error, 'a) prog \<Rightarrow> bool" where
  "leaves_buffer m \<longleftrightarrow> (\<forall>s out s'. m s = Some (out, s') \<longrightarrow> rx_buffer s' = rx_buffer s)"

definition never_rejects :: "(('r, 'o) rx, error, 'a) prog \<Rightarrow> bool" where
  "never_rejects m \<longleftrightarrow> (\<forall>s e s'. m s = Some (Err e, s') \<longrightarrow> \<not> is_invalid_frame e)"

definition rejects_early :: "(('r, 'o) rx, error, 'a) prog \<Rightarrow> bool" where
  "rejects_early m \<longleftrightarrow>
     (\<forall>s e s'. m s = Some (Err e, s') \<longrightarrow> is_invalid_frame e \<longrightarrow> rx_buffer s' = rx_buffer s)"

named_theorems guard_rules "programs that reject a frame only before they touch the buffer"

lemma bindp_ErrE:
  assumes "bindp m f s = Some (Err e, s')"
  obtains "m s = Some (Err e, s')" | a s1 where "m s = Some (Ok a, s1)" and "f a s1 = Some (Err e, s')"
  using assms by (auto simp: bindp_def split: option.splits prod.splits outcome.splits)

lemma never_rejects_rules [guard_rules]:
  "never_rejects (ret a)" "never_rejects panic"
  "(\<And>p. never_rejects (f p)) \<Longrightarrow> never_rejects (with_payload n f)"
  "never_rejects (read_payload rd n)"
  "lawful_checksum alg \<Longrightarrow> never_rejects (lift_outcome (cs_verify alg v p))"
  "lawful_validator w \<Longrightarrow> never_rejects (lift_outcome (v_validate w p))"
proof -
  show "never_rejects (read_payload rd n)"
    by (auto simp: never_rejects_def read_payload_def Let_def split: option.splits)
      (metis in_frame_not_invalid map_err.simps outcome.distinct(1) outcome.exhaust outcome.inject(2) outcome.simps(6))+
  show "never_rejects (lift_outcome (cs_verify alg v p))" if "lawful_checksum alg"
    using lawful_checksum.verify_result [OF that, of v p]
    by (auto simp: never_rejects_def prog_simps)
  show "never_rejects (lift_outcome (v_validate w p))" if "lawful_validator w"
    using lawful_validator.validate_result [OF that, of p]
    by (auto simp: never_rejects_def prog_simps)
qed (auto simp: never_rejects_def prog_simps with_payload_def)

lemma never_rejectsD: "never_rejects m \<Longrightarrow> m s = Some (Err e, s') \<Longrightarrow> \<not> is_invalid_frame e"
  unfolding never_rejects_def by blast

lemma never_rejects_bindp [guard_rules]:
  "never_rejects m \<Longrightarrow> (\<And>a. never_rejects (f a)) \<Longrightarrow> never_rejects (bindp m f)"
  by (auto simp: never_rejects_def [of "bindp m f"] elim!: bindp_ErrE dest: never_rejectsD)

lemma never_rejects_early: "never_rejects m \<Longrightarrow> rejects_early m"
  by (auto simp: never_rejects_def rejects_early_def)

lemma rejects_early_then:
  "rejects_early m \<Longrightarrow> (\<And>a. never_rejects (f a)) \<Longrightarrow> rejects_early (bindp m f)"
  by (unfold rejects_early_def) (blast elim!: bindp_ErrE dest: never_rejectsD)

lemma rejects_early_after:
  "leaves_buffer m \<Longrightarrow> (\<And>a. rejects_early (f a)) \<Longrightarrow> rejects_early (bindp m f)"
  by (fastforce simp: leaves_buffer_def rejects_early_def elim!: bindp_ErrE)

lemma leaves_buffer_rules [guard_rules]:
  "leaves_buffer (read_header rd k)" "leaves_buffer (read_in_frame rd n)" "leaves_buffer (lift_outcome out)"
  by (auto simp: leaves_buffer_def read_in_frame_def prog_simps split: option.splits
      dest!: read_header_buffer read_exact_rx_buffer)

lemma rejects_early_option [guard_rules]:
  assumes "rejects_early m" and "\<And>a. rejects_early (f a)"
  shows "rejects_early (case x of None \<Rightarrow> m | Some a \<Rightarrow> f a)"
  using assms by (cases x) simp_all

text \<open>The length check is the only source of a rejection.\<close>

lemma rejects_early_ret: "rejects_early (ret a)" "rejects_early panic"
  by (intro never_rejects_early guard_rules)+

lemma rejects_early_check: "rejects_early (lift_outcome (check_frame_len n limit))"
  by (simp add: rejects_early_def prog_simps)

lemma library_deframer_rejects_early:
  fixes dfr :: "('r, 'o) deframer"
  assumes "library_deframer rd fmt dfr"
  shows "rejects_early (read_and_deframe dfr)" and "rejects_early (read_after_length dfr n)"
proof -
  have "rejects_early (read_and_deframe dfr) \<and> (\<forall>n. rejects_early (read_after_length dfr n))"
    using assms
  proof (induction rule: library_deframer.induct)
    case (plain_deframer d)
    have after: "rejects_early (default_read_after_length rd d n :: (('r, 'o) rx, error, nat option) prog)" for n
      unfolding default_read_after_length_def
      by (intro rejects_early_then rejects_early_check guard_rules)
    then show ?case
      by (auto simp: DefaultDeframer_def read_and_deframe_default_def
          intro!: rejects_early_after guard_rules rejects_early_ret)
  next
    case (checksummed_deframer d)
    let ?rest = "\<lambda>v n. bindp (read_payload rd n) (\<lambda>_. with_payload n (\<lambda>payload.
      bindp (lift_outcome (cs_verify (cd_checksum_alg d) v payload)) (\<lambda>_. ret (Some n))))
      :: (('r, 'o) rx, error, nat option) prog"
    have rest: "rejects_early (?rest v n)" for v n
      using checksummed_deframer by (intro never_rejects_early guard_rules)
    note heads = leaves_buffer_rules [THEN rejects_early_after]
    have "rejects_early (checksum_read_and_deframe rd d :: (('r, 'o) rx, error, nat option) prog)"
      unfolding checksum_read_and_deframe_def Let_def
      by (intro heads rejects_early_option rejects_early_ret rest)
    moreover have "rejects_early (checksum_read_after_length rd d n :: (('r, 'o) rx, error, nat option) prog)" for n
      unfolding checksum_read_after_length_def Let_def
      by (intro heads rejects_early_option rejects_early_ret rest)
    ultimately show ?case by (simp add: ChecksumDeframer_def)
  next
    case (validating_deframer fmt f v)
    then show ?case
      by (auto simp: ValidatingDeframer_def validate_deframed_def intro!: rejects_early_then guard_rules
          split: option.splits)
  next
    case (observer_deframer fmt f cb)
    have "never_rejects
        (\<lambda>s :: ('r, 'o) rx. Some (Ok (Some k), s\<lparr>rx_world := cb p (rx_world s)\<rparr>))" for k p
      by (simp add: never_rejects_def)
    with observer_deframer show ?case
      by (auto simp: ObserverDeframer_def observe_deframed_def intro!: rejects_early_then guard_rules
          split: option.splits)
  qed
  then show "rejects_early (read_and_deframe dfr)" and "rejects_early (read_after_length dfr n)" by blast+
qed

text \<open>After a successful read the buffer's size depends on the payload's length and the size before it.\<close>

definition cap_for :: "nat \<Rightarrow> nat \<Rightarrow> nat" where
  "cap_for cap n = (if n \<le> cap then cap else grow_amortized cap n)"

definition sized :: "vec \<Rightarrow> nat \<Rightarrow> vec \<Rightarrow> bool" where
  "sized b n b' \<longleftrightarrow> vcap b' = cap_for (vcap b) n \<and> length (vdata b') = max n (length (vdata b))"

definition sized_prog :: "(('r, 'o) rx, error, nat option) prog \<Rightarrow> bool" where
  "sized_prog m \<longleftrightarrow> (\<forall>s n s'. vec_ok (rx_buffer s) \<longrightarrow> m s = Some (Ok (Some n), s') \<longrightarrow>
     sized (rx_buffer s) n (rx_buffer s'))"

lemma sized_progD:
  "sized_prog m \<Longrightarrow> vec_ok (rx_buffer s) \<Longrightarrow> m s = Some (Ok (Some n), s') \<Longrightarrow>
     sized (rx_buffer s) n (rx_buffer s')"
  by (simp add: sized_prog_def)

lemma read_payload_sized:
  "vec_ok (rx_buffer s) \<Longrightarrow> read_payload rd n s = Some (out, s') \<Longrightarrow>
     sized (rx_buffer s) n (rx_buffer s')"
  by (auto simp: read_payload_def Let_def sized_def cap_for_def vec_resize_def vec_ok_def
      split: option.splits if_splits dest!: read_exact_length(1))

lemma sized_after:
  assumes "leaves_buffer m" and "\<And>a. sized_prog (f a)"
  shows "sized_prog (bindp m f)"
  unfolding sized_prog_def
proof (intro allI impI)
  fix s n s'
  assume ok: "vec_ok (rx_buffer s)" and "bindp m f s = Some (Ok (Some n), s')"
  then obtain a s1 where "m s = Some (Ok a, s1)" and run: "f a s1 = Some (Ok (Some n), s')"
    by (auto elim: bindp_OkE)
  with assms(1) have "rx_buffer s1 = rx_buffer s" by (auto simp: leaves_buffer_def)
  with sized_progD [OF assms(2) _ run] ok show "sized (rx_buffer s) n (rx_buffer s')" by simp
qed

text \<open>A continuation that hands the length through keeps the size.\<close>

definition passes_length :: "nat \<Rightarrow> (('r, 'o) rx, error, nat option) prog \<Rightarrow> bool" where
  "passes_length n m \<longleftrightarrow> (\<forall>s r s'. m s = Some (Ok r, s') \<longrightarrow> r = Some n \<and> rx_buffer s' = rx_buffer s)"

lemma passes_length_rules:
  "passes_length n (ret (Some n))"
  "(\<And>p. passes_length n (f p)) \<Longrightarrow> passes_length n (with_payload k f)"
  "(\<And>a. passes_length n (g a)) \<Longrightarrow> passes_length n (bindp (lift_outcome out) g)"
  "passes_length n (\<lambda>s. Some (Ok (Some n), s\<lparr>rx_world := w s\<rparr>))"
  by (auto simp: passes_length_def prog_simps with_payload_def elim!: bindp_OkE split: if_splits)

lemma sized_payload:
  assumes "\<And>u. passes_length n (f u)"
  shows "sized_prog (bindp (read_payload rd n) f)"
  unfolding sized_prog_def
proof (intro allI impI)
  fix s k s'
  assume ok: "vec_ok (rx_buffer s)" and "bindp (read_payload rd n) f s = Some (Ok (Some k), s')"
  then obtain u s1 where "read_payload rd n s = Some (Ok u, s1)" and "f u s1 = Some (Ok (Some k), s')"
    by (auto elim: bindp_OkE)
  with assms have "rx_buffer s' = rx_buffer s1" "k = n" by (auto simp: passes_length_def)
  with read_payload_sized [OF ok \<open>read_payload rd n s = Some (Ok u, s1)\<close>]
  show "sized (rx_buffer s) k (rx_buffer s')" by simp
qed

lemma sized_adapter:
  assumes "sized_prog m" and "\<And>n. passes_length n (f n)"
  shows "sized_prog (bindp m (\<lambda>r. case r of Some n \<Rightarrow> f n | None \<Rightarrow> ret None))"
  unfolding sized_prog_def
proof (intro allI impI)
  fix s n s'
  assume ok: "vec_ok (rx_buffer s)"
    and "bindp m (\<lambda>r. case r of Some n \<Rightarrow> f n | None \<Rightarrow> ret None) s = Some (Ok (Some n), s')"
  then obtain k s1 where run: "m s = Some (Ok (Some k), s1)" and "f k s1 = Some (Ok (Some n), s')"
    by (auto simp: prog_simps elim!: bindp_OkE split: option.splits)
  with assms(2) have "n = k" "rx_buffer s' = rx_buffer s1" by (auto simp: passes_length_def)
  with sized_progD [OF assms(1) ok run] show "sized (rx_buffer s) n (rx_buffer s')" by simp
qed

lemma sized_trivial: "sized_prog (ret None)" "sized_prog panic"
  by (simp_all add: sized_prog_def prog_simps)

lemma sized_option:
  assumes "sized_prog m" and "\<And>a. sized_prog (f a)"
  shows "sized_prog (case x of None \<Rightarrow> m | Some a \<Rightarrow> f a)"
  using assms by (cases x) simp_all

lemma library_deframer_sized:
  fixes dfr :: "('r, 'o) deframer"
  assumes "library_deframer rd fmt dfr"
  shows "sized_prog (read_and_deframe dfr)"
  using assms
proof (induction rule: library_deframer.induct)
  case (plain_deframer d)
  show ?case
    unfolding DefaultDeframer_def deframer.simps read_and_deframe_default_def default_read_after_length_def
    by (intro leaves_buffer_rules [THEN sized_after] sized_option sized_trivial sized_payload passes_length_rules)
next
  case (checksummed_deframer d)
  show ?case
    unfolding ChecksumDeframer_def deframer.simps checksum_read_and_deframe_def Let_def
    by (intro leaves_buffer_rules [THEN sized_after] sized_option sized_trivial sized_payload passes_length_rules)
next
  case (validating_deframer fmt f v)
  then show ?case
    unfolding ValidatingDeframer_def deframer.simps validate_deframed_def
    by (intro sized_adapter passes_length_rules)
next
  case (observer_deframer fmt f cb)
  then show ?case
    unfolding ObserverDeframer_def deframer.simps observe_deframed_def
    by (intro sized_adapter passes_length_rules)
qed

interpretation plain_from_cursor: frame_reader cursor_read cursor_rest "\<lambda>_. 0" "\<lambda>_. True"
    "DefaultDeframer cursor_read d" "plain_format (dd_max_frame_len d)" for d
  by (rule library_deframer_contract [OF library_deframer.plain_deframer cursor_source.reliable_source_axioms])

section \<open>Properties\<close>

text \<open>C2: On a reliable reader, every stack of the library's deframers returns, and returns exactly
  the next frame of its format: the payload at the front of the buffer with the reader left at the
  first byte after the frame, the clean end of the stream only on no bytes at all, and otherwise the
  error of the format.\<close>

theorem deframer_takes_next_frame:
  assumes "library_deframer rd fmt dfr" and "reliable_source rd content patience healthy"
    and "healthy (rx_source s)"
  shows "\<exists>out s'. read_and_deframe dfr s = Some (out, s') \<and> healthy (rx_source s') \<and>
    (case next_frame fmt (content (rx_source s)) of
       EndOfStream \<Rightarrow> out = Ok None \<and> content (rx_source s') = []
     | Frame p rest \<Rightarrow> out = Ok (Some (length p)) \<and> take (length p) (vdata (rx_buffer s')) = p \<and>
         content (rx_source s') = rest
     | Bad e \<Rightarrow> out = Err e)"
proof -
  obtain out s' where "read_and_deframe dfr s = Some (out, s')" and "deframed content healthy fmt s out s'"
    using frame_reader.deframe_result [OF library_deframer_contract [OF assms(1,2)] assms(3)] by blast
  then show ?thesis
    by (cases "next_frame fmt (content (rx_source s))") (auto simp: deframed_def)
qed

definition sample_rx :: "bytes \<Rightarrow> (cursor, unit) rx" where
  "sample_rx bs = \<lparr>rx_source = cursor_new bs, rx_buffer = vec_new, rx_world = ()\<rparr>"

lemma cursor_rest_new [simp]: "cursor_rest (cursor_new bs) = bs"
  by (simp add: cursor_rest_def cursor_new_def)

lemma sample_rx_simps [simp]: "rx_source (sample_rx bs) = cursor_new bs" "rx_buffer (sample_rx bs) = vec_new"
  by (simp_all add: sample_rx_def)

lemma sample_frame: "next_frame (plain_format 16) [2, 0, 0, 0, 7, 9, 1] = Frame [7, 9] [1]"
  by code_simp

theorem deframer_takes_next_frame_witness:
  "\<exists>s'. read_and_deframe (DefaultDeframer cursor_read \<lparr>dd_max_frame_len = 16\<rparr>) (sample_rx [2, 0, 0, 0, 7, 9, 1])
      = Some (Ok (Some 2), s') \<and> take 2 (vdata (rx_buffer s')) = [7, 9] \<and> cursor_rest (rx_source s') = [1]"
  using deframer_takes_next_frame [OF plain_deframer [where d = "\<lparr>dd_max_frame_len = 16\<rparr>"]
      cursor_source.reliable_source_axioms, of "sample_rx [2, 0, 0, 0, 7, 9, 1]"]
  by (auto simp: sample_frame numeral_2_eq_2)

text \<open>C14: On every reader, faulty ones included, and whichever of the two methods is called - the read of
  a whole frame or, with a length that has already been read, the read of what comes after it - a call
  never grows the buffer past the configured frame limit nor its capacity past what holding the limit
  takes, and it never shrinks it.\<close>

theorem deframer_buffer_bound:
  assumes "library_deframer rd fmt dfr"
    and "read_and_deframe dfr s = Some (out, s') \<or> read_after_length dfr n s = Some (out, s')"
  shows "length (vdata (rx_buffer s)) \<le> length (vdata (rx_buffer s')) \<and>
    length (vdata (rx_buffer s')) \<le> max (length (vdata (rx_buffer s))) (ff_max fmt) \<and>
    vcap (rx_buffer s) \<le> vcap (rx_buffer s') \<and>
    vcap (rx_buffer s') \<le> max (vcap (rx_buffer s)) (max 8 (2 * ff_max fmt))"
  using library_deframer_bounded [OF assms(1)] assms(2)
  by (auto simp: bounded_prog_def buffer_step_def)

lemma sample_run:
  "\<exists>s'. read_and_deframe (DefaultDeframer cursor_read \<lparr>dd_max_frame_len = 1\<rparr>) (sample_rx [2, 0, 0, 0, 7, 9, 1])
      = Some (Err (frame_too_long 2 1), s')"
proof -
  have "next_frame (plain_format 1) [2, 0, 0, 0, 7, 9, 1] = Bad (frame_too_long 2 1)" by code_simp
  then show ?thesis
    using plain_from_cursor.deframe_result
      [where s = "sample_rx [2, 0, 0, 0, 7, 9, 1]" and d = "\<lparr>dd_max_frame_len = 1\<rparr>"]
    by (auto simp: deframed_def)
qed

theorem deframer_buffer_bound_witness:
  "\<exists>out s'. read_after_length (ChecksumDeframer cursor_read \<lparr>cd_checksum_alg = Crc16 (\<lambda>_. 7), cd_max_frame_len = 1\<rparr>)
       4000000000 (sample_rx [7, 0, 9]) = Some (out, s') \<and>
     length (vdata (rx_buffer s')) \<le> 1 \<and> vcap (rx_buffer s') \<le> 8"
proof -
  let ?d = "\<lparr>cd_checksum_alg = Crc16 (\<lambda>_. 7), cd_max_frame_len = 1\<rparr>"
  obtain s' where run: "read_after_length (ChecksumDeframer cursor_read ?d) 4000000000 (sample_rx [7, 0, 9]) =
      Some (Err (frame_too_long 4000000000 1), s')"
    by (simp add: ChecksumDeframer_def checksum_read_after_length_def check_frame_len_def frame_too_long_def
        prog_simps Let_def)
  have "library_deframer cursor_read (checksum_format (Crc16 (\<lambda>_. 7)) 1) (ChecksumDeframer cursor_read ?d)"
    using checksummed_deframer [where d = ?d] crc16.lawful_checksum_axioms by simp
  from deframer_buffer_bound [OF this disjI2 [OF run]] run show ?thesis
    by (auto simp: checksum_format_def vec_new_def)
qed

text \<open>On every reader, a frame rejected for its declared length leaves the buffer exactly as it
  was: no allocation is sized from a length over the limit.\<close>

lemma oversized_length_leaves_buffer:
  assumes "library_deframer rd fmt dfr" and "read_and_deframe dfr s = Some (Err e, s')"
    and "kind e = InvalidFrame message len cap limit"
  shows "rx_buffer s' = rx_buffer s"
  using library_deframer_rejects_early(1) [OF assms(1)] assms(2,3)
  by (auto simp: rejects_early_def is_invalid_frame_def)

lemma oversized_length_leaves_buffer_witness:
  "\<exists>s'. read_and_deframe (DefaultDeframer cursor_read \<lparr>dd_max_frame_len = 1\<rparr>) (sample_rx [2, 0, 0, 0, 7, 9, 1])
      = Some (Err (frame_too_long 2 1), s') \<and> rx_buffer s' = vec_new"
proof -
  obtain s' where run: "read_and_deframe (DefaultDeframer cursor_read \<lparr>dd_max_frame_len = 1\<rparr>)
      (sample_rx [2, 0, 0, 0, 7, 9, 1]) = Some (Err (frame_too_long 2 1), s')"
    using sample_run by blast
  from oversized_length_leaves_buffer [OF plain_deframer run] run show ?thesis
    by (auto simp: frame_too_long_def error_defs)
qed



end
