(* ===== verification/FS_Policy.thy ===== *)
theory FS_Policy
  imports FS_Prelude
begin

text \<open>
  \<^verbatim>\<open>src/policy.rs\<close>: the trait \<^verbatim>\<open>MemoryPolicy\<close> as a record of its methods, the three
  policies, and runs of a policy over the consultations it receives. Durations are
  nanoseconds, so the saturating subtraction of \<^verbatim>\<open>Duration\<close> is the subtraction of naturals.
  A \<^verbatim>\<open>Clock\<close> is a parameter: the function that reads it and the state the reading leaves.
\<close>

section \<open>The trait\<close>

definition DEFAULT_BASELINE_CAPACITY :: nat where
  "DEFAULT_BASELINE_CAPACITY = 16 * 1024"

datatype reclamation_reason = MessageCount | TimeCooldown | SizeThreshold

record reclamation_info =
  ri_reason :: reclamation_reason
  ri_last_message_size :: nat
  ri_capacity_before :: nat
  ri_capacity_after :: nat

record 'p memory_policy =
  should_reset :: "'p \<Rightarrow> nat \<Rightarrow> nat \<Rightarrow> reclamation_reason option \<times> 'p"
  on_reclaim :: "'p \<Rightarrow> reclamation_info \<Rightarrow> 'p"
  baseline_capacity :: "'p \<Rightarrow> nat"

definition on_reclaim_default :: "'p \<Rightarrow> reclamation_info \<Rightarrow> 'p" where
  "on_reclaim_default p info = p"

definition baseline_capacity_default :: "'p \<Rightarrow> nat" where
  "baseline_capacity_default p = DEFAULT_BASELINE_CAPACITY"

definition noop_should_reset :: "unit \<Rightarrow> nat \<Rightarrow> nat \<Rightarrow> reclamation_reason option \<times> unit" where
  "noop_should_reset p last_message_size current_capacity = (None, p)"

definition NoOpPolicy :: "unit memory_policy" where
  "NoOpPolicy = \<lparr>should_reset = noop_should_reset, on_reclaim = on_reclaim_default,
     baseline_capacity = baseline_capacity_default\<rparr>"

section \<open>The adaptive watermark policy\<close>

type_synonym duration = nat
type_synonym 'c clock = "'c \<Rightarrow> duration \<times> 'c"

record 'c adaptive =
  aw_size_ratio_threshold :: nat
  aw_messages_to_wait :: nat
  aw_cooldown :: "duration option"
  aw_baseline_capacity :: nat
  aw_messages_since_over :: nat
  aw_last_over_seen_at :: "duration option"
  aw_clock :: 'c

definition adaptive_with_clock :: "nat \<Rightarrow> nat \<Rightarrow> 'c \<Rightarrow> 'c adaptive" where
  "adaptive_with_clock size_ratio_threshold messages_to_wait clock =
     \<lparr>aw_size_ratio_threshold = size_ratio_threshold,
      aw_messages_to_wait = messages_to_wait,
      aw_cooldown = None,
      aw_baseline_capacity = DEFAULT_BASELINE_CAPACITY,
      aw_messages_since_over = 0,
      aw_last_over_seen_at = None,
      aw_clock = clock\<rparr>"

text \<open>
  The production clock reads the time since its origin. \<^verbatim>\<open>Instant::now\<close> never runs backwards:
  the machine advances by the next of its ticks at every reading.
\<close>

record machine =
  mach_time :: nat
  mach_ticks :: "nat list"

definition instant_now :: "machine \<Rightarrow> nat \<times> machine" where
  "instant_now m =
     (case mach_ticks m of
        [] \<Rightarrow> (mach_time m, m)
      | d # ds \<Rightarrow> (mach_time m + d, \<lparr>mach_time = mach_time m + d, mach_ticks = ds\<rparr>))"

record monotonic_clock =
  mc_origin :: nat
  mc_machine :: machine

definition monotonic_clock_new :: "machine \<Rightarrow> monotonic_clock" where
  "monotonic_clock_new m = (let (t, m') = instant_now m in \<lparr>mc_origin = t, mc_machine = m'\<rparr>)"

definition monotonic_clock_now :: "monotonic_clock clock" where
  "monotonic_clock_now k =
     (let (t, m') = instant_now (mc_machine k) in (t - mc_origin k, k\<lparr>mc_machine := m'\<rparr>))"

definition adaptive_new :: "nat \<Rightarrow> nat \<Rightarrow> machine \<Rightarrow> monotonic_clock adaptive" where
  "adaptive_new size_ratio_threshold messages_to_wait m =
     adaptive_with_clock size_ratio_threshold messages_to_wait (monotonic_clock_new m)"

definition adaptive_with_cooldown :: "'c adaptive \<Rightarrow> duration \<Rightarrow> 'c adaptive" where
  "adaptive_with_cooldown p cooldown = p\<lparr>aw_cooldown := Some cooldown\<rparr>"

definition adaptive_with_baseline :: "'c adaptive \<Rightarrow> nat \<Rightarrow> 'c adaptive" where
  "adaptive_with_baseline p bytes = p\<lparr>aw_baseline_capacity := bytes\<rparr>"

definition adaptive_DEFAULT_SIZE_RATIO_THRESHOLD :: nat where
  "adaptive_DEFAULT_SIZE_RATIO_THRESHOLD = 4"

definition adaptive_DEFAULT_MESSAGES_TO_WAIT :: nat where
  "adaptive_DEFAULT_MESSAGES_TO_WAIT = 5"

definition adaptive_default :: "machine \<Rightarrow> monotonic_clock adaptive" where
  "adaptive_default m =
     adaptive_new adaptive_DEFAULT_SIZE_RATIO_THRESHOLD adaptive_DEFAULT_MESSAGES_TO_WAIT m"

text \<open>
  The consultation, in the order of the source: no signal for an empty message; the signal;
  the clock, read only where a cooldown is configured; the counter and the timer; the two
  triggers.
\<close>

definition adaptive_should_reset ::
  "'c clock \<Rightarrow> 'c adaptive \<Rightarrow> nat \<Rightarrow> nat \<Rightarrow> reclamation_reason option \<times> 'c adaptive" where
  "adaptive_should_reset now p last_message_size current_capacity =
     (if last_message_size = 0
      then (None, p\<lparr>aw_messages_since_over := 0, aw_last_over_seen_at := None\<rparr>)
      else
        let overprovisioned =
              usize_saturating_mul last_message_size (aw_size_ratio_threshold p) \<le> current_capacity;
            (now_reading, clock') =
              (case aw_cooldown p of
                 None \<Rightarrow> (None, aw_clock p)
               | Some _ \<Rightarrow> (let (t, c) = now (aw_clock p) in (Some t, c)));
            since_over =
              (if overprovisioned then u32_saturating_add (aw_messages_since_over p) 1 else 0);
            last_over =
              (if overprovisioned
               then (case aw_last_over_seen_at p of None \<Rightarrow> now_reading | Some t \<Rightarrow> Some t)
               else None);
            count_ok = (overprovisioned \<and> aw_messages_to_wait p \<le> since_over);
            time_ok =
              (case (aw_cooldown p, last_over, now_reading) of
                 (Some cd, Some t0, Some t1) \<Rightarrow> cd \<le> t1 - t0
               | _ \<Rightarrow> False)
        in if count_ok \<or> time_ok
           then (Some (if time_ok then TimeCooldown else MessageCount),
                 p\<lparr>aw_messages_since_over := 0, aw_last_over_seen_at := None, aw_clock := clock'\<rparr>)
           else (None,
                 p\<lparr>aw_messages_since_over := since_over, aw_last_over_seen_at := last_over,
                   aw_clock := clock'\<rparr>))"

definition AdaptiveWatermarkPolicy :: "'c clock \<Rightarrow> 'c adaptive memory_policy" where
  "AdaptiveWatermarkPolicy now =
     \<lparr>should_reset = adaptive_should_reset now, on_reclaim = on_reclaim_default,
      baseline_capacity = aw_baseline_capacity\<rparr>"

section \<open>The size threshold policy\<close>

record size_threshold =
  st_grow_above_bytes :: nat
  st_shrink_below_bytes :: nat
  st_messages_to_wait :: nat
  st_baseline_capacity :: nat
  st_large_event_seen :: bool
  st_small_since_large :: nat

definition size_threshold_new :: "nat \<Rightarrow> nat \<Rightarrow> nat \<Rightarrow> size_threshold" where
  "size_threshold_new grow_above_bytes shrink_below_bytes messages_to_wait =
     \<lparr>st_grow_above_bytes = grow_above_bytes,
      st_shrink_below_bytes = shrink_below_bytes,
      st_messages_to_wait = messages_to_wait,
      st_baseline_capacity = DEFAULT_BASELINE_CAPACITY,
      st_large_event_seen = False,
      st_small_since_large = 0\<rparr>"

definition size_threshold_with_baseline :: "size_threshold \<Rightarrow> nat \<Rightarrow> size_threshold" where
  "size_threshold_with_baseline p bytes = p\<lparr>st_baseline_capacity := bytes\<rparr>"

definition size_threshold_DEFAULT_GROW_ABOVE_BYTES :: nat where
  "size_threshold_DEFAULT_GROW_ABOVE_BYTES = 2 ^ 20"

definition size_threshold_DEFAULT_SHRINK_BELOW_BYTES :: nat where
  "size_threshold_DEFAULT_SHRINK_BELOW_BYTES = 2 ^ 10"

definition size_threshold_DEFAULT_MESSAGES_TO_WAIT :: nat where
  "size_threshold_DEFAULT_MESSAGES_TO_WAIT = 8"

definition size_threshold_default :: size_threshold where
  "size_threshold_default = size_threshold_new size_threshold_DEFAULT_GROW_ABOVE_BYTES
     size_threshold_DEFAULT_SHRINK_BELOW_BYTES size_threshold_DEFAULT_MESSAGES_TO_WAIT"

text \<open>\<^verbatim>\<open>impl Default\<close> is the library's class of types with a default value.\<close>

instantiation size_threshold_ext :: (default) default
begin

definition default_size_threshold_ext :: "'a size_threshold_scheme" where
  "default_size_threshold_ext = size_threshold.extend size_threshold_default default"

instance ..

end

lemma default_size_threshold: "(default :: size_threshold) = size_threshold_default"
  by (simp add: default_size_threshold_ext_def size_threshold.defs)

definition size_threshold_should_reset ::
  "size_threshold \<Rightarrow> nat \<Rightarrow> nat \<Rightarrow> reclamation_reason option \<times> size_threshold" where
  "size_threshold_should_reset p last_message_size current_capacity =
     (if st_grow_above_bytes p < last_message_size
      then (None, p\<lparr>st_large_event_seen := True, st_small_since_large := 0\<rparr>)
      else if \<not> st_large_event_seen p then (None, p)
      else if last_message_size < st_shrink_below_bytes p
      then let small = u32_saturating_add (st_small_since_large p) 1
           in if st_messages_to_wait p \<le> small
              then (Some SizeThreshold, p\<lparr>st_large_event_seen := False, st_small_since_large := 0\<rparr>)
              else (None, p\<lparr>st_small_since_large := small\<rparr>)
      else (None, p\<lparr>st_small_since_large := 0\<rparr>))"

definition SizeThresholdPolicy :: "size_threshold memory_policy" where
  "SizeThresholdPolicy =
     \<lparr>should_reset = size_threshold_should_reset, on_reclaim = on_reclaim_default,
      baseline_capacity = st_baseline_capacity\<rparr>"

section \<open>Runs\<close>

text \<open>A run of consultations, each with a message size and a capacity: the verdicts and the final state.\<close>

fun consult_all ::
  "('p \<Rightarrow> nat \<Rightarrow> nat \<Rightarrow> reclamation_reason option \<times> 'p) \<Rightarrow> 'p \<Rightarrow> (nat \<times> nat) list \<Rightarrow>
   reclamation_reason option list \<times> 'p" where
  "consult_all f p [] = ([], p)"
| "consult_all f p ((m, c) # cs) =
     (let (v, p') = f p m c; (vs, p'') = consult_all f p' cs in (v # vs, p''))"

lemma consult_all_append:
  "consult_all f p (xs @ ys) =
     (fst (consult_all f p xs) @ fst (consult_all f (snd (consult_all f p xs)) ys),
      snd (consult_all f (snd (consult_all f p xs)) ys))"
  by (induction xs arbitrary: p) (auto simp: split_beta Let_def)

lemma length_consult_all [simp]: "length (fst (consult_all f p cs)) = length cs"
  by (induction cs arbitrary: p) (auto simp: split_beta Let_def)

section \<open>Streaks\<close>

text \<open>
  Both policies count consecutive events and fire when a streak is long enough. The counter
  alone: it goes up on an event, fires and restarts at \<open>wait\<close>, and restarts on a miss.
\<close>

fun count_step :: "nat \<Rightarrow> nat \<Rightarrow> bool \<Rightarrow> bool \<times> nat" where
  "count_step wait k event =
     (let k' = (if event then u32_saturating_add k 1 else 0)
      in if event \<and> wait \<le> k' then (True, 0) else (False, k'))"

fun count_run :: "nat \<Rightarrow> nat \<Rightarrow> bool list \<Rightarrow> bool list \<times> nat" where
  "count_run wait k [] = ([], k)"
| "count_run wait k (event # es) =
     (let (fired, k') = count_step wait k event; (fs, k'') = count_run wait k' es in (fired # fs, k''))"

text \<open>\<open>streak n es fs\<close>: the last \<open>n\<close> of the events all happened, and none of them fired.\<close>

definition streak :: "nat \<Rightarrow> bool list \<Rightarrow> bool list \<Rightarrow> bool" where
  "streak n es fs \<longleftrightarrow> n \<le> length es \<and>
     (\<forall>j. length es - n \<le> j \<and> j < length es \<longrightarrow> es ! j \<and> \<not> fs ! j)"

lemma count_run_snoc:
  "count_run wait k (es @ [e]) =
     (let (fs, k') = count_run wait k es; (fired, k'') = count_step wait k' e in (fs @ [fired], k''))"
  by (induction es arbitrary: k) (auto simp: split_beta Let_def)

lemma length_count_run [simp]: "length (fst (count_run wait k es)) = length es"
  by (induction es arbitrary: k) (auto simp: split_beta Let_def)

lemma streak_0 [simp]: "streak 0 es fs"
  by (auto simp: streak_def)

lemma streak_Suc_snoc:
  assumes "length fs = length es"
  shows "streak (Suc n) (es @ [e]) (fs @ [f]) \<longleftrightarrow> e \<and> \<not> f \<and> streak n es fs"
  using assms by (auto simp: streak_def nth_append all_conj_distrib less_Suc_eq)

text \<open>The counter is the length of the longest streak, and stays below the threshold.\<close>

lemma count_run_streak:
  assumes "wait \<le> u32_max"
  shows "snd (count_run wait 0 es) < max 1 wait \<and>
    (\<forall>n. streak n es (fst (count_run wait 0 es)) \<longleftrightarrow> n \<le> snd (count_run wait 0 es))"
proof (induction es rule: rev_induct)
  case Nil
  show ?case by (simp add: streak_def)
next
  case (snoc e es)
  let ?fs = "fst (count_run wait 0 es)" and ?k = "snd (count_run wait 0 es)"
  have k: "?k < max 1 wait" and run: "\<And>n. streak n es ?fs \<longleftrightarrow> n \<le> ?k" using snoc by auto
  with assms have sat: "u32_saturating_add ?k 1 = Suc ?k"
    by (auto simp: u32_saturating_add_def u32_max_def)
  obtain f k' where step: "count_step wait ?k e = (f, k')" by (cases "count_step wait ?k e")
  then have new: "count_run wait 0 (es @ [e]) = (?fs @ [f], k')"
    by (simp add: count_run_snoc split_beta)
  have "streak n (es @ [e]) (?fs @ [f]) \<longleftrightarrow> n \<le> k'" for n
    using step sat by (cases n) (auto simp: streak_Suc_snoc run Let_def split: if_splits)
  moreover have "k' < max 1 wait"
    using step sat by (auto simp: Let_def split: if_splits)
  ultimately show ?case by (simp add: new)
qed

lemma count_run_fires_iff:
  assumes "wait \<le> u32_max" and "i < length es"
  shows "fst (count_run wait 0 es) ! i \<longleftrightarrow>
    es ! i \<and> streak (wait - 1) (take i es) (take i (fst (count_run wait 0 es)))"
  using assms(2)
proof (induction es rule: rev_induct)
  case (snoc e es)
  let ?fs = "fst (count_run wait 0 es)" and ?k = "snd (count_run wait 0 es)"
  obtain f k' where step: "count_step wait ?k e = (f, k')" by (cases "count_step wait ?k e")
  then have new: "fst (count_run wait 0 (es @ [e])) = ?fs @ [f]"
    by (simp add: count_run_snoc split_beta)
  show ?case
  proof (cases "i < length es")
    case True
    with snoc.IH new show ?thesis by (simp add: nth_append)
  next
    case False
    with snoc.prems have i: "i = length es" by simp
    note k = count_run_streak [OF assms(1), of es]
    with assms(1) have sat: "u32_saturating_add ?k 1 = Suc ?k"
      by (auto simp: u32_saturating_add_def u32_max_def)
    from step sat have f: "f \<longleftrightarrow> e \<and> wait \<le> Suc ?k" by (auto simp: Let_def split: if_splits)
    from k have "streak (wait - 1) es ?fs \<longleftrightarrow> wait - 1 \<le> ?k" by blast
    with f show ?thesis by (simp add: new i nth_append le_diff_conv)
  qed
qed simp

section \<open>The adaptive policy\<close>

definition overprovisioned :: "'c adaptive \<Rightarrow> nat \<times> nat \<Rightarrow> bool" where
  "overprovisioned p mc \<longleftrightarrow> fst mc \<noteq> 0 \<and>
     usize_saturating_mul (fst mc) (aw_size_ratio_threshold p) \<le> snd mc"

text \<open>Without a cooldown a consultation is one step of the counter, and the clock is not read.\<close>

lemma adaptive_count_only_step:
  assumes "aw_cooldown p = None"
  shows "adaptive_should_reset now p m c =
    (let (fired, k) = count_step (aw_messages_to_wait p) (aw_messages_since_over p) (overprovisioned p (m, c))
     in (if fired then Some MessageCount else None,
         p\<lparr>aw_messages_since_over := k,
           aw_last_over_seen_at := (if overprovisioned p (m, c) \<and> \<not> fired then aw_last_over_seen_at p else None)\<rparr>))"
  using assms
  by (cases "aw_last_over_seen_at p")
    (auto simp: adaptive_should_reset_def overprovisioned_def Let_def)

lemma adaptive_count_only_run:
  assumes "aw_cooldown p = None"
  shows "fst (consult_all (adaptive_should_reset now) p cs) =
     map (\<lambda>f. if f then Some MessageCount else None)
       (fst (count_run (aw_messages_to_wait p) (aw_messages_since_over p) (map (overprovisioned p) cs)))
   \<and> aw_clock (snd (consult_all (adaptive_should_reset now) p cs)) = aw_clock p"
  using assms
proof (induction cs arbitrary: p)
  case (Cons mc cs)
  obtain m c where mc: "mc = (m, c)" by (cases mc)
  obtain f k where step: "count_step (aw_messages_to_wait p) (aw_messages_since_over p) (overprovisioned p (m, c)) = (f, k)"
    by (cases "count_step (aw_messages_to_wait p) (aw_messages_since_over p) (overprovisioned p (m, c))")
  let ?p = "p\<lparr>aw_messages_since_over := k,
    aw_last_over_seen_at := (if overprovisioned p (m, c) \<and> \<not> f then aw_last_over_seen_at p else None)\<rparr>"
  have "overprovisioned ?p = overprovisioned p" by (simp add: overprovisioned_def fun_eq_iff)
  with Cons.IH [of ?p] Cons.prems show ?case
    by (simp add: mc adaptive_count_only_step step split_beta del: count_step.simps)
qed simp

text \<open>Firing, by whichever trigger, needs the signal and clears the counter and the timer.\<close>

lemma adaptive_fires:
  assumes "adaptive_should_reset now p m c = (Some reason, p')"
  shows "overprovisioned p (m, c)" and "aw_messages_since_over p' = 0" and "aw_last_over_seen_at p' = None"
    and "aw_cooldown p' = aw_cooldown p" and "reason \<noteq> SizeThreshold"
  using assms
  by (auto simp: adaptive_should_reset_def overprovisioned_def Let_def split_beta
      split: if_splits option.splits)

text \<open>
  The time trigger on a clock that does not run backwards: \<open>elapsed c\<close> is its latest reading.
\<close>

locale steady_clock =
  fixes now :: "'c clock"
    and elapsed :: "'c \<Rightarrow> duration"
  assumes steady: "\<And>c t c'. now c = (t, c') \<Longrightarrow> elapsed c \<le> t \<and> elapsed c' = t"
begin

text \<open>The streak being timed, if any, began no earlier than \<open>since\<close>.\<close>

definition timed_since :: "duration \<Rightarrow> 'c adaptive \<Rightarrow> bool" where
  "timed_since since p \<longleftrightarrow> since \<le> elapsed (aw_clock p) \<and>
     (\<forall>t. aw_last_over_seen_at p = Some t \<longrightarrow> since \<le> t)"

lemma consult_clock:
  "elapsed (aw_clock p) \<le> elapsed (aw_clock (snd (adaptive_should_reset now p m c)))"
  by (cases "now (aw_clock p)")
    (auto simp: adaptive_should_reset_def Let_def split: option.splits dest: steady)

lemma consult_timed:
  assumes "timed_since since p"
  shows "timed_since since (snd (adaptive_should_reset now p m c))"
  using assms
  by (cases "now (aw_clock p)")
    (auto simp: timed_since_def adaptive_should_reset_def Let_def split: option.splits dest: steady)

lemma fired_timed:
  assumes "adaptive_should_reset now p m c = (Some reason, p')"
  shows "timed_since (elapsed (aw_clock p')) p'"
  using adaptive_fires(3) [OF assms] by (simp add: timed_since_def)

lemma consult_cooldown: "aw_cooldown (snd (adaptive_should_reset now p m c)) = aw_cooldown p"
  by (simp add: adaptive_should_reset_def Let_def split_beta)

lemma run_timed:
  "timed_since since p \<Longrightarrow> timed_since since (snd (consult_all (adaptive_should_reset now) p cs)) \<and>
     aw_cooldown (snd (consult_all (adaptive_should_reset now) p cs)) = aw_cooldown p"
proof (induction cs arbitrary: p)
  case (Cons mc cs)
  obtain m c where "mc = (m, c)" by (cases mc)
  with Cons.IH [OF consult_timed [OF Cons.prems, of m c]] consult_cooldown [of p m c] show ?case
    by (simp add: split_beta)
qed simp

lemma time_fire_waits:
  assumes "timed_since since p" and "aw_cooldown p = Some cd"
    and "adaptive_should_reset now p m c = (Some TimeCooldown, p')"
  shows "since + cd \<le> elapsed (aw_clock p') \<or> cd = 0"
  using assms
  by (cases "now (aw_clock p)")
    (auto simp: timed_since_def adaptive_should_reset_def Let_def split: option.splits if_splits dest: steady)

text \<open>Between a reclamation and the next timed one at least the cooldown elapses.\<close>

lemma cooldown_between_fires:
  assumes "aw_cooldown p = Some cd" and "adaptive_should_reset now p m c = (Some reason, p1)"
    and "adaptive_should_reset now (snd (consult_all (adaptive_should_reset now) p1 cs)) m' c' = (Some TimeCooldown, p2)"
  shows "elapsed (aw_clock p1) + cd \<le> elapsed (aw_clock p2)"
proof -
  let ?q = "snd (consult_all (adaptive_should_reset now) p1 cs)"
  have "aw_cooldown p1 = Some cd" using adaptive_fires(4) [OF assms(2)] assms(1) by simp
  with run_timed [OF fired_timed [OF assms(2)], of cs]
  have q: "timed_since (elapsed (aw_clock p1)) ?q" "aw_cooldown ?q = Some cd" by simp_all
  from time_fire_waits [OF this assms(3)] show ?thesis
    using consult_timed [OF q(1), of m' c'] assms(3) by (auto simp: timed_since_def)
qed

end

interpretation monotonic: steady_clock monotonic_clock_now "\<lambda>k. mach_time (mc_machine k) - mc_origin k"
  by unfold_locales
    (auto simp: monotonic_clock_now_def instant_now_def Let_def split: list.splits)

section \<open>The size threshold policy over a run\<close>

definition st_large :: "size_threshold \<Rightarrow> nat \<times> nat \<Rightarrow> bool" where
  "st_large p mc \<longleftrightarrow> st_grow_above_bytes p < fst mc"

definition st_small :: "size_threshold \<Rightarrow> nat \<times> nat \<Rightarrow> bool" where
  "st_small p mc \<longleftrightarrow> fst mc \<le> st_grow_above_bytes p \<and> fst mc < st_shrink_below_bytes p"

text \<open>Armed: a large message has been seen and nothing has fired since.\<close>

definition armed :: "bool list \<Rightarrow> bool list \<Rightarrow> bool" where
  "armed es fs \<longleftrightarrow> (\<exists>j < length es. es ! j \<and> (\<forall>k. j \<le> k \<and> k < length es \<longrightarrow> \<not> fs ! k))"

lemma armed_Nil [simp]: "\<not> armed [] fs"
  by (simp add: armed_def)

lemma armed_snoc:
  assumes "length fs = length es"
  shows "armed (es @ [e]) (fs @ [f]) \<longleftrightarrow> \<not> f \<and> (e \<or> armed es fs)"
proof
  assume "armed (es @ [e]) (fs @ [f])"
  then obtain j where j: "j \<le> length es" "(es @ [e]) ! j"
    and quiet: "\<And>k. j \<le> k \<Longrightarrow> k \<le> length es \<Longrightarrow> \<not> (fs @ [f]) ! k"
    by (auto simp: armed_def less_Suc_eq_le)
  from quiet [of "length es"] j(1) assms have "\<not> f" by (simp add: nth_append)
  moreover have "armed es fs" if "j < length es"
    unfolding armed_def using j that assms quiet
    by (intro exI [of _ j]) (fastforce simp: nth_append)
  ultimately show "\<not> f \<and> (e \<or> armed es fs)"
    using j by (cases "j = length es") (auto simp: nth_append)
next
  assume f: "\<not> f \<and> (e \<or> armed es fs)"
  show "armed (es @ [e]) (fs @ [f])"
  proof (cases e)
    case True
    with f assms show ?thesis
      unfolding armed_def by (intro exI [of _ "length es"]) (auto simp: nth_append)
  next
    case False
    with f obtain j where "j < length es" "es ! j" "\<And>k. j \<le> k \<Longrightarrow> k < length es \<Longrightarrow> \<not> fs ! k"
      by (auto simp: armed_def)
    with f assms show ?thesis
      unfolding armed_def by (intro exI [of _ j]) (auto simp: nth_append less_Suc_eq)
  qed
qed

text \<open>One consultation in terms of the two events.\<close>

lemma size_threshold_step:
  "size_threshold_should_reset p m c =
     (if st_large p (m, c) then (None, p\<lparr>st_large_event_seen := True, st_small_since_large := 0\<rparr>)
      else if \<not> st_large_event_seen p then (None, p)
      else let (fired, k) = count_step (st_messages_to_wait p) (st_small_since_large p) (st_small p (m, c))
           in (if fired then Some SizeThreshold else None,
               p\<lparr>st_large_event_seen := \<not> fired, st_small_since_large := k\<rparr>))"
  by (auto simp: size_threshold_should_reset_def st_large_def st_small_def Let_def)

definition fired :: "reclamation_reason option list \<Rightarrow> bool list" where
  "fired vs = map (\<lambda>v. v \<noteq> None) vs"

lemma fired_simps [simp]: "fired [] = []" "fired (vs @ [v]) = fired vs @ [v \<noteq> None]" "length (fired vs) = length vs"
  by (simp_all add: fired_def)

text \<open>The state after a run: the latch is the armed condition, and while armed the counter is the streak.\<close>

definition st_tracks :: "size_threshold \<Rightarrow> (nat \<times> nat) list \<Rightarrow> bool list \<Rightarrow> size_threshold \<Rightarrow> bool" where
  "st_tracks p cs fs q \<longleftrightarrow>
     st_large q = st_large p \<and> st_small q = st_small p \<and> st_messages_to_wait q = st_messages_to_wait p \<and>
     (st_large_event_seen q \<longleftrightarrow> armed (map (st_large p) cs) fs) \<and>
     (st_large_event_seen q \<longrightarrow> st_small_since_large q < max 1 (st_messages_to_wait p) \<and>
        (\<forall>n. streak n (map (st_small p) cs) fs \<longleftrightarrow> n \<le> st_small_since_large q))"

lemma st_update [simp]:
  "st_large (q\<lparr>st_large_event_seen := b, st_small_since_large := k\<rparr>) = st_large q"
  "st_small (q\<lparr>st_large_event_seen := b, st_small_since_large := k\<rparr>) = st_small q"
  by (simp_all add: st_large_def st_small_def fun_eq_iff)

lemma small_not_large: "st_small p mc \<Longrightarrow> \<not> st_large p mc"
  by (simp add: st_small_def st_large_def)

lemma st_tracks_snoc:
  assumes wait: "st_messages_to_wait p \<le> u32_max" and len: "length fs = length cs"
    and q: "st_tracks p cs fs q" and step: "size_threshold_should_reset q m c = (v, q')"
  shows "st_tracks p (cs @ [(m, c)]) (fs @ [v \<noteq> None]) q'"
proof -
  have same: "st_large q = st_large p" "st_small q = st_small p" "st_messages_to_wait q = st_messages_to_wait p"
    using q by (simp_all add: st_tracks_def)
  consider (large) "st_large p (m, c)" | (idle) "\<not> st_large p (m, c)" "\<not> st_large_event_seen q"
    | (counting) "\<not> st_large p (m, c)" "st_large_event_seen q" by blast
  then show ?thesis
  proof cases
    case large
    have "\<not> st_small p (m, c)" using large small_not_large by blast
    moreover have "streak n (map (st_small p) cs @ [False]) (fs @ [False]) \<longleftrightarrow> n = 0" for n
      using len by (cases n) (simp_all add: streak_Suc_snoc)
    moreover have "v = None" "q' = q\<lparr>st_large_event_seen := True, st_small_since_large := 0\<rparr>"
      using step large same by (simp_all add: size_threshold_step)
    ultimately show ?thesis using large len same
      by (simp add: st_tracks_def armed_snoc)
  next
    case idle
    then have "v = None" "q' = q" using step same by (simp_all add: size_threshold_step)
    moreover have "\<not> armed (map (st_large p) cs) fs" using q idle by (simp add: st_tracks_def)
    ultimately show ?thesis using idle len same
      by (simp add: st_tracks_def armed_snoc)
  next
    case counting
    let ?k = "st_small_since_large q" and ?w = "st_messages_to_wait p" and ?e = "st_small p (m, c)"
    obtain f k' where count: "count_step ?w ?k ?e = (f, k')" by (cases "count_step ?w ?k ?e")
    have k: "?k < max 1 ?w" and run: "\<And>n. streak n (map (st_small p) cs) fs \<longleftrightarrow> n \<le> ?k"
      and armed: "armed (map (st_large p) cs) fs"
      using q counting by (auto simp: st_tracks_def)
    from k wait have sat: "u32_saturating_add ?k 1 = Suc ?k"
      by (auto simp: u32_saturating_add_def u32_max_def)
    have v: "v = (if f then Some SizeThreshold else None)"
      and q': "q' = q\<lparr>st_large_event_seen := \<not> f, st_small_since_large := k'\<rparr>"
      using step counting same count by (simp_all add: size_threshold_step split: prod.splits)
    have "streak n (map (st_small p) cs @ [?e]) (fs @ [f]) \<longleftrightarrow> n \<le> k'" if "\<not> f" for n
      using count sat that len
      by (cases n) (auto simp: streak_Suc_snoc run Let_def split: if_splits)
    moreover have "k' < max 1 ?w" using count sat by (auto simp: Let_def split: if_splits)
    ultimately show ?thesis using armed len same counting
      by (simp add: st_tracks_def v q' armed_snoc)
  qed
qed

lemma size_threshold_run:
  assumes "st_messages_to_wait p \<le> u32_max" and "\<not> st_large_event_seen p"
  shows "st_tracks p cs (fired (fst (consult_all size_threshold_should_reset p cs)))
    (snd (consult_all size_threshold_should_reset p cs))"
proof (induction cs rule: rev_induct)
  case Nil
  with assms(2) show ?case by (simp add: st_tracks_def)
next
  case (snoc mc cs)
  obtain m c where mc: "mc = (m, c)" by (cases mc)
  let ?q = "snd (consult_all size_threshold_should_reset p cs)"
  obtain v q' where step: "size_threshold_should_reset ?q m c = (v, q')"
    by (cases "size_threshold_should_reset ?q m c")
  from st_tracks_snoc [OF assms(1) _ snoc.IH step] show ?case
    by (simp add: consult_all_append mc step)
qed

text \<open>So it fires exactly at the end of a long enough streak of small messages while armed.\<close>

lemma size_threshold_fires_iff:
  assumes "st_messages_to_wait p \<le> u32_max" and "\<not> st_large_event_seen p"
    and "fs = fired (fst (consult_all size_threshold_should_reset p cs))"
    and "v = fst (size_threshold_should_reset (snd (consult_all size_threshold_should_reset p cs)) m c)"
  shows "v \<noteq> None \<longleftrightarrow> st_small p (m, c) \<and> armed (map (st_large p) cs) fs \<and>
    streak (st_messages_to_wait p - 1) (map (st_small p) cs) fs"
proof -
  let ?q = "snd (consult_all size_threshold_should_reset p cs)"
  have q: "st_tracks p cs fs ?q" using size_threshold_run [OF assms(1,2)] assms(3) by simp
  then have same: "st_large ?q = st_large p" "st_small ?q = st_small p"
    "st_messages_to_wait ?q = st_messages_to_wait p"
    and seen: "st_large_event_seen ?q \<longleftrightarrow> armed (map (st_large p) cs) fs" by (simp_all add: st_tracks_def)
  show ?thesis
  proof (cases "st_large_event_seen ?q \<and> \<not> st_large p (m, c)")
    case True
    with q have k: "st_small_since_large ?q < max 1 (st_messages_to_wait p)"
      and run: "streak (st_messages_to_wait p - 1) (map (st_small p) cs) fs \<longleftrightarrow>
        st_messages_to_wait p - 1 \<le> st_small_since_large ?q"
      by (auto simp: st_tracks_def)
    from k assms(1) have "u32_saturating_add (st_small_since_large ?q) 1 = Suc (st_small_since_large ?q)"
      by (auto simp: u32_saturating_add_def u32_max_def)
    with True run same seen show ?thesis
      by (auto simp: assms(4) size_threshold_step Let_def)
  next
    case False
    with same seen small_not_large [of p "(m, c)"] show ?thesis
      by (auto simp: assms(4) size_threshold_step)
  qed
qed

section \<open>Properties\<close>

text \<open>C4: Without a cooldown the adaptive policy never reads the clock, and from a fresh state it
  fires at a consultation if and only if that message is over-provisioned and the ones right before
  it, one fewer than \<open>messages_to_wait\<close>, all were and none of them fired.\<close>

theorem adaptive_fires_exactly_on_streaks:
  assumes "aw_cooldown p = None" and "aw_messages_since_over p = 0"
    and "aw_messages_to_wait p \<le> u32_max" and "i < length cs"
    and vs_def: "vs = fst (consult_all (adaptive_should_reset now) p cs)"
  shows "vs ! i = (if overprovisioned p (cs ! i) \<and>
      streak (aw_messages_to_wait p - 1) (map (overprovisioned p) (take i cs)) (fired (take i vs))
     then Some MessageCount else None) \<and>
    aw_clock (snd (consult_all (adaptive_should_reset now) p cs)) = aw_clock p"
proof
  let ?es = "map (overprovisioned p) cs" and ?w = "aw_messages_to_wait p"
  note run = adaptive_count_only_run [OF assms(1), of now cs, unfolded assms(2)]
  have vs: "vs = map (\<lambda>f. if f then Some MessageCount else None) (fst (count_run ?w 0 ?es))"
    using run by (simp add: vs_def)
  have "fired (take i vs) = take i (fst (count_run ?w 0 ?es))"
    by (simp add: vs fired_def take_map comp_def)
  with vs count_run_fires_iff [OF assms(3), of i ?es] assms(4)
  show "vs ! i = (if overprovisioned p (cs ! i) \<and>
      streak (?w - 1) (map (overprovisioned p) (take i cs)) (fired (take i vs))
     then Some MessageCount else None)"
    by (simp add: take_map)
  show "aw_clock (snd (consult_all (adaptive_should_reset now) p cs)) = aw_clock p"
    using run by simp
qed

lemmas sample_eval = adaptive_new_def adaptive_with_clock_def adaptive_with_cooldown_def monotonic_clock_new_def
  monotonic_clock_now_def instant_now_def adaptive_should_reset_def usize_saturating_mul_def usize_max_def
  u32_saturating_add_def u32_max_def size_threshold_should_reset_def size_threshold_new_def

theorem adaptive_fires_exactly_on_streaks_witness:
  "fst (consult_all (adaptive_should_reset monotonic_clock_now)
     (adaptive_new 4 2 \<lparr>mach_time = 3, mach_ticks = []\<rparr>) [(100, 399), (10, 4000), (10, 4000)]) ! 2 = Some MessageCount"
proof -
  let ?p = "adaptive_new 4 2 \<lparr>mach_time = 3, mach_ticks = []\<rparr>"
  have "take 2 (fst (consult_all (adaptive_should_reset monotonic_clock_now) ?p
      [(100, 399), (10, 4000), (10, 4000)])) = [None, None]"
    by (simp add: sample_eval)
  then show ?thesis
    using adaptive_fires_exactly_on_streaks
      [of ?p 2 "[(100, 399), (10, 4000), (10, 4000)]" _ monotonic_clock_now, OF _ _ _ _ refl]
    by (simp add: adaptive_new_def adaptive_with_clock_def overprovisioned_def usize_saturating_mul_def
        usize_max_def u32_max_def streak_def fired_def less_Suc_eq)
qed

text \<open>C15: With a cooldown and the production clock, whatever happens in between, at least the
  cooldown passes between a reclamation and the next one that the timer triggers: the window
  restarts after a fire.\<close>

theorem timed_reclamations_are_spaced:
  assumes "aw_cooldown p = Some cooldown"
    and "adaptive_should_reset monotonic_clock_now p m c = (Some reason, p1)"
    and "adaptive_should_reset monotonic_clock_now
      (snd (consult_all (adaptive_should_reset monotonic_clock_now) p1 cs)) m' c' = (Some TimeCooldown, p2)"
  shows "mach_time (mc_machine (aw_clock p1)) - mc_origin (aw_clock p1) + cooldown
    \<le> mach_time (mc_machine (aw_clock p2)) - mc_origin (aw_clock p2)"
  by (rule monotonic.cooldown_between_fires [OF assms])

definition sample_timed :: "monotonic_clock adaptive" where
  "sample_timed = adaptive_with_cooldown (adaptive_new 4 100 \<lparr>mach_time = 3, mach_ticks = [0, 1, 9, 2, 10]\<rparr>) 9"

theorem timed_reclamations_are_spaced_witness:
  "\<exists>p1 p2. snd (consult_all (adaptive_should_reset monotonic_clock_now) sample_timed [(10, 4000), (10, 4000)]) = p1 \<and>
     snd (consult_all (adaptive_should_reset monotonic_clock_now) p1 [(10, 4000), (10, 4000)]) = p2 \<and>
     mach_time (mc_machine (aw_clock p1)) - mc_origin (aw_clock p1) + 9
       \<le> mach_time (mc_machine (aw_clock p2)) - mc_origin (aw_clock p2)"
proof -
  let ?f = "adaptive_should_reset monotonic_clock_now"
  let ?p = "snd (?f sample_timed 10 4000)"
  let ?p1 = "snd (?f ?p 10 4000)"
  let ?q = "snd (consult_all ?f ?p1 [(10, 4000)])"
  note sample = sample_eval sample_timed_def
  have a: "aw_cooldown ?p = Some 9" by (simp add: sample)
  have b: "?f ?p 10 4000 = (Some TimeCooldown, ?p1)" by (simp add: sample)
  have c: "?f ?q 10 4000 = (Some TimeCooldown, snd (?f ?q 10 4000))" by (simp add: sample)
  from timed_reclamations_are_spaced [OF a b c] show ?thesis
    by (simp add: split_beta)
qed

text \<open>C16: From a fresh state the size threshold policy fires at a consultation if and only if the
  message is small, a large one has been seen with no reclamation since, and the messages right
  before this one, one fewer than \<open>messages_to_wait\<close>, were all small and none of them fired.\<close>

theorem size_threshold_fires_exactly:
  assumes "st_messages_to_wait p \<le> u32_max" and "\<not> st_large_event_seen p"
  shows "fst (size_threshold_should_reset (snd (consult_all size_threshold_should_reset p cs)) m c) \<noteq> None \<longleftrightarrow>
    m \<le> st_grow_above_bytes p \<and> m < st_shrink_below_bytes p \<and>
    armed (map (\<lambda>mc. st_grow_above_bytes p < fst mc) cs) (fired (fst (consult_all size_threshold_should_reset p cs))) \<and>
    streak (st_messages_to_wait p - 1)
      (map (\<lambda>mc. fst mc \<le> st_grow_above_bytes p \<and> fst mc < st_shrink_below_bytes p) cs)
      (fired (fst (consult_all size_threshold_should_reset p cs)))"
proof -
  have "st_large p = (\<lambda>mc. st_grow_above_bytes p < fst mc)"
    and "st_small p = (\<lambda>mc. fst mc \<le> st_grow_above_bytes p \<and> fst mc < st_shrink_below_bytes p)"
    by (simp_all add: fun_eq_iff st_small_def st_large_def)
  with size_threshold_fires_iff [OF assms refl refl, of cs m c] show ?thesis
    by (simp only: fst_conv conj_assoc)
qed

theorem size_threshold_fires_exactly_witness:
  "fst (size_threshold_should_reset (snd (consult_all size_threshold_should_reset (size_threshold_new 100 10 2)
     [(500, 512), (3, 512)])) 4 512) \<noteq> None"
proof -
  have "fst (consult_all size_threshold_should_reset (size_threshold_new 100 10 2) [(500, 512), (3, 512)]) = [None, None]"
    by (simp add: sample_eval)
  moreover have "armed [True, False] [False, False]"
    by (auto simp: armed_def less_Suc_eq numeral_2_eq_2 intro!: exI [of _ 0])
  moreover have "streak (Suc 0) [False, True] [False, False]"
    by (auto simp: streak_def less_Suc_eq)
  ultimately show ?thesis
    using size_threshold_fires_exactly [of "size_threshold_new 100 10 2" "[(500, 512), (3, 512)]" 4 512]
    by (simp add: size_threshold_new_def u32_max_def fired_def)
qed

end
