(* ===== verification/FS_Reader.thy ===== *)
theory FS_Reader
  imports FS_Deframing FS_Policy
begin

text \<open>
  \<^verbatim>\<open>src/reader.rs\<close> and the reading trait of \<^verbatim>\<open>src/traits.rs\<close>: the \<^verbatim>\<open>StreamReader\<close>
  with its buffer, its optional memory policy and the shrink it defers to the next read; the
  processing loop, the message iterators and their typed variants. A user closure is a
  program on the state it captures. The state of the world that observers of the deframer
  act on is threaded beside the reader's own fields.
\<close>

section \<open>The reader\<close>

record 'p policy_slot =
  slot_policy_ops :: "'p memory_policy"
  slot_policy :: 'p
  slot_baseline_capacity :: nat

record ('r, 'o, 'p) stream_reader =
  sr_reader :: 'r
  sr_deframer :: "('r, 'o) deframer"
  sr_buffer :: vec
  sr_policy :: "'p policy_slot option"
  sr_pending_shrink :: bool
  sr_world :: 'o

definition reader_new :: "'r \<Rightarrow> ('r, 'o) deframer \<Rightarrow> 'o \<Rightarrow> ('r, 'o, 'p) stream_reader" where
  "reader_new reader deframer world =
     \<lparr>sr_reader = reader, sr_deframer = deframer, sr_buffer = vec_new,
      sr_policy = None, sr_pending_shrink = False, sr_world = world\<rparr>"

definition reader_with_capacity ::
  "'r \<Rightarrow> ('r, 'o) deframer \<Rightarrow> nat \<Rightarrow> 'o \<Rightarrow> ('r, 'o, 'p) stream_reader" where
  "reader_with_capacity reader deframer capacity world =
     \<lparr>sr_reader = reader, sr_deframer = deframer, sr_buffer = vec_with_capacity capacity,
      sr_policy = None, sr_pending_shrink = False, sr_world = world\<rparr>"

definition reader_with_memory_policy ::
  "('r, 'o, 'p) stream_reader \<Rightarrow> 'p memory_policy \<Rightarrow> 'p \<Rightarrow> ('r, 'o, 'p) stream_reader" where
  "reader_with_memory_policy s ops policy =
     s\<lparr>sr_policy := Some \<lparr>slot_policy_ops = ops, slot_policy = policy,
         slot_baseline_capacity = baseline_capacity ops policy\<rparr>\<rparr>"

definition apply_pending_shrink :: "('r, 'o, 'p) stream_reader \<Rightarrow> ('r, 'o, 'p) stream_reader" where
  "apply_pending_shrink s =
     (case sr_policy s of
        Some slot \<Rightarrow> s\<lparr>sr_buffer := vec_with_capacity (slot_baseline_capacity slot),
                       sr_pending_shrink := False\<rparr>
      | None \<Rightarrow> s\<lparr>sr_pending_shrink := False\<rparr>)"

definition reader_evaluate_memory_policy ::
  "nat \<Rightarrow> ('r, 'o, 'p) stream_reader \<Rightarrow> ('r, 'o, 'p) stream_reader" where
  "reader_evaluate_memory_policy last_message_size s =
     (case sr_policy s of
        None \<Rightarrow> s
      | Some slot \<Rightarrow>
          (let capacity = vcap (sr_buffer s) in
           if slot_baseline_capacity slot < capacity
           then (case should_reset (slot_policy_ops slot) (slot_policy slot) last_message_size capacity of
                   (None, p') \<Rightarrow> s\<lparr>sr_policy := Some (slot\<lparr>slot_policy := p'\<rparr>)\<rparr>
                 | (Some reason, p') \<Rightarrow>
                     s\<lparr>sr_pending_shrink := True,
                       sr_policy := Some (slot\<lparr>slot_policy :=
                         on_reclaim (slot_policy_ops slot) p'
                           \<lparr>ri_reason = reason, ri_last_message_size = last_message_size,
                            ri_capacity_before = capacity,
                            ri_capacity_after = slot_baseline_capacity slot\<rparr>\<rparr>)\<rparr>)
           else s))"

text \<open>The deframer runs on the borrowed reader and buffer.\<close>

definition lend_rx :: "('r, 'o, 'p) stream_reader \<Rightarrow> ('r, 'o) rx" where
  "lend_rx s = \<lparr>rx_source = sr_reader s, rx_buffer = sr_buffer s, rx_world = sr_world s\<rparr>"

definition give_back :: "('r, 'o) rx \<Rightarrow> ('r, 'o, 'p) stream_reader \<Rightarrow> ('r, 'o, 'p) stream_reader" where
  "give_back x s = s\<lparr>sr_reader := rx_source x, sr_buffer := rx_buffer x, sr_world := rx_world x\<rparr>"

definition read_message :: "(('r, 'o, 'p) stream_reader, error, bytes option) prog" where
  "read_message s =
     (let s0 = (if sr_pending_shrink s then apply_pending_shrink s else s) in
      case read_and_deframe (sr_deframer s0) (lend_rx s0) of
        None \<Rightarrow> None
      | Some (out, x) \<Rightarrow>
          (let s1 = give_back x s0 in
           case out of
             Err e \<Rightarrow> Some (Err e, s1)
           | Panic \<Rightarrow> Some (Panic, s1)
           | Ok None \<Rightarrow> Some (Ok None, s1)
           | Ok (Some n) \<Rightarrow>
               (let s2 = (if sr_policy s1 \<noteq> None then reader_evaluate_memory_policy n s1 else s1)
                in if length (vdata (sr_buffer s2)) < n then Some (Panic, s2)
                   else Some (Ok (Some (take n (vdata (sr_buffer s2)))), s2))))"

text \<open>\<^verbatim>\<open>while let Some(payload) = self.read_message()? { processor(payload)?; }\<close>\<close>

partial_function (option) process_all ::
  "(bytes \<Rightarrow> ('u, error, unit) prog) \<Rightarrow> ('r, 'o, 'p) stream_reader \<times> 'u \<Rightarrow>
   ((error, unit) outcome \<times> ('r, 'o, 'p) stream_reader \<times> 'u) option" where
  "process_all processor su =
     (case read_message (fst su) of
        None \<Rightarrow> None
      | Some (out, s') \<Rightarrow>
          (case out of
             Err e \<Rightarrow> Some (Err e, s', snd su)
           | Panic \<Rightarrow> Some (Panic, s', snd su)
           | Ok got \<Rightarrow>
               (case got of
                  None \<Rightarrow> Some (Ok (), s', snd su)
                | Some payload \<Rightarrow>
                    (case processor payload (snd su) of
                       None \<Rightarrow> None
                     | Some (out', u') \<Rightarrow>
                         (case out' of
                            Ok _ \<Rightarrow> process_all processor (s', u')
                          | Err e \<Rightarrow> Some (Err e, s', u')
                          | Panic \<Rightarrow> Some (Panic, s', u'))))))"

declare process_all.simps [code]

section \<open>Typed access\<close>

text \<open>
  \<^verbatim>\<open>StreamDeserialize::from_payload\<close> is a parameter: the schema's verifier and root accessor.
\<close>

type_synonym 'root from_payload = "bytes \<Rightarrow> (error, 'root) outcome"

definition process_typed ::
  "'root from_payload \<Rightarrow> ('root \<Rightarrow> ('u, error, unit) prog) \<Rightarrow> ('r, 'o, 'p) stream_reader \<times> 'u \<Rightarrow>
   ((error, unit) outcome \<times> ('r, 'o, 'p) stream_reader \<times> 'u) option" where
  "process_typed from_payload processor =
     process_all (\<lambda>payload. bindp (lift_outcome (from_payload payload)) processor)"

definition process_typed_unchecked ::
  "(bytes \<Rightarrow> 'inner) \<Rightarrow> ('inner \<Rightarrow> ('u, error, unit) prog) \<Rightarrow> ('r, 'o, 'p) stream_reader \<times> 'u \<Rightarrow>
   ((error, unit) outcome \<times> ('r, 'o, 'p) stream_reader \<times> 'u) option" where
  "process_typed_unchecked root_unchecked processor =
     process_all (\<lambda>payload. processor (root_unchecked payload))"

definition process_typed_with_payload ::
  "'root from_payload \<Rightarrow> ('root \<Rightarrow> bytes \<Rightarrow> ('u, error, unit) prog) \<Rightarrow>
   ('r, 'o, 'p) stream_reader \<times> 'u \<Rightarrow>
   ((error, unit) outcome \<times> ('r, 'o, 'p) stream_reader \<times> 'u) option" where
  "process_typed_with_payload from_payload processor =
     process_all (\<lambda>payload. bindp (lift_outcome (from_payload payload)) (\<lambda>root. processor root payload))"

text \<open>The iterators borrow the reader; \<^verbatim>\<open>next\<close> is another name of the same step.\<close>

definition next_message :: "(('r, 'o, 'p) stream_reader, error, bytes option) prog" where
  "next_message = read_message"

definition next_typed ::
  "'root from_payload \<Rightarrow> (('r, 'o, 'p) stream_reader, error, 'root option) prog" where
  "next_typed from_payload =
     bindp read_message (\<lambda>got. case got of
         Some payload \<Rightarrow> bindp (lift_outcome (from_payload payload)) (\<lambda>root. ret (Some root))
       | None \<Rightarrow> ret None)"

section \<open>Accessors\<close>

definition buffer_capacity :: "('r, 'o, 'p) stream_reader \<Rightarrow> nat" where
  "buffer_capacity s = vcap (sr_buffer s)"

definition reader_reserve :: "nat \<Rightarrow> ('r, 'o, 'p) stream_reader \<Rightarrow> ('r, 'o, 'p) stream_reader" where
  "reader_reserve additional s = s\<lparr>sr_buffer := vec_reserve (sr_buffer s) additional\<rparr>"

definition reader_into_inner :: "('r, 'o, 'p) stream_reader \<Rightarrow> 'r" where
  "reader_into_inner s = sr_reader s"

text \<open>What a caller does through \<^verbatim>\<open>get_mut\<close> is a change of the underlying reader.\<close>

definition reader_get_ref :: "('r, 'o, 'p) stream_reader \<Rightarrow> 'r" where
  "reader_get_ref s = sr_reader s"

definition reader_get_mut :: "('r \<Rightarrow> 'r) \<Rightarrow> ('r, 'o, 'p) stream_reader \<Rightarrow> ('r, 'o, 'p) stream_reader" where
  "reader_get_mut change s = s\<lparr>sr_reader := change (sr_reader s)\<rparr>"

definition reader_deframer :: "('r, 'o, 'p) stream_reader \<Rightarrow> ('r, 'o) deframer" where
  "reader_deframer s = sr_deframer s"

section \<open>The policy step\<close>

lemma evaluate_keeps [simp]:
  "sr_reader (reader_evaluate_memory_policy n s) = sr_reader s"
  "sr_deframer (reader_evaluate_memory_policy n s) = sr_deframer s"
  "sr_buffer (reader_evaluate_memory_policy n s) = sr_buffer s"
  "sr_world (reader_evaluate_memory_policy n s) = sr_world s"
  "sr_policy (reader_evaluate_memory_policy n s) = None \<longleftrightarrow> sr_policy s = None"
  by (auto simp: reader_evaluate_memory_policy_def Let_def split: option.splits prod.splits)

lemma shrink_keeps [simp]:
  "sr_reader (apply_pending_shrink s) = sr_reader s"
  "sr_deframer (apply_pending_shrink s) = sr_deframer s"
  "sr_world (apply_pending_shrink s) = sr_world s"
  "sr_policy (apply_pending_shrink s) = sr_policy s"
  "sr_pending_shrink (apply_pending_shrink s) = False"
  by (auto simp: apply_pending_shrink_def split: option.splits)

lemma lend_rx_simps [simp]:
  "rx_source (lend_rx s) = sr_reader s" "rx_buffer (lend_rx s) = sr_buffer s"
  "rx_world (lend_rx s) = sr_world s"
  by (simp_all add: lend_rx_def)

lemma give_back_simps [simp]:
  "sr_reader (give_back x s) = rx_source x" "sr_buffer (give_back x s) = rx_buffer x"
  "sr_world (give_back x s) = rx_world x" "sr_deframer (give_back x s) = sr_deframer s"
  "sr_policy (give_back x s) = sr_policy s" "sr_pending_shrink (give_back x s) = sr_pending_shrink s"
  by (simp_all add: give_back_def)

text \<open>The state a read starts from: the scheduled shrink has been applied.\<close>

definition settled :: "('r, 'o, 'p) stream_reader \<Rightarrow> ('r, 'o, 'p) stream_reader" where
  "settled s = (if sr_pending_shrink s then apply_pending_shrink s else s)"

lemma settled_simps [simp]:
  "sr_reader (settled s) = sr_reader s" "sr_deframer (settled s) = sr_deframer s"
  "sr_policy (settled s) = sr_policy s" "sr_world (settled s) = sr_world s"
  "\<not> sr_pending_shrink (settled s)"
  by (simp_all add: settled_def)

text \<open>One read as a case distinction over what the deframer returned.\<close>

lemma read_message_cases:
  "read_message s =
     (case read_and_deframe (sr_deframer s) (lend_rx (settled s)) of
        None \<Rightarrow> None
      | Some (Ok (Some n), x) \<Rightarrow>
          Some (if length (vdata (rx_buffer x)) < n then Panic else Ok (Some (take n (vdata (rx_buffer x)))),
                reader_evaluate_memory_policy n (give_back x (settled s)))
      | Some (Ok None, x) \<Rightarrow> Some (Ok None, give_back x (settled s))
      | Some (Err e, x) \<Rightarrow> Some (Err e, give_back x (settled s))
      | Some (Panic, x) \<Rightarrow> Some (Panic, give_back x (settled s)))"
  by (auto simp: read_message_def settled_def Let_def reader_evaluate_memory_policy_def
      split: option.splits prod.splits outcome.splits)

section \<open>Reading is parsing\<close>

text \<open>The loop over a list of payloads: the outcome, the payloads not handed out, the closure's state.\<close>

fun feed :: "(bytes \<Rightarrow> ('u, error, unit) prog) \<Rightarrow> bytes list \<Rightarrow> 'u \<Rightarrow>
    ((error, unit) outcome \<times> bytes list \<times> 'u) option" where
  "feed f [] u = Some (Ok (), [], u)"
| "feed f (p # ps) u =
     (case f p u of
        None \<Rightarrow> None
      | Some (Ok _, u') \<Rightarrow> feed f ps u'
      | Some (Err e, u') \<Rightarrow> Some (Err e, ps, u')
      | Some (Panic, u') \<Rightarrow> Some (Panic, ps, u'))"

fun stop_outcome :: "scan_end \<Rightarrow> (error, unit) outcome" where
  "stop_outcome Clean = Ok ()"
| "stop_outcome (Stopped e) = Err e"

text \<open>
  \<open>processed\<close>: the closure ran over the payloads of the stream \<open>c\<close> as over a list. If it
  stopped the loop, the reader is left at the first payload it has not been given.
\<close>

definition processed :: "('r \<Rightarrow> bytes) \<Rightarrow> ('r \<Rightarrow> bool) \<Rightarrow> frame_format \<Rightarrow>
    (bytes \<Rightarrow> ('u, error, unit) prog) \<Rightarrow> bytes \<Rightarrow> 'u \<Rightarrow>
    ((error, unit) outcome \<times> ('r, 'o, 'p) stream_reader \<times> 'u) option \<Rightarrow> bool" where
  "processed content healthy fmt f c u result \<longleftrightarrow>
     (case feed f (fst (scan fmt c)) u of
        None \<Rightarrow> result = None
      | Some (out, left, u') \<Rightarrow> \<exists>s'. healthy (sr_reader s') \<and>
          (if out = Ok () then result = Some (stop_outcome (snd (scan fmt c)), s', u')
           else result = Some (out, s', u') \<and> scan fmt (content (sr_reader s')) = (left, snd (scan fmt c))))"

text \<open>\<open>interrupted_by_fault\<close>: a fault of the device ended the loop before a payload, with its error or,
  where its kind is \<^verbatim>\<open>UnexpectedEof\<close>, also as the end of the stream.\<close>

definition interrupted_by_fault :: "(io_error \<Rightarrow> bool) \<Rightarrow> frame_format \<Rightarrow>
    (bytes \<Rightarrow> ('u, error, unit) prog) \<Rightarrow> bytes \<Rightarrow> 'u \<Rightarrow>
    ((error, unit) outcome \<times> ('r, 'o, 'p) stream_reader \<times> 'u) option \<Rightarrow> bool" where
  "interrupted_by_fault fault fmt f c u result \<longleftrightarrow>
     (\<exists>qs e u' s'. prefix qs (fst (scan fmt c)) \<and> feed f qs u = Some (Ok (), [], u') \<and>
        fault e \<and>
        (result = Some (Err (in_frame_error e), s', u') \<or>
         io_kind e = UnexpectedEofKind \<and> result = Some (Ok (), s', u')))"

context fault_reader
begin

lemma read_message_or_fault:
  assumes "sr_deframer s = dfr" and "healthy (sr_reader s)"
  shows "\<exists>out s'. read_message s = Some (out, s') \<and> healthy (sr_reader s') \<and> sr_deframer s' = dfr \<and>
    (faulted rd healthy out \<or>
     (case next_frame fmt (content (sr_reader s)) of
        EndOfStream \<Rightarrow> out = Ok None \<and> content (sr_reader s') = []
      | Frame p rest \<Rightarrow> out = Ok (Some p) \<and> content (sr_reader s') = rest \<and>
          take (length p) (vdata (sr_buffer s')) = p
      | Bad e \<Rightarrow> out = Err e))"
proof -
  from assms(2) have "healthy (rx_source (lend_rx (settled s)))" by simp
  then obtain out x where run: "read_and_deframe dfr (lend_rx (settled s)) = Some (out, x)"
    and ok: "healthy (rx_source x)"
    and res: "faulted rd healthy out \<or>
      deframed content healthy fmt (lend_rx (settled s)) out x" using deframe_or_fault by blast
  from res show ?thesis
  proof
    assume "faulted rd healthy out"
    with run ok assms show ?thesis by (auto simp: read_message_cases faulted_def)
  next
    assume "deframed content healthy fmt (lend_rx (settled s)) out x"
    with run ok assms show ?thesis
      by (cases "next_frame fmt (content (sr_reader s))")
        (simp_all add: read_message_cases deframed_def)
  qed
qed

lemma processed_step:
  assumes "next_frame fmt c = Frame p rest" and "f p u = Some (Ok (), u')"
  shows "processed content healthy fmt f c u = processed content healthy fmt f rest u'"
    and "interrupted_by_fault (device_fault rd healthy) fmt f rest u' result \<Longrightarrow> interrupted_by_fault (device_fault rd healthy) fmt f c u result"
proof -
  show "processed content healthy fmt f c u = processed content healthy fmt f rest u'"
  proof -
    have "feed f (fst (scan fmt c)) u = feed f (fst (scan fmt rest)) u'"
      and "snd (scan fmt c) = snd (scan fmt rest)"
      by (simp_all add: scan_Frame [OF assms(1)] assms(2))
    then show ?thesis by (simp only: processed_def fun_eq_iff simp_thms)
  qed
  assume "interrupted_by_fault (device_fault rd healthy) fmt f rest u' result"
  then obtain qs e v s' where "prefix qs (fst (scan fmt rest))" "feed f qs u' = Some (Ok (), [], v)"
    "device_fault rd healthy e" "result = Some (Err (in_frame_error e), s', v) \<or>
      io_kind e = UnexpectedEofKind \<and> result = Some (Ok (), s', v)" unfolding interrupted_by_fault_def by blast
  then show "interrupted_by_fault (device_fault rd healthy) fmt f c u result"
    unfolding interrupted_by_fault_def
    by (intro exI [of _ "p # qs"] exI [of _ e] exI [of _ v] exI [of _ s'])
      (simp add: scan_Frame [OF assms(1)] assms(2))
qed

lemma process_all_or_fault:
  assumes "sr_deframer s = dfr" and "healthy (sr_reader s)"
  shows "processed content healthy fmt f (content (sr_reader s)) u (process_all f (s, u)) \<or>
    interrupted_by_fault (device_fault rd healthy) fmt f (content (sr_reader s)) u (process_all f (s, u))"
  using assms
proof (induction "length (content (sr_reader s))" arbitrary: s u rule: less_induct)
  case less
  let ?c = "content (sr_reader s)"
  obtain out s1 where run: "read_message s = Some (out, s1)" "healthy (sr_reader s1)" "sr_deframer s1 = dfr"
    and res: "faulted rd healthy out \<or> (case next_frame fmt ?c of
       EndOfStream \<Rightarrow> out = Ok None \<and> content (sr_reader s1) = []
     | Frame p rest \<Rightarrow> out = Ok (Some p) \<and> content (sr_reader s1) = rest \<and>
         take (length p) (vdata (sr_buffer s1)) = p
     | Bad e \<Rightarrow> out = Err e)"
    using read_message_or_fault [OF less.prems] by blast
  note step = process_all.simps [of f "(s, u)"] run(1)
  from res show ?case
  proof
    assume "faulted rd healthy out"
    then obtain e where "device_fault rd healthy e" "process_all f (s, u) = Some (Err (in_frame_error e), s1, u) \<or>
        io_kind e = UnexpectedEofKind \<and> process_all f (s, u) = Some (Ok (), s1, u)"
      by (auto simp: step faulted_def)
    then have "interrupted_by_fault (device_fault rd healthy) fmt f ?c u (process_all f (s, u))"
      unfolding interrupted_by_fault_def
      by (intro exI [of _ "[]"] exI [of _ e] exI [of _ u] exI [of _ s1]) simp
    then show ?thesis ..
  next
    assume nf: "case next_frame fmt ?c of
       EndOfStream \<Rightarrow> out = Ok None \<and> content (sr_reader s1) = []
     | Frame p rest \<Rightarrow> out = Ok (Some p) \<and> content (sr_reader s1) = rest \<and>
         take (length p) (vdata (sr_buffer s1)) = p
     | Bad e \<Rightarrow> out = Err e"
    show ?thesis
    proof (cases "next_frame fmt ?c")
      case EndOfStream
      with nf run show ?thesis by (simp add: step scan_End processed_def)
    next
      case (Bad e)
      with nf run show ?thesis by (simp add: step scan_Bad processed_def)
    next
      case (Frame p rest)
      with nf have out: "out = Ok (Some p)" and rest: "content (sr_reader s1) = rest" by simp_all
      have "length (content (sr_reader s1)) < length ?c"
        using next_frame_FrameD(3) [OF Frame] by (simp add: rest)
      note IH = less.hyps [OF this run(3) run(2), unfolded rest]
      note frame = scan_Frame [OF Frame]
      consider "f p u = None" | u' where "f p u = Some (Ok (), u')" | e u' where "f p u = Some (Err e, u')"
        | u' where "f p u = Some (Panic, u')"
        by (cases "f p u"; cases "the (f p u)"; cases "fst (the (f p u))") auto
      then show ?thesis
      proof cases
        case 1
        then show ?thesis by (simp add: step out processed_def frame)
      next
        case 2
        then have "process_all f (s, u) = process_all f (s1, u')" by (simp add: step out)
        with IH [of u'] processed_step [where f = f, OF Frame 2] show ?thesis by metis
      next
        case 3
        with run rest out show ?thesis by (auto simp: step processed_def frame intro!: exI [of _ s1])
      next
        case 4
        with run rest out show ?thesis by (auto simp: step processed_def frame intro!: exI [of _ s1])
      qed
    qed
  qed
qed

end

context frame_reader
begin

lemma process_all_scan:
  assumes "sr_deframer s = dfr" and "healthy (sr_reader s)"
  shows "processed content healthy fmt f (content (sr_reader s)) u (process_all f (s, u))"
  using process_all_or_fault [OF assms] no_device_fault by (auto simp: interrupted_by_fault_def)

end

section \<open>The buffer under a policy\<close>

text \<open>
  What a reader keeps: a shrink is pending only under an installed policy and only while the buffer's
  capacity is above that policy's baseline, and the buffer is a well-formed vector.
\<close>

definition reader_ok :: "('r, 'o, 'p) stream_reader \<Rightarrow> bool" where
  "reader_ok s \<longleftrightarrow> vec_ok (sr_buffer s) \<and>
     (sr_pending_shrink s \<longrightarrow>
        (\<exists>slot. sr_policy s = Some slot \<and> slot_baseline_capacity slot < vcap (sr_buffer s)))"

lemma reader_ok_constructors:
  "reader_ok (reader_new r d w)" "reader_ok (reader_with_capacity r d n w)"
  "reader_ok s \<Longrightarrow> \<not> sr_pending_shrink s \<Longrightarrow> reader_ok (reader_with_memory_policy s ops p)"
  "reader_ok s \<Longrightarrow> reader_ok (reader_reserve n s)"
  "reader_ok s \<Longrightarrow> reader_ok (reader_get_mut g s)"
  by (auto simp: reader_ok_def reader_new_def reader_with_capacity_def reader_with_memory_policy_def
      reader_reserve_def reader_get_mut_def vec_ok_reserve intro: less_le_trans [OF _ vcap_vec_reserve_mono])

lemma vec_ok_settled: "vec_ok (sr_buffer s) \<Longrightarrow> vec_ok (sr_buffer (settled s))"
  by (auto simp: settled_def apply_pending_shrink_def split: option.splits)

text \<open>The buffer a scheduled shrink leaves for the next read is empty, at the policy's baseline.\<close>

lemma settled_shrunk:
  assumes "sr_pending_shrink s" and "sr_policy s = Some slot"
  shows "sr_buffer (settled s) = vec_with_capacity (slot_baseline_capacity slot)"
  using assms by (simp add: settled_def apply_pending_shrink_def)

text \<open>
  A message is always still in the buffer when it is handed out: the policy step between the
  deframer and the return only schedules.
\<close>

lemma read_message_payload:
  assumes "read_message s = Some (Ok (Some p), s')"
  shows "take (length p) (vdata (sr_buffer s')) = p" and "length p \<le> length (vdata (sr_buffer s'))"
    and "\<exists>x. read_and_deframe (sr_deframer s) (lend_rx (settled s)) = Some (Ok (Some (length p)), x) \<and>
       sr_buffer s' = rx_buffer x \<and> s' = reader_evaluate_memory_policy (length p) (give_back x (settled s))"
  using assms by (auto simp: read_message_cases split: option.splits outcome.splits if_splits)

lemma read_message_buffer_step:
  assumes "bounded_prog limit (read_and_deframe (sr_deframer s))" and "read_message s = Some (out, s')"
  shows "buffer_step limit (sr_buffer (settled s)) (sr_buffer s')"
  using assms
  by (auto simp: read_message_cases bounded_prog_def dest!: spec [of _ "lend_rx (settled s)"]
      split: option.splits outcome.splits if_splits)

lemma read_message_sized:
  assumes "sized_prog (read_and_deframe (sr_deframer s))" and "vec_ok (sr_buffer (settled s))"
    and "read_message s = Some (Ok (Some p), s')"
  shows "sized (sr_buffer (settled s)) (length p) (sr_buffer s')"
  using read_message_payload(3) [OF assms(3)] sized_progD [OF assms(1), of "lend_rx (settled s)"] assms(2) by auto

text \<open>What a consultation of the policy leaves alone.\<close>

lemma evaluate_keeps_baseline:
  assumes "sr_policy s = Some slot"
  shows "\<exists>slot'. sr_policy (reader_evaluate_memory_policy n s) = Some slot' \<and>
    slot_baseline_capacity slot' = slot_baseline_capacity slot \<and> slot_policy_ops slot' = slot_policy_ops slot"
  using assms
  by (auto simp: reader_evaluate_memory_policy_def Let_def split: option.splits prod.splits)

text \<open>The policy step, written out over the policy it finds.\<close>

lemma evaluate_cases:
  assumes "\<not> sr_pending_shrink s"
    and "s' = reader_evaluate_memory_policy n s"
  shows "case sr_policy s of
      None \<Rightarrow> \<not> sr_pending_shrink s' \<and> sr_policy s' = None
    | Some slot \<Rightarrow>
        if slot_baseline_capacity slot < vcap (sr_buffer s)
        then (case should_reset (slot_policy_ops slot) (slot_policy slot) n (vcap (sr_buffer s)) of
            (None, q) \<Rightarrow> \<not> sr_pending_shrink s' \<and> sr_policy s' = Some (slot\<lparr>slot_policy := q\<rparr>)
          | (Some reason, q) \<Rightarrow> sr_pending_shrink s' \<and>
              sr_policy s' = Some (slot\<lparr>slot_policy := on_reclaim (slot_policy_ops slot) q
                \<lparr>ri_reason = reason, ri_last_message_size = n, ri_capacity_before = vcap (sr_buffer s),
                 ri_capacity_after = slot_baseline_capacity slot\<rparr>\<rparr>))
        else \<not> sr_pending_shrink s' \<and> sr_policy s' = Some slot"
  using assms
  by (auto simp: reader_evaluate_memory_policy_def Let_def split: option.split prod.split)

lemma read_message_outcomes:
  assumes "library_deframer rd fmt (sr_deframer s)" and "vec_ok (sr_buffer s)" and "read_message s = Some (out, s')"
  obtains (message) p x where "out = Ok (Some p)" "sr_buffer s' = rx_buffer x"
      "s' = reader_evaluate_memory_policy (length p) (give_back x (settled s))"
    | (other) x where "\<forall>p. out \<noteq> Ok (Some p)" "s' = give_back x (settled s)"
proof -
  obtain o1 x where dfr: "read_and_deframe (sr_deframer s) (lend_rx (settled s)) = Some (o1, x)"
    using assms(3) by (auto simp: read_message_cases split: option.splits)
  have "n \<le> length (vdata (rx_buffer x))" if "o1 = Ok (Some n)" for n
    using sized_progD [OF library_deframer_sized [OF assms(1)] _ dfr [unfolded that]] vec_ok_settled [OF assms(2)]
    by (simp add: sized_def)
  with that dfr assms(3) show thesis
    by (cases o1) (fastforce simp: read_message_cases split: option.splits)+
qed

lemma feed_append:
  "feed f (ps @ qs) u =
     (case feed f ps u of
        None \<Rightarrow> None
      | Some (Ok _, _, u') \<Rightarrow> feed f qs u'
      | Some (Err e, left, u') \<Rightarrow> Some (Err e, left @ qs, u')
      | Some (Panic, left, u') \<Rightarrow> Some (Panic, left @ qs, u'))"
  by (induction ps arbitrary: u) (auto split: option.splits prod.splits outcome.splits)

lemma feed_decoded:
  "(\<And>p. p \<in> set ps \<Longrightarrow> decode p = Ok (root p)) \<Longrightarrow>
     feed (\<lambda>p. bindp (lift_outcome (decode p)) g) ps u = feed (\<lambda>p. g (root p)) ps u"
  by (induction ps arbitrary: u) (auto simp: prog_simps split: option.splits prod.splits outcome.splits)

section \<open>Samples\<close>

text \<open>A reader over two frames whose policy reclaims at every consultation.\<close>

definition eager_policy :: "unit memory_policy" where
  "eager_policy = \<lparr>should_reset = (\<lambda>p m c. (Some MessageCount, p)), on_reclaim = on_reclaim_default,
     baseline_capacity = (\<lambda>_. 4)\<rparr>"

definition sample_reader :: "(cursor, unit, unit) stream_reader" where
  "sample_reader = reader_with_memory_policy
     (reader_with_capacity (cursor_new [1, 0, 0, 0, 9, 2, 0, 0, 0, 8, 7])
        (DefaultDeframer cursor_read \<lparr>dd_max_frame_len = 16\<rparr>) 12 ()) eager_policy ()"

definition sample_reader1 :: "(cursor, unit, unit) stream_reader" where
  "sample_reader1 = snd (the (read_message sample_reader))"

lemma sample_reader_fields:
  "sr_deframer sample_reader = DefaultDeframer cursor_read \<lparr>dd_max_frame_len = 16\<rparr>"
  "cursor_rest (sr_reader sample_reader) = [1, 0, 0, 0, 9, 2, 0, 0, 0, 8, 7]"
  "reader_ok sample_reader"
  "sr_policy sample_reader = Some \<lparr>slot_policy_ops = eager_policy, slot_policy = (), slot_baseline_capacity = 4\<rparr>"
  by (simp_all add: sample_reader_def reader_with_memory_policy_def reader_with_capacity_def reader_ok_def
      eager_policy_def)

lemma sample_library: "library_deframer cursor_read (plain_format 16) (sr_deframer sample_reader)"
  using plain_deframer [of cursor_read "\<lparr>dd_max_frame_len = 16\<rparr>"] by (simp add: sample_reader_fields)

lemma sample_read: "read_message sample_reader = Some (Ok (Some [9]), sample_reader1)"
proof -
  have "fst (the (read_message sample_reader)) = Ok (Some [9])" "read_message sample_reader \<noteq> None" by code_simp+
  then show ?thesis by (auto simp: sample_reader1_def)
qed

lemma sample_stream: "scan (plain_format 16) [1, 0, 0, 0, 9, 2, 0, 0, 0, 8, 7] = ([[9], [8, 7]], Clean)"
  by code_simp

definition collect :: "bytes \<Rightarrow> (bytes list, error, unit) prog" where
  "collect p u = Some (Ok (), u @ [p])"

section \<open>Properties\<close>

text \<open>C5: Processing a stream is folding the closure over its payloads. On a reliable reader, with any
  stack of the library's deframers, the closure gets exactly the payloads the stream parses to, in
  order; when it accepts them all the result is the end of the stream or the defect that ended it;
  when it stops, its own outcome is returned and the reader is left at the payload after the one it
  stopped on.\<close>

theorem process_all_folds_stream:
  assumes "library_deframer rd fmt (sr_deframer s)" and "reliable_source rd content patience healthy"
    and "healthy (sr_reader s)"
  shows "case feed f (fst (scan fmt (content (sr_reader s)))) u of
      None \<Rightarrow> process_all f (s, u) = None
    | Some (out, left, u') \<Rightarrow> \<exists>s'. healthy (sr_reader s') \<and>
        (if out = Ok ()
         then process_all f (s, u) = Some (stop_outcome (snd (scan fmt (content (sr_reader s)))), s', u')
         else process_all f (s, u) = Some (out, s', u') \<and>
           scan fmt (content (sr_reader s')) = (left, snd (scan fmt (content (sr_reader s)))))"
  using frame_reader.process_all_scan [OF library_deframer_contract [OF assms(1,2)] refl assms(3), of f u]
  unfolding processed_def .

theorem process_all_folds_stream_witness:
  "\<exists>s'. process_all collect (sample_reader, []) = Some (Ok (), s', [[9], [8, 7]])"
  using process_all_folds_stream [OF sample_library cursor_source.reliable_source_axioms TrueI, of collect "[]"]
  by (auto simp: sample_reader_fields sample_stream collect_def)

text \<open>C13: On a reader that may fail in any way, the loop does what it does without faults, or the closure
  has accepted a prefix of the payloads, in order, when a fault of the device ends the loop: with that
  fault as its I/O error, unless the device itself reports it with the kind \<^verbatim>\<open>UnexpectedEof\<close>; such a fault,
  and no other, is taken for the end of the bytes, as the clean end of the stream or as a torn frame. No
  fault makes a payload appear, change or repeat.\<close>

theorem process_all_under_faults:
  assumes "library_deframer rd fmt (sr_deframer s)" and "byte_source rd content patience healthy"
    and "healthy (sr_reader s)"
  shows "processed content healthy fmt f (content (sr_reader s)) u (process_all f (s, u)) \<or>
    (\<exists>qs e out u' s'. prefix qs (fst (scan fmt (content (sr_reader s)))) \<and> feed f qs u = Some (Ok (), [], u') \<and>
       device_fault rd healthy e \<and> process_all f (s, u) = Some (out, s', u') \<and>
       (if io_kind e = UnexpectedEofKind then out = Ok () \<or> out = Err unexpected_eof
        else out = Err (error_of_io e)))"
proof -
  from fault_reader.process_all_or_fault [OF library_deframer_or_fault [OF assms(1,2)] refl assms(3), of f u]
  show ?thesis
  proof
    assume "interrupted_by_fault (device_fault rd healthy) fmt f (content (sr_reader s)) u (process_all f (s, u))"
    then obtain qs e u' s' where "prefix qs (fst (scan fmt (content (sr_reader s))))" "feed f qs u = Some (Ok (), [], u')"
      "device_fault rd healthy e" "process_all f (s, u) = Some (Err (in_frame_error e), s', u') \<or>
         io_kind e = UnexpectedEofKind \<and> process_all f (s, u) = Some (Ok (), s', u')"
      unfolding interrupted_by_fault_def by blast
    then show ?thesis
      by (intro disjI2 exI [of _ qs] exI [of _ e]
          exI [of _ "if process_all f (s, u) = Some (Ok (), s', u') then Ok () else Err (in_frame_error e)"]
          exI [of _ u'] exI [of _ s']) auto
  qed simp
qed

text \<open>The device fails inside the second frame, or behind the first.\<close>

definition failing_reader :: "nat \<Rightarrow> io_error \<Rightarrow> (cursor, unit, unit) stream_reader" where
  "failing_reader k e = reader_new (cursor_new [1, 0, 0, 0, 9, 2, 0, 0, 0, 8, 7])
     (DefaultDeframer (failing_read k e) \<lparr>dd_max_frame_len = 16\<rparr>) ()"

lemma failing_reader_run:
  "map_option (\<lambda>(out, s', u). (out, u)) (process_all collect (failing_reader 7 disk_error, [])) =
     Some (Err (error_of_io disk_error), [[9]])"
  "map_option (\<lambda>(out, s', u). (out, u)) (process_all collect (failing_reader 5 eof_kind_error, [])) = Some (Ok (), [[9]])"
  by code_simp+

theorem process_all_under_faults_witness:
  "(\<exists>qs s'. prefix qs [[9], [8, 7]] \<and> feed collect qs [] = Some (Ok (), [], [[9]]) \<and>
      process_all collect (failing_reader 7 disk_error, []) = Some (Err (error_of_io disk_error), s', [[9]])) \<and>
   (\<exists>qs s'. prefix qs [[9], [8, 7]] \<and> feed collect qs [] = Some (Ok (), [], [[9]]) \<and>
      process_all collect (failing_reader 5 eof_kind_error, []) = Some (Ok (), s', [[9]]))"
proof -
  have lib: "library_deframer (failing_read k e) (plain_format 16) (sr_deframer (failing_reader k e))" for k e
    using plain_deframer [of "failing_read k e" "\<lparr>dd_max_frame_len = 16\<rparr>"] by (simp add: failing_reader_def reader_new_def)
  have rest: "cursor_rest (sr_reader (failing_reader k e)) = [1, 0, 0, 0, 9, 2, 0, 0, 0, 8, 7]" for k e
    by (simp add: failing_reader_def reader_new_def)
  have kinds: "io_kind disk_error \<noteq> Interrupted" "io_kind eof_kind_error \<noteq> Interrupted"
    by (simp_all add: disk_error_def eof_kind_error_def)
  have scan: "scan (plain_format 16) [1, 0, 0, 0, 9, 2, 0, 0, 0, 8, 7] = ([[9], [8, 7]], Clean)" by (rule sample_stream)
  have run: "feed collect [[9], [8, 7]] [] = Some (Ok (), [], [[9], [8, 7]])" by (simp add: collect_def)
  note law = process_all_under_faults [OF lib failing_source TrueI, where f = collect and u = "[]",
      unfolded rest scan fst_conv snd_conv processed_def run]
  from law [OF kinds(1), of 7] law [OF kinds(2), of 5] failing_reader_run show ?thesis by auto
qed

text \<open>A memory policy is invisible in the results: two readers over the same content, with deframers
  of the same format, give the closure the same payloads and return the same outcome, whatever their
  policies, buffers and scheduled shrinks.\<close>

lemma reader_policy_is_invisible:
  assumes "library_deframer rd fmt (sr_deframer s1)" and "library_deframer rd fmt (sr_deframer s2)"
    and "reliable_source rd content patience healthy"
    and "healthy (sr_reader s1)" and "healthy (sr_reader s2)"
    and "content (sr_reader s1) = content (sr_reader s2)"
  shows "map_option (\<lambda>(out, s', u'). (out, u')) (process_all f (s1, u)) =
    map_option (\<lambda>(out, s', u'). (out, u')) (process_all f (s2, u))"
  using frame_reader.process_all_scan [OF library_deframer_contract [OF assms(1,3)] refl assms(4), of f u]
    frame_reader.process_all_scan [OF library_deframer_contract [OF assms(2,3)] refl assms(5), of f u] assms(6)
  by (auto simp: processed_def split: option.splits if_splits)

lemma reader_policy_is_invisible_witness:
  "map_option (\<lambda>(out, s', u'). (out, u')) (process_all collect (sample_reader, [])) =
   map_option (\<lambda>(out, s', u'). (out, u')) (process_all collect
     (reader_new (cursor_new [1, 0, 0, 0, 9, 2, 0, 0, 0, 8, 7]) (sr_deframer sample_reader) ()
        :: (cursor, unit, unit) stream_reader, []))"
  by (rule reader_policy_is_invisible [OF sample_library _ cursor_source.reliable_source_axioms])
    (use sample_library in \<open>simp_all add: reader_new_def sample_reader_fields\<close>)

text \<open>C34: A typed loop hands out the roots of the payloads before the first one that does not decode,
  returns the decoding error, and leaves the reader after the offending payload.\<close>

theorem typed_loop_stops_at_first_undecodable:
  assumes "library_deframer rd fmt (sr_deframer s)" and "reliable_source rd content patience healthy"
    and "healthy (sr_reader s)" and "scan fmt (content (sr_reader s)) = (ps @ q # rs, stop)"
    and "\<And>p. p \<in> set ps \<Longrightarrow> decode p = Ok (root p)" and "decode q = Err e"
    and "feed (\<lambda>p. g (root p)) ps u = Some (Ok (), [], u')"
  shows "\<exists>s'. process_typed decode g (s, u) = Some (Err e, s', u') \<and>
    scan fmt (content (sr_reader s')) = (rs, stop)"
proof -
  have "feed (\<lambda>p. bindp (lift_outcome (decode p)) g) (ps @ q # rs) u = Some (Err e, rs, u')"
    using feed_decoded [of ps decode root g u] assms(5-7) by (simp add: feed_append prog_simps)
  with frame_reader.process_all_scan [OF library_deframer_contract [OF assms(1,2)] refl assms(3),
      of "\<lambda>p. bindp (lift_outcome (decode p)) g" u] assms(4)
  show ?thesis by (auto simp: processed_def process_typed_def)
qed

theorem typed_loop_stops_at_first_undecodable_witness:
  "\<exists>s'. process_typed (\<lambda>p. if length p = 1 then Ok (hd p) else Err (error_of_flatbuffer ''short''))
      (\<lambda>b u. Some (Ok (), u @ [b])) (sample_reader, []) = Some (Err (error_of_flatbuffer ''short''), s', [9])"
  using typed_loop_stops_at_first_undecodable [OF sample_library cursor_source.reliable_source_axioms TrueI,
      of "[[9]]" "[8, 7]" "[]" Clean "\<lambda>p. if length p = 1 then Ok (hd p) else Err (error_of_flatbuffer ''short'')"
      hd "error_of_flatbuffer ''short''" "\<lambda>b u. Some (Ok (), u @ [b])" "[]" "[9]"]
  by (auto simp: sample_reader_fields sample_stream)

text \<open>C17: A payload that has been handed out is never invalidated by the policy: it is still at the
  front of the buffer after the policy step, and a verdict to reclaim only schedules the shrink.\<close>

theorem policy_never_invalidates_payload:
  assumes "library_deframer rd fmt (sr_deframer s)" and "read_message s = Some (Ok (Some p), s')"
  shows "take (length p) (vdata (sr_buffer s')) = p \<and>
    (\<exists>x. read_and_deframe (sr_deframer s) (lend_rx (settled s)) = Some (Ok (Some (length p)), x) \<and>
      sr_buffer s' = rx_buffer x) \<and>
    length (vdata (sr_buffer (settled s))) \<le> length (vdata (sr_buffer s'))"
  using read_message_payload [OF assms(2)] read_message_buffer_step [OF library_deframer_bounded(1) [OF assms(1)] assms(2)]
  by (auto simp: buffer_step_def)

theorem policy_never_invalidates_payload_witness:
  "take 1 (vdata (sr_buffer sample_reader1)) = [9] \<and> sr_pending_shrink sample_reader1"
proof -
  have "sr_pending_shrink sample_reader1" by code_simp
  with policy_never_invalidates_payload [OF sample_library sample_read] show ?thesis by simp
qed

text \<open>C18: After a verdict to reclaim, the next read runs its deframer on an empty buffer at the policy's
  baseline, whatever the buffer held before. When it hands out a message, that message is all the buffer
  holds, and its capacity is the baseline if the message fits there, and otherwise what growing from the
  baseline to that message takes.\<close>

theorem reclaim_returns_to_baseline:
  assumes "library_deframer rd fmt (sr_deframer s)" and "sr_pending_shrink s" and "sr_policy s = Some slot"
    and "read_message s = Some (Ok (Some p), s')"
  shows "vdata (sr_buffer s') = p \<and>
    vcap (sr_buffer s') =
      (if length p \<le> slot_baseline_capacity slot then slot_baseline_capacity slot
       else grow_amortized (slot_baseline_capacity slot) (length p)) \<and>
    (\<exists>x. read_and_deframe (sr_deframer s) \<lparr>rx_source = sr_reader s,
         rx_buffer = \<lparr>vdata = [], vcap = slot_baseline_capacity slot\<rparr>, rx_world = sr_world s\<rparr> =
       Some (Ok (Some (length p)), x) \<and> sr_reader s' = rx_source x \<and> sr_buffer s' = rx_buffer x)"
proof -
  have start: "sr_buffer (settled s) = \<lparr>vdata = [], vcap = slot_baseline_capacity slot\<rparr>"
    by (simp add: settled_shrunk [OF assms(2,3)] vec_with_capacity_def)
  then have sized: "sized \<lparr>vdata = [], vcap = slot_baseline_capacity slot\<rparr> (length p) (sr_buffer s')"
    using read_message_sized [OF library_deframer_sized [OF assms(1)] _ assms(4)] by (simp add: vec_ok_def)
  then have "vdata (sr_buffer s') = p"
    using read_message_payload(1) [OF assms(4)] by (simp add: sized_def)
  moreover have "lend_rx (settled s) = \<lparr>rx_source = sr_reader s,
      rx_buffer = \<lparr>vdata = [], vcap = slot_baseline_capacity slot\<rparr>, rx_world = sr_world s\<rparr>"
    by (simp add: lend_rx_def start)
  ultimately show ?thesis
    using sized read_message_payload(3) [OF assms(4)] by (auto simp: sized_def cap_for_def)
qed

theorem reclaim_returns_to_baseline_witness:
  "\<exists>s'. read_message sample_reader1 = Some (Ok (Some [8, 7]), s') \<and>
    vdata (sr_buffer s') = [8, 7] \<and> vcap (sr_buffer s') = 4"
proof -
  let ?s2 = "snd (the (read_message sample_reader1))"
  have "fst (the (read_message sample_reader1)) = Ok (Some [8, 7])" "read_message sample_reader1 \<noteq> None" by code_simp+
  then have run: "read_message sample_reader1 = Some (Ok (Some [8, 7]), ?s2)" by auto
  have pending: "sr_pending_shrink sample_reader1" by code_simp
  obtain x where x: "sample_reader1 = reader_evaluate_memory_policy 1 (give_back x (settled sample_reader))"
    using read_message_payload(3) [OF sample_read] by auto
  have deframer: "sr_deframer sample_reader1 = sr_deframer sample_reader" by (subst x) simp
  obtain slot where slot: "sr_policy sample_reader1 = Some slot" "slot_baseline_capacity slot = 4"
    using evaluate_keeps_baseline [of "give_back x (settled sample_reader)", where n = 1, folded x]
    by (auto simp: sample_reader_fields)
  from reclaim_returns_to_baseline [OF sample_library [folded deframer] pending slot(1) run] slot(2) run
  show ?thesis by auto
qed

text \<open>C19: Every read, on every reader and with every outcome, keeps the reader's invariant - a shrink is
  pending only under an installed policy whose baseline the buffer's capacity exceeds, and the buffer is
  well formed - and does to the policy exactly this: if a message is handed out and the capacity is above
  the baseline, the policy is consulted once, with the message's length and that capacity; a verdict
  schedules the shrink and is reported to the policy with these numbers. After anything else nothing is
  pending any more and the policy is as it was. The capacity never exceeds the larger of the one the read
  started from, which is the baseline where a shrink was pending, and what holding the frame limit takes.\<close>

theorem read_message_keeps_invariant:
  assumes "library_deframer rd fmt (sr_deframer s)" and "reader_ok s" and "read_message s = Some (out, s')"
  shows "reader_ok s' \<and>
    (case (out, sr_policy s) of
       (Ok (Some p), Some slot) \<Rightarrow>
         (if slot_baseline_capacity slot < vcap (sr_buffer s')
          then (case should_reset (slot_policy_ops slot) (slot_policy slot) (length p) (vcap (sr_buffer s')) of
              (None, q) \<Rightarrow> \<not> sr_pending_shrink s' \<and> sr_policy s' = Some (slot\<lparr>slot_policy := q\<rparr>)
            | (Some reason, q) \<Rightarrow> sr_pending_shrink s' \<and>
                sr_policy s' = Some (slot\<lparr>slot_policy := on_reclaim (slot_policy_ops slot) q
                  \<lparr>ri_reason = reason, ri_last_message_size = length p, ri_capacity_before = vcap (sr_buffer s'),
                   ri_capacity_after = slot_baseline_capacity slot\<rparr>\<rparr>))
          else \<not> sr_pending_shrink s' \<and> sr_policy s' = Some slot)
     | _ \<Rightarrow> \<not> sr_pending_shrink s' \<and> sr_policy s' = sr_policy s) \<and>
    vcap (sr_buffer s') \<le> max (case sr_policy s of
        Some slot \<Rightarrow> if sr_pending_shrink s then slot_baseline_capacity slot else vcap (sr_buffer s)
      | None \<Rightarrow> vcap (sr_buffer s)) (max 8 (2 * ff_max fmt))"
    (is "_ \<and> ?policy \<and> _")
proof -
  have ok: "vec_ok (sr_buffer s)" using assms(2) by (simp add: reader_ok_def)
  have step: "buffer_step (ff_max fmt) (sr_buffer (settled s)) (sr_buffer s')"
    by (rule read_message_buffer_step [OF library_deframer_bounded(1) [OF assms(1)] assms(3)])
  then have vec: "vec_ok (sr_buffer s')" using vec_ok_settled [OF ok] by (simp add: buffer_step_def)
  have policy: ?policy
    using assms(1) ok assms(3)
  proof (cases rule: read_message_outcomes)
    case (message p x)
    with evaluate_cases [of "give_back x (settled s)" s' "length p"] show ?thesis
      by (auto split: option.splits)
  next
    case (other x)
    then show ?thesis by (auto split: outcome.split option.split)
  qed
  moreover have "reader_ok s'"
  proof (cases "sr_pending_shrink s'")
    case True
    with policy obtain p slot where pending: "out = Ok (Some p)" "sr_policy s = Some slot"
      by (cases out; cases "sr_policy s") (auto split: option.splits)
    obtain v q where "should_reset (slot_policy_ops slot) (slot_policy slot) (length p) (vcap (sr_buffer s')) = (v, q)"
      by fastforce
    with policy pending True vec show ?thesis
      by (cases v) (auto simp: reader_ok_def split: if_splits)
  qed (simp add: reader_ok_def vec)
  moreover have "vcap (sr_buffer (settled s)) = (case sr_policy s of
        Some slot \<Rightarrow> if sr_pending_shrink s then slot_baseline_capacity slot else vcap (sr_buffer s)
      | None \<Rightarrow> vcap (sr_buffer s))"
    by (auto simp: settled_def apply_pending_shrink_def vec_with_capacity_def split: option.split)
  ultimately show ?thesis using step by (simp add: buffer_step_def)
qed

theorem read_message_keeps_invariant_witness:
  "reader_ok sample_reader1 \<and> sr_pending_shrink sample_reader1 \<and> vcap (sr_buffer sample_reader1) = 12 \<and>
   (\<exists>s2. read_message sample_reader1 = Some (Ok (Some [8, 7]), s2) \<and> reader_ok s2 \<and> \<not> sr_pending_shrink s2)"
proof -
  let ?s2 = "snd (the (read_message sample_reader1))"
  have "fst (the (read_message sample_reader1)) = Ok (Some [8, 7])" "read_message sample_reader1 \<noteq> None" by code_simp+
  then have run: "read_message sample_reader1 = Some (Ok (Some [8, 7]), ?s2)" by auto
  have cap: "vcap (sr_buffer sample_reader1) = 12" "vcap (sr_buffer ?s2) = 4" by code_simp+
  obtain x where x: "sample_reader1 = reader_evaluate_memory_policy 1 (give_back x (settled sample_reader))"
    using read_message_payload(3) [OF sample_read] by auto
  have same: "sr_deframer sample_reader1 = sr_deframer sample_reader" by (subst x) simp
  note first = read_message_keeps_invariant [OF sample_library sample_reader_fields(3) sample_read]
  have slot: "\<exists>q. sr_policy sample_reader1 = Some \<lparr>slot_policy_ops = eager_policy, slot_policy = q, slot_baseline_capacity = 4\<rparr>"
    and now: "reader_ok sample_reader1" "sr_pending_shrink sample_reader1"
    using first cap by (auto simp: sample_reader_fields eager_policy_def)
  from read_message_keeps_invariant [OF sample_library [folded same] now(1) run] slot cap now run
  show ?thesis by auto
qed

end
