(* ===== verification/FS_Faults.thy ===== *)
theory FS_Faults
  imports FS_Std_IO
begin

text \<open>
  The fault injector of \<^verbatim>\<open>tests/harness/faulty_reader.rs\<close>: a reader that delivers one byte at
  a time, interrupts every \<open>n\<close>-th call, or ends early. The first two are reliable sources over
  a reliable one, so what is proved of reliable sources covers them; an injector that
  interrupts every call is where \<^verbatim>\<open>read_exact\<close> never returns.
\<close>

section \<open>The injector\<close>

datatype fault_mode =
    OneByteChunks
  | InterruptedEvery nat
  | PrematureEofAt nat

record 'r faulty_reader =
  fr_inner :: 'r
  fr_mode :: fault_mode
  fr_counter :: nat

definition faulty_reader_new :: "'r \<Rightarrow> fault_mode \<Rightarrow> 'r faulty_reader" where
  "faulty_reader_new inner mode = \<lparr>fr_inner = inner, fr_mode = mode, fr_counter = 0\<rparr>"

definition interrupted_error :: io_error where
  "interrupted_error = IoError Interrupted ''operation interrupted''"

definition delegate_read :: "'r read_op \<Rightarrow> 'r faulty_reader read_op" where
  "delegate_read rd f n = (let (out, r') = rd (fr_inner f) n in (out, f\<lparr>fr_inner := r'\<rparr>))"

text \<open>
  \<^verbatim>\<open>buf[0] = tmp[0]\<close> panics on an empty buffer, and the last arm of the chunked mode is
  \<^verbatim>\<open>unreachable!\<close>.
\<close>

definition faulty_read :: "'r read_op \<Rightarrow> 'r faulty_reader read_op" where
  "faulty_read rd f0 n =
     (let f = f0\<lparr>fr_counter := fr_counter f0 + 1\<rparr> in
      case fr_mode f of
        OneByteChunks \<Rightarrow>
          (case delegate_read rd f 1 of
             (Ok [], f') \<Rightarrow> (Ok [], f')
           | (Ok [b], f') \<Rightarrow> (if n = 0 then (Panic, f') else (Ok [b], f'))
           | (Ok _, f') \<Rightarrow> (Panic, f')
           | (Err e, f') \<Rightarrow> (Err e, f')
           | (Panic, f') \<Rightarrow> (Panic, f'))
      | InterruptedEvery k \<Rightarrow>
          (if k \<noteq> 0 \<and> k dvd fr_counter f then (Err interrupted_error, f) else delegate_read rd f n)
      | PrematureEofAt k \<Rightarrow>
          (if k \<le> fr_counter f then (Ok [], f) else delegate_read rd f n))"

section \<open>Short reads and interruptions are harmless\<close>

definition harmless :: "fault_mode \<Rightarrow> bool" where
  "harmless mode = (case mode of OneByteChunks \<Rightarrow> True | InterruptedEvery k \<Rightarrow> k \<noteq> 1 | PrematureEofAt _ \<Rightarrow> False)"

definition faulty_patience :: "('r \<Rightarrow> nat) \<Rightarrow> 'r faulty_reader \<Rightarrow> nat" where
  "faulty_patience patience f = 2 * patience (fr_inner f) +
     (case fr_mode f of InterruptedEvery k \<Rightarrow> (if k \<noteq> 0 \<and> k dvd fr_counter f + 1 then 1 else 0) | _ \<Rightarrow> 0)"

lemma not_both_divisible: "k \<noteq> (1 :: nat) \<Longrightarrow> k dvd m \<Longrightarrow> \<not> k dvd Suc m"
  by (metis Suc_eq_plus1 dvd_add_right_iff nat_dvd_1_iff_1)

context reliable_source
begin

lemma faulty_step:
  assumes "healthy (fr_inner f)" and "harmless (fr_mode f)" and "0 < n" and "faulty_read rd f n = (out, f')"
  shows "healthy (fr_inner f') \<and> fr_mode f' = fr_mode f \<and>
    (case out of
       Ok bs \<Rightarrow> content (fr_inner f) = bs @ content (fr_inner f') \<and> length bs \<le> n \<and>
         (bs = [] \<longrightarrow> content (fr_inner f) = [])
     | Err e \<Rightarrow> content (fr_inner f') = content (fr_inner f) \<and> io_kind e = Interrupted \<and>
         faulty_patience patience f' < faulty_patience patience f
     | Panic \<Rightarrow> False)"
proof -
  obtain out1 r1 where rd1: "rd (fr_inner f) 1 = (out1, r1)" by (cases "rd (fr_inner f) 1")
  obtain outn rn where rdn: "rd (fr_inner f) n = (outn, rn)" by (cases "rd (fr_inner f) n")
  note r = rd1 [unfolded One_nat_def] rdn faulty_read_def delegate_read_def Let_def
  show ?thesis
  proof (cases "fr_mode f")
    case OneByteChunks
    show ?thesis
    proof (cases out1)
      case (Ok bs)
      with read_Ok [OF assms(1) _ rd1 [unfolded Ok]] assms OneByteChunks show ?thesis
        by (auto simp: r split: list.splits)
    next
      case (Err e)
      with read_Err [OF assms(1) _ rd1 [unfolded Err]] only_interrupted [OF assms(1) _ rd1 [unfolded Err]]
        assms OneByteChunks show ?thesis
        by (auto simp: r faulty_patience_def)
    next
      case Panic
      with read_not_Panic [OF assms(1)] rd1 show ?thesis by (metis zero_less_one)
    qed
  next
    case (InterruptedEvery k)
    show ?thesis
    proof (cases "k \<noteq> 0 \<and> k dvd fr_counter f + 1")
      case True
      with InterruptedEvery assms not_both_divisible [of k "fr_counter f + 1"] show ?thesis
        by (auto simp: r faulty_patience_def interrupted_error_def harmless_def)
    next
      case calm: False
      show ?thesis
      proof (cases outn)
        case (Ok bs)
        with read_Ok [OF assms(1,3) rdn [unfolded Ok]] assms InterruptedEvery calm show ?thesis
          by (auto simp: r)
      next
        case (Err e)
        with read_Err [OF assms(1,3) rdn [unfolded Err]] only_interrupted [OF assms(1,3) rdn [unfolded Err]]
          assms InterruptedEvery calm show ?thesis
          by (auto simp: r faulty_patience_def)
      next
        case Panic
        with read_not_Panic [OF assms(1,3)] rdn show ?thesis by blast
      qed
    qed
  next
    case (PrematureEofAt k)
    with assms(2) show ?thesis by (simp add: harmless_def)
  qed
qed

lemma faulty_reliable:
  "reliable_source (faulty_read rd) (\<lambda>f. content (fr_inner f)) (faulty_patience patience)
     (\<lambda>f. healthy (fr_inner f) \<and> harmless (fr_mode f))"
proof unfold_locales
  fix f f' :: "'r faulty_reader" and n bs
  assume "healthy (fr_inner f) \<and> harmless (fr_mode f)" "0 < (n :: nat)" "faulty_read rd f n = (Ok bs, f')"
  with faulty_step [of f n "Ok bs" f']
  show "(healthy (fr_inner f') \<and> harmless (fr_mode f')) \<and> content (fr_inner f) = bs @ content (fr_inner f') \<and>
      length bs \<le> n \<and> (bs = [] \<longrightarrow> content (fr_inner f) = [])" by auto
next
  fix f f' :: "'r faulty_reader" and n e
  assume "healthy (fr_inner f) \<and> harmless (fr_mode f)" "0 < (n :: nat)" "faulty_read rd f n = (Err e, f')"
  with faulty_step [of f n "Err e" f']
  show "(healthy (fr_inner f') \<and> harmless (fr_mode f')) \<and> content (fr_inner f') = content (fr_inner f) \<and>
      (io_kind e = Interrupted \<longrightarrow> faulty_patience patience f' < faulty_patience patience f)"
    and "io_kind e = Interrupted" by simp_all
next
  fix f f' :: "'r faulty_reader" and n
  assume "healthy (fr_inner f) \<and> harmless (fr_mode f)" "0 < (n :: nat)"
  with faulty_step [of f n Panic f'] show "faulty_read rd f n \<noteq> (Panic, f')" by auto
qed

end

interpretation faulty_cursor: reliable_source "faulty_read cursor_read" "\<lambda>f. cursor_rest (fr_inner f)"
    "faulty_patience (\<lambda>_. 0)" "\<lambda>f. harmless (fr_mode f)"
  using cursor_source.faulty_reliable by simp

section \<open>Interrupting every call\<close>

lemma faulty_read_always_interrupted:
  "fr_mode f = InterruptedEvery 1 \<Longrightarrow>
     faulty_read rd f n = (Err interrupted_error, f\<lparr>fr_counter := fr_counter f + 1\<rparr>)"
  by (simp add: faulty_read_def)

lemma read_loop_always_interrupted:
  assumes "read_loop (faulty_read rd) n got f = Some y"
  shows "fr_mode f = InterruptedEvery 1 \<longrightarrow> n = 0"
proof -
  have "read_loop op n got f = Some y \<Longrightarrow> op = faulty_read rd \<longrightarrow> fr_mode f = InterruptedEvery 1 \<longrightarrow> n = 0"
    for op n got f y
  proof (induction rule: read_loop.raw_induct [rotated, consumes 1, case_names step])
    case (step rec op n got f y)
    show ?case
    proof (intro impI)
      assume op: "op = faulty_read rd" and mode: "fr_mode f = InterruptedEvery 1"
      have "io_kind interrupted_error = Interrupted" by (simp add: interrupted_error_def)
      then show "n = 0"
        using step.hyps step.IH [of op n got "f\<lparr>fr_counter := fr_counter f + 1\<rparr>" y] mode
        by (auto simp: op faulty_read_always_interrupted split: if_splits)
    qed
  qed
  with assms show ?thesis by blast
qed

section \<open>The failing writer\<close>

text \<open>
  \<^verbatim>\<open>FailingWriter\<close> of \<^verbatim>\<open>tests/io_fault_injection.rs\<close>: it accepts a number of bytes and then
  fails every write. It keeps only their count; \<open>recorded\<close> keeps the accepted bytes beside a writer.
\<close>

record failing_writer =
  fw_written :: nat
  fw_fail_after :: nat

definition broken_pipe :: io_error where
  "broken_pipe = IoError (OtherKind ''BrokenPipe'') ''Simulated I/O error''"

definition failing_write :: "failing_writer write_op" where
  "failing_write w buf =
     (if fw_fail_after w \<le> fw_written w then (Err broken_pipe, w)
      else let n = min (fw_fail_after w - fw_written w) (length buf)
           in (Ok n, w\<lparr>fw_written := fw_written w + n\<rparr>))"

definition recorded :: "'w write_op \<Rightarrow> ('w \<times> bytes) write_op" where
  "recorded wr w buf =
     (case wr (fst w) buf of
        (Ok k, w') \<Rightarrow> (Ok k, (w', snd w @ take k buf))
      | (Err e, w') \<Rightarrow> (Err e, (w', snd w))
      | (Panic, w') \<Rightarrow> (Panic, (w', snd w)))"

interpretation failing_sink: byte_sink "recorded failing_write" snd "\<lambda>_. 0" "\<lambda>_. True"
  by unfold_locales
    (auto simp: recorded_def failing_write_def broken_pipe_def Let_def split: if_splits)

section \<open>Properties\<close>

text \<open>Under an injector that delivers one byte at a time, or interrupts every \<open>n\<close>-th call for
  any \<open>n\<close> but one, \<^verbatim>\<open>read_exact\<close> over a reliable reader delivers exactly what it delivers
  without it.\<close>

lemma faults_are_absorbed:
  assumes "reliable_source rd content patience healthy" and "healthy (fr_inner f)"
    and "harmless (fr_mode f)"
  shows "\<exists>f'. read_exact (faulty_read rd) n f =
      Some (if n \<le> length (content (fr_inner f)) then Ok () else Err eof_error,
        take n (content (fr_inner f)), f') \<and>
    content (fr_inner f') = drop n (content (fr_inner f))"
  using reliable_source.read_exact_reliable [OF reliable_source.faulty_reliable [OF assms(1)], of f n] assms(2,3)
  by auto

lemma faults_are_absorbed_witness:
  "\<exists>f'. read_exact (faulty_read cursor_read) 3 (faulty_reader_new (cursor_new [5, 6, 7]) (InterruptedEvery 2))
      = Some (Ok (), [5, 6, 7], f')"
  using faults_are_absorbed [OF cursor_source.reliable_source_axioms,
      of "faulty_reader_new (cursor_new [5, 6, 7]) (InterruptedEvery 2)" 3]
  by (auto simp: faulty_reader_new_def harmless_def cursor_rest_def cursor_new_def)

text \<open>Under an injector that interrupts every call, \<^verbatim>\<open>read_exact\<close> of at least one byte never
  returns: its retry of interruptions is unbounded.\<close>

lemma read_exact_diverges_under_constant_interruption:
  assumes "0 < n"
  shows "read_exact (faulty_read rd) n (faulty_reader_new r (InterruptedEvery 1)) = None"
  using assms read_loop_always_interrupted [of rd n "[]" "faulty_reader_new r (InterruptedEvery 1)"]
  by (cases "read_exact (faulty_read rd) n (faulty_reader_new r (InterruptedEvery 1))")
    (auto simp: read_exact_def faulty_reader_new_def)

lemma read_exact_diverges_under_constant_interruption_witness:
  "read_exact (faulty_read cursor_read) 4 (faulty_reader_new (cursor_new [5, 6, 7, 8]) (InterruptedEvery 1)) = None"
  by (rule read_exact_diverges_under_constant_interruption) simp

end
