(* ===== verification/FS_Framing.thy ===== *)
theory FS_Framing
  imports FS_Faults FS_Wire
begin

text \<open>
  The write half of \<^verbatim>\<open>src/framing.rs\<close>: the trait \<^verbatim>\<open>Framer\<close>, the plain and the
  checksumming framer and the bounding, validating and observing adapters. A framer is its
  one method; it runs on the writer behind \<^verbatim>\<open>&mut W\<close> and on the state of the world that
  observers' callbacks act on. The locale \<open>frame_writer\<close> is the contract of the trait.
\<close>

section \<open>The framers\<close>

record ('w, 'o) tx =
  tx_sink :: 'w
  tx_world :: 'o

type_synonym ('w, 'o) framer = "bytes \<Rightarrow> (('w, 'o) tx, error, unit) prog"

definition write_all_tx :: "'w write_op \<Rightarrow> bytes \<Rightarrow> (('w, 'o) tx, error, unit) prog" where
  "write_all_tx wr bs = (\<lambda>s. case write_all wr bs (tx_sink s) of
       None \<Rightarrow> None
     | Some (out, w') \<Rightarrow> Some (map_err error_of_io out, s\<lparr>tx_sink := w'\<rparr>))"

definition DefaultFramer :: "'w write_op \<Rightarrow> ('w, 'o) framer" where
  "DefaultFramer wr payload =
     (if u32_max < length payload
      then fail (invalid_frame_with ''payload length exceeds 32-bit header limit''
             (Some (length payload)) None (Some u32_max))
      else let payload_len = u32_of_usize (length payload)
           in bindp (write_all_tx wr (le_bytes 4 payload_len)) (\<lambda>_.
              write_all_tx wr payload))"

text \<open>\<open>None\<close> is the constructor call the compiler rejects.\<close>

definition checksum_framer_new :: "checksum \<Rightarrow> checksum option" where
  "checksum_framer_new alg = (if cs_SIZE alg \<le> 8 then Some alg else None)"

definition ChecksumFramer :: "checksum \<Rightarrow> 'w write_op \<Rightarrow> ('w, 'o) framer" where
  "ChecksumFramer alg wr payload =
     (if u32_max < length payload
      then fail (invalid_frame_with ''payload length exceeds 32-bit header limit''
             (Some (length payload)) None (Some u32_max))
      else let payload_len = u32_of_usize (length payload);
               checksum = cs_calculate alg payload;
               checksum_field = fst (cs_write_bytes alg checksum);
               header = le_bytes 4 payload_len @ checksum_field
           in bindp (write_all_tx wr (take (4 + cs_SIZE alg) header)) (\<lambda>_.
              write_all_tx wr payload))"

definition BoundedFramer :: "('w, 'o) framer \<Rightarrow> nat \<Rightarrow> ('w, 'o) framer" where
  "BoundedFramer inner max_len payload =
     (if max_len < length payload
      then fail (invalid_frame_with ''payload length exceeds configured limit''
             (Some (length payload)) None (Some max_len))
      else inner payload)"

definition ValidatingFramer :: "('w, 'o) framer \<Rightarrow> validator \<Rightarrow> ('w, 'o) framer" where
  "ValidatingFramer inner v payload =
     bindp (lift_outcome (v_validate v payload)) (\<lambda>_. inner payload)"

definition ObserverFramer :: "('w, 'o) framer \<Rightarrow> (bytes \<Rightarrow> 'o \<Rightarrow> 'o) \<Rightarrow> ('w, 'o) framer" where
  "ObserverFramer inner callback payload =
     (\<lambda>s. inner payload (s\<lparr>tx_world := callback payload (tx_world s)\<rparr>))"

text \<open>The fluent constructors of \<^verbatim>\<open>FramerExt\<close>.\<close>

definition framer_bounded :: "('w, 'o) framer \<Rightarrow> nat \<Rightarrow> ('w, 'o) framer" where
  "framer_bounded self max_len = BoundedFramer self max_len"

definition framer_observed :: "('w, 'o) framer \<Rightarrow> (bytes \<Rightarrow> 'o \<Rightarrow> 'o) \<Rightarrow> ('w, 'o) framer" where
  "framer_observed self callback = ObserverFramer self callback"

definition framer_with_validator :: "('w, 'o) framer \<Rightarrow> validator \<Rightarrow> ('w, 'o) framer" where
  "framer_with_validator self v = ValidatingFramer self v"

text \<open>
  Every stack of the library's framers over one writer, with the checksum field it writes and
  the payloads it accepts.
\<close>

inductive library_framer ::
  "'w write_op \<Rightarrow> (bytes \<Rightarrow> bytes) \<Rightarrow> (bytes \<Rightarrow> bool) \<Rightarrow> ('w, 'o) framer \<Rightarrow> bool" for wr where
  plain_framer: "library_framer wr (\<lambda>_. []) (\<lambda>p. length p \<le> u32_max) (DefaultFramer wr)"
| checksummed_framer: "lawful_checksum alg \<Longrightarrow>
    library_framer wr (checksum_field alg) (\<lambda>p. length p \<le> u32_max) (ChecksumFramer alg wr)"
| bounded_framer: "library_framer wr field accept f \<Longrightarrow>
    library_framer wr field (\<lambda>p. accept p \<and> length p \<le> limit) (BoundedFramer f limit)"
| validating_framer: "library_framer wr field accept f \<Longrightarrow> lawful_validator v \<Longrightarrow>
    library_framer wr field (\<lambda>p. accept p \<and> v_validate v p = Ok ()) (ValidatingFramer f v)"
| observer_framer: "library_framer wr field accept f \<Longrightarrow> library_framer wr field accept (ObserverFramer f cb)"

lemma library_framer_fits: "library_framer wr field accept f \<Longrightarrow> accept p \<Longrightarrow> length p \<le> u32_max"
  by (induction arbitrary: p rule: library_framer.induct) auto

section \<open>The contract of a framer\<close>

text \<open>
  A framer returns; after \<^verbatim>\<open>Ok\<close> the writer has exactly the frame of the payload, after
  \<^verbatim>\<open>Err\<close> a proper prefix of it.
\<close>

definition framed :: "('w \<Rightarrow> bytes) \<Rightarrow> ('w \<Rightarrow> bool) \<Rightarrow> bytes \<Rightarrow> ('w, 'o) tx \<Rightarrow>
    (error, unit) outcome \<Rightarrow> ('w, 'o) tx \<Rightarrow> bool" where
  "framed written open_sink frame s out s' \<longleftrightarrow> open_sink (tx_sink s') \<and>
     (case out of
        Ok u \<Rightarrow> written (tx_sink s') = written (tx_sink s) @ frame
      | Err e \<Rightarrow> \<exists>k < length frame. written (tx_sink s') = written (tx_sink s) @ take k frame
      | Panic \<Rightarrow> False)"

locale frame_writer = byte_sink wr written wpatience open_sink
  for wr :: "'w write_op" and written and wpatience and open_sink +
  fixes fr :: "('w, 'o) framer"
    and field :: "bytes \<Rightarrow> bytes"
  assumes frame_result: "\<And>s p. open_sink (tx_sink s) \<Longrightarrow>
      \<exists>out s'. fr p s = Some (out, s') \<and> framed written open_sink (encode_frame field p) s out s'"

context byte_sink
begin

lemma write_all_tx_framed:
  assumes "open_sink (tx_sink s)"
  shows "\<exists>out s'. write_all_tx wr bs s = Some (out, s') \<and>
    (out = Ok () \<and> framed written open_sink bs s (Ok ()) s' \<or>
     (\<exists>e. out = Err e \<and> framed written open_sink bs s (Err e) s'))"
proof -
  from assms obtain out w' where "write_all wr bs (tx_sink s) = Some (out, w')"
    and "stored bs (tx_sink s) out w'" by (rule write_all_returns)
  then show ?thesis
    by (cases out) (auto simp: write_all_tx_def framed_def stored_def)
qed

lemma framed_head:
  assumes "framed written open_sink head s (Err e) s'"
  shows "framed written open_sink (head @ body) s (Err e) s'"
proof -
  from assms obtain k where "k < length head" "open_sink (tx_sink s')"
    and "written (tx_sink s') = written (tx_sink s) @ take k head" by (auto simp: framed_def)
  then show ?thesis by (auto simp: framed_def intro!: exI [of _ k])
qed

lemma framed_body:
  assumes "framed written open_sink body s1 out s'"
    and "written (tx_sink s1) = written (tx_sink s) @ head"
  shows "framed written open_sink (head @ body) s out s'"
proof (cases out)
  case (Err e)
  with assms obtain k where "k < length body" "open_sink (tx_sink s')"
    and "written (tx_sink s') = written (tx_sink s) @ head @ take k body" by (auto simp: framed_def)
  with Err show ?thesis by (auto simp: framed_def intro!: exI [of _ "length head + k"])
qed (use assms in \<open>auto simp: framed_def\<close>)

text \<open>Writing a header and then a body writes a prefix of their concatenation.\<close>

lemma write_two_framed:
  assumes "open_sink (tx_sink s)"
  shows "\<exists>out s'. bindp (write_all_tx wr head) (\<lambda>_. write_all_tx wr body) s = Some (out, s') \<and>
    framed written open_sink (head @ body) s out s'"
proof -
  obtain out s1 where w1: "write_all_tx wr head s = Some (out, s1)"
    and c1: "out = Ok () \<and> framed written open_sink head s (Ok ()) s1 \<or>
      (\<exists>e. out = Err e \<and> framed written open_sink head s (Err e) s1)"
    using write_all_tx_framed [OF assms(1), of head] by blast
  show ?thesis
  proof (cases "out = Ok ()")
    case True
    with c1 have s1: "open_sink (tx_sink s1)" "written (tx_sink s1) = written (tx_sink s) @ head"
      by (auto simp: framed_def)
    obtain out2 s2 where w2: "write_all_tx wr body s1 = Some (out2, s2)"
      and "framed written open_sink body s1 out2 s2"
      using write_all_tx_framed [OF s1(1), of body] by blast
    with s1(2) have "framed written open_sink (head @ body) s out2 s2"
      by (intro framed_body)
    with w1 w2 True show ?thesis by (auto simp: prog_simps)
  next
    case False
    with c1 obtain e where "out = Err e" and "framed written open_sink head s (Err e) s1" by auto
    with w1 show ?thesis by (auto simp: prog_simps intro: framed_head)
  qed
qed

end

lemma framed_fail:
  "open_sink (tx_sink s) \<Longrightarrow> frame \<noteq> [] \<Longrightarrow> framed written open_sink frame s (Err e) s"
  by (auto simp: framed_def intro: exI [of _ 0])

lemma framed_world [simp]:
  "framed written open_sink frame (s\<lparr>tx_world := x\<rparr>) out s' = framed written open_sink frame s out s'"
  by (cases out) (simp_all add: framed_def)

context byte_sink
begin

lemma DefaultFramer_contract:
  "frame_writer wr written wpatience open_sink (DefaultFramer wr) (\<lambda>_. [])"
proof (unfold_locales)
  fix s :: "('w, 'o) tx" and p
  assume "open_sink (tx_sink s)"
  moreover from write_two_framed [OF this, of "le_bytes 4 (u32_of_usize (length p))" p]
  have "\<exists>out s'. bindp (write_all_tx wr (le_bytes 4 (u32_of_usize (length p)))) (\<lambda>_. write_all_tx wr p) s
      = Some (out, s') \<and> framed written open_sink (encode_frame (\<lambda>_. []) p) s out s'"
    by (simp add: encode_frame_def)
  ultimately show "\<exists>out s'. DefaultFramer wr p s = Some (out, s') \<and>
      framed written open_sink (encode_frame (\<lambda>_. []) p) s out s'"
    by (simp add: DefaultFramer_def prog_simps framed_fail)
qed

lemma ChecksumFramer_contract:
  assumes "lawful_checksum alg"
  shows "frame_writer wr written wpatience open_sink (ChecksumFramer alg wr) (checksum_field alg)"
proof (unfold_locales)
  fix s :: "('w, 'o) tx" and p
  assume "open_sink (tx_sink s)"
  moreover from write_two_framed [OF this, of "le_bytes 4 (u32_of_usize (length p)) @ checksum_field alg p" p]
  have "\<exists>out s'. bindp (write_all_tx wr (le_bytes 4 (u32_of_usize (length p)) @ checksum_field alg p))
        (\<lambda>_. write_all_tx wr p) s
      = Some (out, s') \<and> framed written open_sink (encode_frame (checksum_field alg) p) s out s'"
    by (simp add: encode_frame_def)
  moreover have "take (4 + cs_SIZE alg) (le_bytes 4 (u32_of_usize (length p))
      @ fst (cs_write_bytes alg (cs_calculate alg p))) = le_bytes 4 (u32_of_usize (length p)) @ checksum_field alg p"
    by (simp add: checksum_field_def)
  ultimately show "\<exists>out s'. ChecksumFramer alg wr p s = Some (out, s') \<and>
      framed written open_sink (encode_frame (checksum_field alg) p) s out s'"
    by (simp only: ChecksumFramer_def Let_def prog_simps framed_fail encode_frame_nonempty) (simp add: prog_simps framed_fail)
qed

end

context frame_writer
begin

lemma BoundedFramer_contract:
  "frame_writer wr written wpatience open_sink (BoundedFramer fr limit) field"
proof (unfold_locales)
  fix s :: "('w, 'o) tx" and p
  assume "open_sink (tx_sink s)"
  with frame_result [OF this, of p]
  show "\<exists>out s'. BoundedFramer fr limit p s = Some (out, s') \<and>
      framed written open_sink (encode_frame field p) s out s'"
    by (simp add: BoundedFramer_def prog_simps framed_fail)
qed

lemma ValidatingFramer_contract:
  assumes "lawful_validator v"
  shows "frame_writer wr written wpatience open_sink (ValidatingFramer fr v) field"
proof (unfold_locales)
  fix s :: "('w, 'o) tx" and p
  assume "open_sink (tx_sink s)"
  with frame_result [OF this, of p] lawful_validator.validate_not_Panic [OF assms, of p]
  show "\<exists>out s'. ValidatingFramer fr v p s = Some (out, s') \<and>
      framed written open_sink (encode_frame field p) s out s'"
    by (cases "v_validate v p")
      (simp_all add: ValidatingFramer_def bindp_def prog_simps framed_fail)
qed

lemma ObserverFramer_contract:
  "frame_writer wr written wpatience open_sink (ObserverFramer fr cb) field"
proof (unfold_locales)
  fix s :: "('w, 'o) tx" and p
  assume "open_sink (tx_sink s)"
  with frame_result [of "s\<lparr>tx_world := cb p (tx_world s)\<rparr>" p]
  show "\<exists>out s'. ObserverFramer fr cb p s = Some (out, s') \<and>
      framed written open_sink (encode_frame field p) s out s'"
    by (simp add: ObserverFramer_def)
qed

end

text \<open>So every stack of the library's framers satisfies the contract.\<close>

lemma library_framer_contract:
  assumes "library_framer wr field accept f" and "byte_sink wr written wpatience open_sink"
  shows "frame_writer wr written wpatience open_sink f field"
  using assms
proof (induction rule: library_framer.induct)
  case plain_framer
  then show ?case by (rule byte_sink.DefaultFramer_contract)
next
  case (checksummed_framer alg)
  then show ?case by (simp add: byte_sink.ChecksumFramer_contract)
next
  case (bounded_framer field accept f limit)
  then show ?case by (simp add: frame_writer.BoundedFramer_contract)
next
  case (validating_framer field accept f v)
  then show ?case by (simp add: frame_writer.ValidatingFramer_contract)
next
  case (observer_framer field accept f cb)
  then show ?case by (simp add: frame_writer.ObserverFramer_contract)
qed

interpretation plain_to_vec: frame_writer vec_write "\<lambda>w. w" "\<lambda>_. 0" "\<lambda>_. True"
    "DefaultFramer vec_write" "\<lambda>_. []"
  by (rule vec_sink.DefaultFramer_contract)

interpretation plain_to_cursor: frame_writer cursor_write cursor_data "\<lambda>_. 0"
    "\<lambda>c. cursor_pos c = length (cursor_data c)" "DefaultFramer cursor_write" "\<lambda>_. []"
  by (rule cursor_sink.DefaultFramer_contract)

section \<open>When framing succeeds\<close>

text \<open>
  On a reliable writer a framer's verdict depends on the payload alone: an accepted payload is
  framed whole, and a rejected one leaves the writer as it was.
\<close>

locale exact_frame_writer = reliable_sink wr written wpatience open_sink
  for wr :: "'w write_op" and written and wpatience and open_sink +
  fixes fr :: "('w, 'o) framer"
    and field :: "bytes \<Rightarrow> bytes"
    and accept :: "bytes \<Rightarrow> bool"
  assumes frame_exact: "\<And>s p. open_sink (tx_sink s) \<Longrightarrow> \<exists>out s'. fr p s = Some (out, s') \<and>
      (if accept p
       then out = Ok () \<and> open_sink (tx_sink s') \<and> written (tx_sink s') = written (tx_sink s) @ encode_frame field p
       else (\<exists>e. out = Err e) \<and> tx_sink s' = tx_sink s)"

context reliable_sink
begin

lemma write_all_tx_Ok:
  assumes "open_sink (tx_sink s)"
  shows "\<exists>w'. write_all_tx wr bs s = Some (Ok (), s\<lparr>tx_sink := w'\<rparr>) \<and> open_sink w' \<and>
    written w' = written (tx_sink s) @ bs"
  using write_all_Ok [OF assms, of bs] by (auto simp: write_all_tx_def)

lemma write_two_Ok:
  assumes "open_sink (tx_sink s)"
  shows "\<exists>w'. bindp (write_all_tx wr head) (\<lambda>_. write_all_tx wr body) s
      = Some (Ok (), s\<lparr>tx_sink := w'\<rparr>) \<and> open_sink w' \<and> written w' = written (tx_sink s) @ head @ body"
proof -
  obtain w1 where 1: "write_all_tx wr head s = Some (Ok (), s\<lparr>tx_sink := w1\<rparr>)" "open_sink w1"
    "written w1 = written (tx_sink s) @ head"
    using write_all_tx_Ok [OF assms, of head] by blast
  then obtain w2 where "write_all_tx wr body (s\<lparr>tx_sink := w1\<rparr>) = Some (Ok (), s\<lparr>tx_sink := w2\<rparr>)"
    "open_sink w2" "written w2 = written w1 @ body"
    using write_all_tx_Ok [of "s\<lparr>tx_sink := w1\<rparr>" body] by auto
  with 1 show ?thesis by (auto simp: prog_simps)
qed

lemma DefaultFramer_exact:
  "exact_frame_writer wr written wpatience open_sink (DefaultFramer wr) (\<lambda>_. []) (\<lambda>p. length p \<le> u32_max)"
proof (unfold_locales)
  fix s :: "('w, 'o) tx" and p
  assume "open_sink (tx_sink s)"
  from write_two_Ok [OF this, of "le_bytes 4 (u32_of_usize (length p))" p]
  show "\<exists>out s'. DefaultFramer wr p s = Some (out, s') \<and>
      (if length p \<le> u32_max
       then out = Ok () \<and> open_sink (tx_sink s') \<and> written (tx_sink s') = written (tx_sink s) @ encode_frame (\<lambda>_. []) p
       else (\<exists>e. out = Err e) \<and> tx_sink s' = tx_sink s)"
    by (auto simp: DefaultFramer_def encode_frame_def prog_simps)
qed

lemma ChecksumFramer_exact:
  "exact_frame_writer wr written wpatience open_sink (ChecksumFramer alg wr) (checksum_field alg)
    (\<lambda>p. length p \<le> u32_max)"
proof (unfold_locales)
  fix s :: "('w, 'o) tx" and p
  assume "open_sink (tx_sink s)"
  from write_two_Ok [OF this, of "le_bytes 4 (u32_of_usize (length p)) @ checksum_field alg p" p]
  show "\<exists>out s'. ChecksumFramer alg wr p s = Some (out, s') \<and>
      (if length p \<le> u32_max
       then out = Ok () \<and> open_sink (tx_sink s') \<and>
         written (tx_sink s') = written (tx_sink s) @ encode_frame (checksum_field alg) p
       else (\<exists>e. out = Err e) \<and> tx_sink s' = tx_sink s)"
    by (auto simp: ChecksumFramer_def Let_def checksum_field_def encode_frame_def prog_simps)
qed

end

context exact_frame_writer
begin

lemma BoundedFramer_exact:
  "exact_frame_writer wr written wpatience open_sink (BoundedFramer fr limit) field
    (\<lambda>p. accept p \<and> length p \<le> limit)"
proof (unfold_locales)
  fix s :: "('w, 'o) tx" and p
  assume "open_sink (tx_sink s)"
  from frame_exact [OF this, of p]
  show "\<exists>out s'. BoundedFramer fr limit p s = Some (out, s') \<and>
      (if accept p \<and> length p \<le> limit
       then out = Ok () \<and> open_sink (tx_sink s') \<and> written (tx_sink s') = written (tx_sink s) @ encode_frame field p
       else (\<exists>e. out = Err e) \<and> tx_sink s' = tx_sink s)"
    by (auto simp: BoundedFramer_def prog_simps)
qed

lemma ValidatingFramer_exact:
  assumes "lawful_validator v"
  shows "exact_frame_writer wr written wpatience open_sink (ValidatingFramer fr v) field
    (\<lambda>p. accept p \<and> v_validate v p = Ok ())"
proof (unfold_locales)
  fix s :: "('w, 'o) tx" and p
  assume "open_sink (tx_sink s)"
  from frame_exact [OF this, of p] lawful_validator.validate_result [OF assms, of p]
  show "\<exists>out s'. ValidatingFramer fr v p s = Some (out, s') \<and>
      (if accept p \<and> v_validate v p = Ok ()
       then out = Ok () \<and> open_sink (tx_sink s') \<and> written (tx_sink s') = written (tx_sink s) @ encode_frame field p
       else (\<exists>e. out = Err e) \<and> tx_sink s' = tx_sink s)"
    by (cases "accept p") (auto simp: ValidatingFramer_def bindp_def prog_simps)
qed

lemma ObserverFramer_exact:
  "exact_frame_writer wr written wpatience open_sink (ObserverFramer fr cb) field accept"
proof (unfold_locales)
  fix s :: "('w, 'o) tx" and p
  assume "open_sink (tx_sink s)"
  with frame_exact [of "s\<lparr>tx_world := cb p (tx_world s)\<rparr>" p]
  show "\<exists>out s'. ObserverFramer fr cb p s = Some (out, s') \<and>
      (if accept p
       then out = Ok () \<and> open_sink (tx_sink s') \<and> written (tx_sink s') = written (tx_sink s) @ encode_frame field p
       else (\<exists>e. out = Err e) \<and> tx_sink s' = tx_sink s)"
    by (cases "accept p") (simp_all add: ObserverFramer_def)
qed

end

lemma library_framer_exact:
  assumes "library_framer wr field accept f" and "reliable_sink wr written wpatience open_sink"
  shows "exact_frame_writer wr written wpatience open_sink f field accept"
  using assms
proof (induction rule: library_framer.induct)
  case plain_framer
  then show ?case by (rule reliable_sink.DefaultFramer_exact)
next
  case (checksummed_framer alg)
  then show ?case by (simp add: reliable_sink.ChecksumFramer_exact)
next
  case (bounded_framer field accept f limit)
  then show ?case by (simp add: exact_frame_writer.BoundedFramer_exact)
next
  case (validating_framer field accept f v)
  then show ?case by (simp add: exact_frame_writer.ValidatingFramer_exact)
next
  case (observer_framer field accept f cb)
  then show ?case by (simp add: exact_frame_writer.ObserverFramer_exact)
qed

interpretation plain_to_vec: exact_frame_writer vec_write "\<lambda>w. w" "\<lambda>_. 0" "\<lambda>_. True"
    "DefaultFramer vec_write" "\<lambda>_. []" "\<lambda>p. length p \<le> u32_max"
  by (rule vec_sink.DefaultFramer_exact)

interpretation plain_to_failing: frame_writer "recorded failing_write" snd "\<lambda>_. 0" "\<lambda>_. True"
    "DefaultFramer (recorded failing_write)" "\<lambda>_. []"
  by (rule failing_sink.DefaultFramer_contract)

section \<open>Properties\<close>

text \<open>C8: On every writer that accepts prefixes and reports its faults, every stack of the library's
  framers returns without unwinding, and the writer has gained the whole frame of the payload after
  success and a proper prefix of it after an error: nothing else is ever written.\<close>

theorem framer_writes_prefix_of_frame:
  assumes "library_framer wr field accept fr" and "byte_sink wr written wpatience open_sink"
    and "open_sink (tx_sink s)"
  shows "\<exists>out s'. fr p s = Some (out, s') \<and> open_sink (tx_sink s') \<and>
    (out = Ok () \<and> written (tx_sink s') = written (tx_sink s) @ encode_frame field p \<or>
     (\<exists>e k. out = Err e \<and> k < length (encode_frame field p) \<and>
        written (tx_sink s') = written (tx_sink s) @ take k (encode_frame field p)))"
proof -
  obtain out s' where "fr p s = Some (out, s')"
    and "framed written open_sink (encode_frame field p) s out s'"
    using frame_writer.frame_result [OF library_framer_contract [OF assms(1,2)] assms(3)] by blast
  then show ?thesis by (cases out) (auto simp: framed_def)
qed

theorem framer_writes_prefix_of_frame_witness:
  "\<exists>out s'. DefaultFramer (recorded failing_write) [1, 2, 3]
      \<lparr>tx_sink = (\<lparr>fw_written = 0, fw_fail_after = 5\<rparr>, []), tx_world = ()\<rparr> = Some (out, s') \<and>
    (out = Ok () \<and> snd (tx_sink s') = encode_frame (\<lambda>_. []) [1, 2, 3] \<or>
     (\<exists>e. out = Err e) \<and> (\<exists>k < 7. snd (tx_sink s') = take k (encode_frame (\<lambda>_. []) [1, 2, 3])))"
proof -
  have "length (encode_frame (\<lambda>_. []) [1, 2, 3]) = 7" by (simp add: encode_frame_def)
  with framer_writes_prefix_of_frame [OF plain_framer failing_sink.byte_sink_axioms,
      where s = "\<lparr>tx_sink = (\<lparr>fw_written = 0, fw_fail_after = 5\<rparr>, []), tx_world = ()\<rparr>" and p = "[1, 2, 3]"]
  show ?thesis by simp
qed

text \<open>On a reliable writer the verdict of a stack of framers is decided by the payload alone, by
  the length limits and validators of the stack: an accepted payload is written as one whole frame,
  and a rejected one leaves the writer untouched.\<close>

lemma framer_accepts_exactly:
  assumes "library_framer wr field accept fr" and "reliable_sink wr written wpatience open_sink"
    and "open_sink (tx_sink s)"
  shows "\<exists>out s'. fr p s = Some (out, s') \<and>
    (if accept p then out = Ok () \<and> written (tx_sink s') = written (tx_sink s) @ encode_frame field p
     else (\<exists>e. out = Err e) \<and> tx_sink s' = tx_sink s)"
proof -
  obtain out s' where "fr p s = Some (out, s')" and
    "if accept p then out = Ok () \<and> open_sink (tx_sink s') \<and>
       written (tx_sink s') = written (tx_sink s) @ encode_frame field p
     else (\<exists>e. out = Err e) \<and> tx_sink s' = tx_sink s"
    using exact_frame_writer.frame_exact [OF library_framer_exact [OF assms(1,2)] assms(3)] by blast
  then show ?thesis by (intro exI [of _ out] exI [of _ s']) (simp split: if_splits)
qed

lemma framer_accepts_exactly_witness:
  "(\<exists>s'. BoundedFramer (DefaultFramer vec_write) 2 [1, 2] \<lparr>tx_sink = [], tx_world = ()\<rparr> = Some (Ok (), s') \<and>
     tx_sink s' = encode_frame (\<lambda>_. []) [1, 2]) \<and>
   (\<exists>e s'. BoundedFramer (DefaultFramer vec_write) 2 [1, 2, 3] \<lparr>tx_sink = [], tx_world = ()\<rparr> = Some (Err e, s') \<and>
     tx_sink s' = [])"
  using framer_accepts_exactly [OF bounded_framer [OF plain_framer, of vec_write 2]
      vec_sink.reliable_sink_axioms, where s = "\<lparr>tx_sink = [], tx_world = ()\<rparr>" and p = "[1, 2]"]
    framer_accepts_exactly [OF bounded_framer [OF plain_framer, of vec_write 2]
      vec_sink.reliable_sink_axioms, where s = "\<lparr>tx_sink = [], tx_world = ()\<rparr>" and p = "[1, 2, 3]"]
  by (auto simp: u32_max_def)

end
