(* ===== verification/FS_Writer.thy ===== *)
theory FS_Writer
  imports FS_Framing FS_Policy
begin

text \<open>
  \<^verbatim>\<open>src/writer.rs\<close> and the writing trait of \<^verbatim>\<open>src/traits.rs\<close>: the \<^verbatim>\<open>StreamWriter\<close>
  with the builder it owns in simple mode, its optional memory policy and the builder factory.
  \<^verbatim>\<open>FlatBufferBuilder\<close> comes from another crate: its operations are a record of parameters,
  and what the writer relies on is the predicate \<open>encodes\<close>. The serialization of an item is
  a program on the builder.
\<close>

section \<open>Builders\<close>

text \<open>
  \<open>b_finished_data\<close> and \<open>b_mut_finished_buffer\<close> (of which the writer uses the length of the
  backing buffer) are \<open>None\<close> where the builder is not finished and the call panics.
\<close>

record 'b builder_ops =
  b_new :: 'b
  b_with_capacity :: "nat \<Rightarrow> 'b"
  b_reset :: "'b \<Rightarrow> 'b"
  b_finished_data :: "'b \<Rightarrow> bytes option"
  b_mut_finished_buffer :: "'b \<Rightarrow> nat option"

type_synonym 'b serialize = "('b, error, unit) prog"

text \<open>\<^verbatim>\<open>StreamSerialize\<close> for \<^verbatim>\<open>&str\<close> and, by delegation, for \<^verbatim>\<open>String\<close>.\<close>

definition str_serialize ::
  "(string \<Rightarrow> 'b \<Rightarrow> 'offset \<times> 'b) \<Rightarrow> ('offset \<Rightarrow> 'b \<Rightarrow> 'b) \<Rightarrow> string \<Rightarrow> 'b serialize" where
  "str_serialize create_string finish text b =
     (let (data, b1) = create_string text b in Some (Ok (), finish data b1))"

definition string_serialize ::
  "(string \<Rightarrow> 'b \<Rightarrow> 'offset \<times> 'b) \<Rightarrow> ('offset \<Rightarrow> 'b \<Rightarrow> 'b) \<Rightarrow> string \<Rightarrow> 'b serialize" where
  "string_serialize create_string finish text = str_serialize create_string finish text"

section \<open>The writer\<close>

record ('b, 'p, 'm) writer_slot =
  ws_policy_ops :: "'p memory_policy"
  ws_policy :: 'p
  ws_baseline_capacity :: nat
  ws_make_builder :: "'m \<Rightarrow> nat \<Rightarrow> 'b \<times> 'm"
  ws_factory :: 'm

record ('w, 'o, 'b, 'p, 'm) stream_writer =
  sw_writer :: 'w
  sw_framer :: "('w, 'o) framer"
  sw_builder :: 'b
  sw_policy :: "('b, 'p, 'm) writer_slot option"
  sw_world :: 'o

definition writer_with_builder_alloc ::
  "'w \<Rightarrow> ('w, 'o) framer \<Rightarrow> 'b \<Rightarrow> 'o \<Rightarrow> ('w, 'o, 'b, 'p, 'm) stream_writer" where
  "writer_with_builder_alloc writer framer builder world =
     \<lparr>sw_writer = writer, sw_framer = framer, sw_builder = builder, sw_policy = None, sw_world = world\<rparr>"

definition writer_with_builder ::
  "'w \<Rightarrow> ('w, 'o) framer \<Rightarrow> 'b \<Rightarrow> 'o \<Rightarrow> ('w, 'o, 'b, 'p, 'm) stream_writer" where
  "writer_with_builder writer framer builder world =
     \<lparr>sw_writer = writer, sw_framer = framer, sw_builder = builder, sw_policy = None, sw_world = world\<rparr>"

definition writer_new ::
  "'b builder_ops \<Rightarrow> 'w \<Rightarrow> ('w, 'o) framer \<Rightarrow> 'o \<Rightarrow> ('w, 'o, 'b, 'p, 'm) stream_writer" where
  "writer_new ops writer framer world =
     \<lparr>sw_writer = writer, sw_framer = framer, sw_builder = b_new ops, sw_policy = None, sw_world = world\<rparr>"

definition writer_with_capacity ::
  "'b builder_ops \<Rightarrow> 'w \<Rightarrow> ('w, 'o) framer \<Rightarrow> nat \<Rightarrow> 'o \<Rightarrow> ('w, 'o, 'b, 'p, 'm) stream_writer" where
  "writer_with_capacity ops writer framer capacity world =
     \<lparr>sw_writer = writer, sw_framer = framer, sw_builder = b_with_capacity ops capacity,
      sw_policy = None, sw_world = world\<rparr>"

definition writer_with_memory_policy_and_factory ::
  "('w, 'o, 'b, 'p, 'm) stream_writer \<Rightarrow> 'p memory_policy \<Rightarrow> 'p \<Rightarrow> ('m \<Rightarrow> nat \<Rightarrow> 'b \<times> 'm) \<Rightarrow> 'm \<Rightarrow>
   ('w, 'o, 'b, 'p, 'm) stream_writer" where
  "writer_with_memory_policy_and_factory s pops policy make_builder factory =
     s\<lparr>sw_policy := Some \<lparr>ws_policy_ops = pops, ws_policy = policy,
         ws_baseline_capacity = baseline_capacity pops policy,
         ws_make_builder = make_builder, ws_factory = factory\<rparr>\<rparr>"

definition writer_with_memory_policy ::
  "'b builder_ops \<Rightarrow> ('w, 'o, 'b, 'p, unit) stream_writer \<Rightarrow> 'p memory_policy \<Rightarrow> 'p \<Rightarrow>
   ('w, 'o, 'b, 'p, unit) stream_writer" where
  "writer_with_memory_policy ops s pops policy =
     s\<lparr>sw_policy := Some \<lparr>ws_policy_ops = pops, ws_policy = policy,
         ws_baseline_capacity = baseline_capacity pops policy,
         ws_make_builder = (\<lambda>m capacity. (b_with_capacity ops capacity, m)), ws_factory = ()\<rparr>\<rparr>"

definition writer_evaluate_memory_policy ::
  "'b builder_ops \<Rightarrow> nat \<Rightarrow> (('w, 'o, 'b, 'p, 'm) stream_writer, error, unit) prog" where
  "writer_evaluate_memory_policy ops last_message_size s =
     (case sw_policy s of
        None \<Rightarrow> Some (Ok (), s)
      | Some slot \<Rightarrow>
          (case b_mut_finished_buffer ops (sw_builder s) of
             None \<Rightarrow> Some (Panic, s)
           | Some current_capacity \<Rightarrow>
               if ws_baseline_capacity slot < current_capacity
               then (case should_reset (ws_policy_ops slot) (ws_policy slot) last_message_size current_capacity of
                       (None, p') \<Rightarrow> Some (Ok (), s\<lparr>sw_policy := Some (slot\<lparr>ws_policy := p'\<rparr>)\<rparr>)
                     | (Some reason, p') \<Rightarrow>
                         (let (builder, m') = ws_make_builder slot (ws_factory slot) (ws_baseline_capacity slot);
                              p'' = on_reclaim (ws_policy_ops slot) p'
                                \<lparr>ri_reason = reason, ri_last_message_size = last_message_size,
                                 ri_capacity_before = current_capacity,
                                 ri_capacity_after = ws_baseline_capacity slot\<rparr>
                          in Some (Ok (), s\<lparr>sw_builder := builder,
                               sw_policy := Some (slot\<lparr>ws_policy := p'', ws_factory := m'\<rparr>)\<rparr>)))
               else Some (Ok (), s)))"

text \<open>The framer runs on the borrowed writer.\<close>

definition frame_and_write :: "bytes \<Rightarrow> (('w, 'o, 'b, 'p, 'm) stream_writer, error, unit) prog" where
  "frame_and_write payload s =
     (case sw_framer s payload \<lparr>tx_sink = sw_writer s, tx_world = sw_world s\<rparr> of
        None \<Rightarrow> None
      | Some (out, t) \<Rightarrow> Some (out, s\<lparr>sw_writer := tx_sink t, sw_world := tx_world t\<rparr>))"

definition writer_write ::
  "'b builder_ops \<Rightarrow> 'b serialize \<Rightarrow> (('w, 'o, 'b, 'p, 'm) stream_writer, error, unit) prog" where
  "writer_write ops serialize s =
     (let b0 = b_reset ops (sw_builder s) in
      case serialize b0 of
        None \<Rightarrow> None
      | Some (Err e, b1) \<Rightarrow> Some (Err e, s\<lparr>sw_builder := b1\<rparr>)
      | Some (Panic, b1) \<Rightarrow> Some (Panic, s\<lparr>sw_builder := b1\<rparr>)
      | Some (Ok _, b1) \<Rightarrow>
          (let s1 = s\<lparr>sw_builder := b1\<rparr> in
           case b_finished_data ops b1 of
             None \<Rightarrow> Some (Panic, s1)
           | Some payload \<Rightarrow>
               (let last_message_size = length payload in
                bindp (frame_and_write payload) (\<lambda>_ s2.
                if sw_policy s2 \<noteq> None then writer_evaluate_memory_policy ops last_message_size s2
                else Some (Ok (), s2)) s1)))"

definition write_finished ::
  "'c builder_ops \<Rightarrow> 'c \<Rightarrow> (('w, 'o, 'b, 'p, 'm) stream_writer, error, unit) prog" where
  "write_finished ops builder s =
     (case b_finished_data ops builder of
        None \<Rightarrow> Some (Panic, s)
      | Some payload \<Rightarrow> frame_and_write payload s)"

definition writer_flush ::
  "'w flush_op \<Rightarrow> (('w, 'o, 'b, 'p, 'm) stream_writer, error, unit) prog" where
  "writer_flush fl s =
     (let (out, w') = fl (sw_writer s) in Some (map_err error_of_io out, s\<lparr>sw_writer := w'\<rparr>))"

definition writer_into_inner :: "('w, 'o, 'b, 'p, 'm) stream_writer \<Rightarrow> 'w" where
  "writer_into_inner s = sw_writer s"

definition writer_get_ref :: "('w, 'o, 'b, 'p, 'm) stream_writer \<Rightarrow> 'w" where
  "writer_get_ref s = sw_writer s"

definition writer_get_mut ::
  "('w \<Rightarrow> 'w) \<Rightarrow> ('w, 'o, 'b, 'p, 'm) stream_writer \<Rightarrow> ('w, 'o, 'b, 'p, 'm) stream_writer" where
  "writer_get_mut change s = s\<lparr>sw_writer := change (sw_writer s)\<rparr>"

definition writer_framer :: "('w, 'o, 'b, 'p, 'm) stream_writer \<Rightarrow> ('w, 'o) framer" where
  "writer_framer s = sw_framer s"

text \<open>A caller's loop over items, which stops at the first error.\<close>

fun write_items ::
  "'b builder_ops \<Rightarrow> 'b serialize list \<Rightarrow> (('w, 'o, 'b, 'p, 'm) stream_writer, error, unit) prog" where
  "write_items ops [] = ret ()"
| "write_items ops (item # items) = bindp (writer_write ops item) (\<lambda>_. write_items ops items)"

section \<open>What the writer relies on\<close>

text \<open>
  An item encodes as \<open>p\<close>: serialized into any reset builder it succeeds and leaves that
  payload finished, whatever the builder held before and whatever its capacity is.
\<close>

definition encodes :: "'b builder_ops \<Rightarrow> ('b \<Rightarrow> bool) \<Rightarrow> 'b serialize \<Rightarrow> bytes \<Rightarrow> bool" where
  "encodes ops good item p \<longleftrightarrow> (\<forall>b. good b \<longrightarrow>
     (\<exists>b' n. item (b_reset ops b) = Some (Ok (), b') \<and> good b' \<and>
        b_finished_data ops b' = Some p \<and> b_mut_finished_buffer ops b' = Some n))"

definition writer_ok :: "('b \<Rightarrow> bool) \<Rightarrow> ('w, 'o, 'b, 'p, 'm) stream_writer \<Rightarrow> bool" where
  "writer_ok good s \<longleftrightarrow> good (sw_builder s) \<and>
     (\<forall>slot. sw_policy s = Some slot \<longrightarrow> (\<forall>m n. good (fst (ws_make_builder slot m n))))"

lemma writer_ok_constructors:
  "good (b_new ops) \<Longrightarrow> writer_ok good (writer_new ops w fr x)"
  "good b \<Longrightarrow> writer_ok good (writer_with_builder w fr b x)"
  "good b \<Longrightarrow> writer_ok good (writer_with_builder_alloc w fr b x)"
  "good (b_with_capacity ops n) \<Longrightarrow> writer_ok good (writer_with_capacity ops w fr n x)"
  "writer_ok good s \<Longrightarrow> (\<And>n. good (b_with_capacity ops n)) \<Longrightarrow>
     writer_ok good (writer_with_memory_policy ops s pops p)"
  "writer_ok good s \<Longrightarrow> (\<And>m n. good (fst (mk m n))) \<Longrightarrow>
     writer_ok good (writer_with_memory_policy_and_factory s pops p mk m)"
  by (simp_all add: writer_ok_def writer_new_def writer_with_builder_def writer_with_builder_alloc_def
      writer_with_capacity_def writer_with_memory_policy_def writer_with_memory_policy_and_factory_def)

section \<open>The policy step\<close>

lemma evaluate_writer:
  assumes "writer_ok good s" and "b_mut_finished_buffer ops (sw_builder s) = Some cap"
  shows "\<exists>s'. writer_evaluate_memory_policy ops n s = Some (Ok (), s') \<and> writer_ok good s' \<and>
    sw_writer s' = sw_writer s \<and> sw_framer s' = sw_framer s \<and> sw_world s' = sw_world s"
  using assms
  by (auto simp: writer_evaluate_memory_policy_def writer_ok_def Let_def split: option.splits prod.splits)
    (metis fst_conv)+

text \<open>A verdict to reclaim replaces the builder by the factory's, at the baseline, and nothing else does.\<close>

lemma evaluate_writer_builder:
  assumes "writer_evaluate_memory_policy ops n s = Some (Ok (), s')"
  shows "sw_builder s' =
    (case sw_policy s of
       None \<Rightarrow> sw_builder s
     | Some slot \<Rightarrow>
         (case b_mut_finished_buffer ops (sw_builder s) of
            None \<Rightarrow> sw_builder s
          | Some cap \<Rightarrow>
              if ws_baseline_capacity slot < cap \<and>
                 fst (should_reset (ws_policy_ops slot) (ws_policy slot) n cap) \<noteq> None
              then fst (ws_make_builder slot (ws_factory slot) (ws_baseline_capacity slot))
              else sw_builder s))"
  using assms
  by (auto simp: writer_evaluate_memory_policy_def Let_def split: option.splits prod.splits if_splits)

lemma frame_and_write_keeps:
  assumes "frame_and_write p s = Some (out, s')"
  shows "sw_builder s' = sw_builder s" "sw_policy s' = sw_policy s" "sw_framer s' = sw_framer s"
  using assms by (auto simp: frame_and_write_def split: option.splits)

text \<open>Whatever fails, the policy has not been consulted.\<close>

lemma writer_write_failed:
  assumes "writer_write ops item s = Some (Err e, s')"
  shows "sw_policy s' = sw_policy s" and "sw_framer s' = sw_framer s"
  using assms
  by (auto simp: writer_write_def Let_def bindp_def writer_evaluate_memory_policy_def
      split: option.splits prod.splits outcome.splits if_splits dest: frame_and_write_keeps)

text \<open>Expert mode touches neither the writer's builder nor its policy.\<close>

lemma write_finished_keeps:
  assumes "write_finished ops b s = Some (out, s')"
  shows "sw_builder s' = sw_builder s" "sw_policy s' = sw_policy s" "sw_framer s' = sw_framer s"
  using assms by (auto simp: write_finished_def split: option.splits dest: frame_and_write_keeps)

section \<open>What is written\<close>

lemma writer_write_cases:
  assumes "writer_ok good s" and "encodes ops good item p"
  obtains b' n where "good b'" and "b_mut_finished_buffer ops b' = Some n"
    and "writer_write ops item s = bindp (frame_and_write p) (\<lambda>_ s2.
       if sw_policy s2 \<noteq> None then writer_evaluate_memory_policy ops (length p) s2
       else Some (Ok (), s2)) (s\<lparr>sw_builder := b'\<rparr>)"
proof -
  from assms obtain b' n where "item (b_reset ops (sw_builder s)) = Some (Ok (), b')" "good b'"
    "b_finished_data ops b' = Some p" "b_mut_finished_buffer ops b' = Some n"
    by (auto simp: encodes_def writer_ok_def)
  with that show thesis by (simp add: writer_write_def Let_def)
qed

text \<open>After the frame is out the call succeeds, with a policy or without.\<close>

lemma writer_write_after:
  assumes "writer_ok good s" and "encodes ops good item p"
    and frame: "sw_framer s p \<lparr>tx_sink = sw_writer s, tx_world = sw_world s\<rparr> = Some (out, t)"
  shows "\<exists>s'. writer_write ops item s = Some (out, s') \<and> writer_ok good s' \<and>
    sw_writer s' = tx_sink t \<and> sw_framer s' = sw_framer s \<and> sw_world s' = tx_world t"
proof -
  from assms(1,2) obtain b' n where b': "good b'" "b_mut_finished_buffer ops b' = Some n"
    and run: "writer_write ops item s = bindp (frame_and_write p) (\<lambda>_ s2.
       if sw_policy s2 \<noteq> None then writer_evaluate_memory_policy ops (length p) s2
       else Some (Ok (), s2)) (s\<lparr>sw_builder := b'\<rparr>)" by (rule writer_write_cases)
  let ?s2 = "s\<lparr>sw_builder := b', sw_writer := tx_sink t, sw_world := tx_world t\<rparr>"
  have fw: "frame_and_write p (s\<lparr>sw_builder := b'\<rparr>) = Some (out, ?s2)"
    by (simp add: frame_and_write_def frame)
  have ok: "writer_ok good ?s2" using assms(1) b' by (simp add: writer_ok_def)
  show ?thesis
  proof (cases out)
    case (Ok u)
    obtain s' where "writer_evaluate_memory_policy ops (length p) ?s2 = Some (Ok (), s')"
      "writer_ok good s'" "sw_writer s' = tx_sink t" "sw_framer s' = sw_framer s" "sw_world s' = tx_world t"
      using evaluate_writer [OF ok, of ops n "length p"] b' by auto
    with run fw ok Ok show ?thesis by (cases "sw_policy s") (simp_all add: prog_simps)
  qed (use run fw ok in \<open>simp_all add: prog_simps\<close>)
qed

context frame_writer
begin

lemma writer_write_framed:
  assumes "writer_ok good s" and "encodes ops good item p" and "sw_framer s = fr"
    and "open_sink (sw_writer s)"
  shows "\<exists>out s' t. writer_write ops item s = Some (out, s') \<and> writer_ok good s' \<and> sw_framer s' = fr \<and>
    sw_writer s' = tx_sink t \<and>
    framed written open_sink (encode_frame field p) \<lparr>tx_sink = sw_writer s, tx_world = sw_world s\<rparr> out t"
proof -
  obtain out t where "fr p \<lparr>tx_sink = sw_writer s, tx_world = sw_world s\<rparr> = Some (out, t)"
    and "framed written open_sink (encode_frame field p) \<lparr>tx_sink = sw_writer s, tx_world = sw_world s\<rparr> out t"
    using frame_result [of "\<lparr>tx_sink = sw_writer s, tx_world = sw_world s\<rparr>" p] assms(4) by auto
  with writer_write_after [OF assms(1,2)] assms(3) show ?thesis by metis
qed

text \<open>
  A run of writes on a device that may fail: some of the items are written whole, and then either none
  is left or the next write fails with a proper prefix of its frame on the device.
\<close>

lemma write_items_framed:
  assumes "list_all2 (encodes ops good) items ps"
    and "writer_ok good s" and "sw_framer s = fr" and "open_sink (sw_writer s)"
  shows "\<exists>out s' k s1. write_items ops items s = Some (out, s') \<and> k \<le> length ps \<and>
    write_items ops (take k items) s = Some (Ok (), s1) \<and>
    written (sw_writer s1) = written (sw_writer s) @ encode_stream field (take k ps) \<and>
    (if k = length ps then out = Ok () \<and> s' = s1
     else (\<exists>e. out = Err e) \<and> writer_write ops (items ! k) s1 = Some (out, s') \<and>
       (\<exists>j < length (encode_frame field (ps ! k)).
          written (sw_writer s') = written (sw_writer s1) @ take j (encode_frame field (ps ! k))))"
  using assms
proof (induction items ps arbitrary: s rule: list_all2_induct)
  case Nil
  then show ?case by (simp add: prog_simps)
next
  case (Cons item items p ps)
  from writer_write_framed [OF Cons.prems(1) Cons.hyps(1) Cons.prems(2,3)] obtain out s1 t where
    run: "writer_write ops item s = Some (out, s1)" "writer_ok good s1" "sw_framer s1 = fr" "sw_writer s1 = tx_sink t"
    and framed: "framed written open_sink (encode_frame field p) \<lparr>tx_sink = sw_writer s, tx_world = sw_world s\<rparr> out t"
    by blast
  show ?case
  proof (cases out)
    case (Ok u)
    with framed run(4) have s1: "open_sink (sw_writer s1)" "written (sw_writer s1) = written (sw_writer s) @ encode_frame field p"
      by (simp_all add: framed_def)
    from Cons.IH [OF run(2,3) s1(1)] obtain out' s' k s2 where rest:
      "write_items ops items s1 = Some (out', s')" "k \<le> length ps" "write_items ops (take k items) s1 = Some (Ok (), s2)"
      "written (sw_writer s2) = written (sw_writer s1) @ encode_stream field (take k ps)"
      "if k = length ps then out' = Ok () \<and> s' = s2
       else (\<exists>e. out' = Err e) \<and> writer_write ops (items ! k) s2 = Some (out', s') \<and>
         (\<exists>j < length (encode_frame field (ps ! k)).
            written (sw_writer s') = written (sw_writer s2) @ take j (encode_frame field (ps ! k)))" by blast
    show ?thesis
      by (rule exI [of _ out'], rule exI [of _ s'], rule exI [of _ "Suc k"], rule exI [of _ s2])
        (use rest run(1) s1(2) Ok in \<open>cases "k = length ps"; simp add: prog_simps\<close>)
  next
    case (Err e)
    show ?thesis
      by (rule exI [of _ out], rule exI [of _ s1], rule exI [of _ 0], rule exI [of _ s])
        (use framed run Err in \<open>auto simp: prog_simps framed_def\<close>)
  qed (use framed in \<open>simp add: framed_def\<close>)
qed

end

context exact_frame_writer
begin

lemma writer_write_exact:
  assumes "writer_ok good s" and "encodes ops good item p" and "sw_framer s = fr"
    and "open_sink (sw_writer s)"
  shows "\<exists>out s'. writer_write ops item s = Some (out, s') \<and> writer_ok good s' \<and> sw_framer s' = fr \<and>
    (if accept p
     then out = Ok () \<and> open_sink (sw_writer s') \<and> written (sw_writer s') = written (sw_writer s) @ encode_frame field p
     else (\<exists>e. out = Err e) \<and> sw_writer s' = sw_writer s)"
proof -
  obtain out t where frame: "fr p \<lparr>tx_sink = sw_writer s, tx_world = sw_world s\<rparr> = Some (out, t)"
    and res: "if accept p
       then out = Ok () \<and> open_sink (tx_sink t) \<and> written (tx_sink t) = written (sw_writer s) @ encode_frame field p
       else (\<exists>e. out = Err e) \<and> tx_sink t = sw_writer s"
    using frame_exact [of "\<lparr>tx_sink = sw_writer s, tx_world = sw_world s\<rparr>" p] assms(4) by auto
  from frame obtain s' where "writer_write ops item s = Some (out, s')" "writer_ok good s'"
    "sw_writer s' = tx_sink t" "sw_framer s' = fr"
    using writer_write_after [OF assms(1,2), of out t] assms(3) by auto
  with res show ?thesis by (intro exI [of _ out] exI [of _ s']) simp
qed

text \<open>A run of writes leaves the frames of the payloads up to the first one that is rejected.\<close>

lemma write_items_exact:
  assumes "list_all2 (encodes ops good) items ps"
    and "writer_ok good s" and "sw_framer s = fr" and "open_sink (sw_writer s)"
  shows "\<exists>out s'. write_items ops items s = Some (out, s') \<and> writer_ok good s' \<and> sw_framer s' = fr \<and>
    open_sink (sw_writer s') \<and>
    written (sw_writer s') = written (sw_writer s) @ encode_stream field (takeWhile accept ps) \<and>
    (out = Ok () \<longleftrightarrow> list_all accept ps) \<and> out \<noteq> Panic"
  using assms
proof (induction items ps arbitrary: s rule: list_all2_induct)
  case Nil
  then show ?case by (simp add: prog_simps)
next
  case (Cons item items p ps)
  from writer_write_exact [OF Cons.prems(1) Cons.hyps(1) Cons.prems(2,3)]
  obtain out s1 where run: "writer_write ops item s = Some (out, s1)" and ok: "writer_ok good s1" "sw_framer s1 = fr"
    and res: "if accept p
     then out = Ok () \<and> open_sink (sw_writer s1) \<and> written (sw_writer s1) = written (sw_writer s) @ encode_frame field p
     else (\<exists>e. out = Err e) \<and> sw_writer s1 = sw_writer s" by blast
  show ?case
  proof (cases "accept p")
    case True
    with res have "open_sink (sw_writer s1)" by simp
    from Cons.IH [OF ok this] True res run show ?thesis by (auto simp: prog_simps)
  next
    case False
    with res obtain e where "out = Err e" "sw_writer s1 = sw_writer s" by auto
    with False run ok Cons.prems show ?thesis by (simp add: prog_simps)
  qed
qed

end

lemma write_finished_exact:
  assumes "exact_frame_writer wr written wpatience open_sink (sw_framer s) field accept"
    and "open_sink (sw_writer s)" and "b_finished_data ops b = Some p"
  shows "\<exists>out s'. write_finished ops b s = Some (out, s') \<and>
    (if accept p then out = Ok () \<and> open_sink (sw_writer s') \<and> written (sw_writer s') = written (sw_writer s) @ encode_frame field p
     else (\<exists>e. out = Err e) \<and> sw_writer s' = sw_writer s)"
proof -
  obtain out t where "sw_framer s p \<lparr>tx_sink = sw_writer s, tx_world = sw_world s\<rparr> = Some (out, t)"
    and "if accept p then out = Ok () \<and> open_sink (tx_sink t) \<and>
        written (tx_sink t) = written (sw_writer s) @ encode_frame field p
      else (\<exists>e. out = Err e) \<and> tx_sink t = sw_writer s"
    using exact_frame_writer.frame_exact [OF assms(1), of "\<lparr>tx_sink = sw_writer s, tx_world = sw_world s\<rparr>" p]
      assms(2) by auto
  then show ?thesis
    by (intro exI [of _ out] exI [of _ "s\<lparr>sw_writer := tx_sink t, sw_world := tx_world t\<rparr>"])
      (simp add: write_finished_def frame_and_write_def assms(3) split: if_splits)
qed

section \<open>Samples\<close>

text \<open>A builder that is a capacity and the payload it has finished, and items that are their payloads.\<close>

definition sample_builder :: "(nat \<times> bytes option) builder_ops" where
  "sample_builder = \<lparr>b_new = (0, None), b_with_capacity = (\<lambda>n. (n, None)), b_reset = (\<lambda>b. (fst b, None)),
     b_finished_data = snd, b_mut_finished_buffer = (\<lambda>b. if snd b = None then None else Some (fst b))\<rparr>"

definition sample_item :: "bytes \<Rightarrow> (nat \<times> bytes option) serialize" where
  "sample_item p b = Some (Ok (), (max (fst b) (length p), Some p))"

lemma sample_encodes: "encodes sample_builder (\<lambda>_. True) (sample_item p) p"
  by (simp add: encodes_def sample_builder_def sample_item_def)

definition sample_writer :: "(bytes, unit, nat \<times> bytes option, size_threshold, unit) stream_writer" where
  "sample_writer = writer_with_memory_policy sample_builder
     (writer_with_capacity sample_builder [] (DefaultFramer vec_write) 64 ())
     SizeThresholdPolicy ((size_threshold_new 2 2 1)\<lparr>st_baseline_capacity := 4, st_large_event_seen := True\<rparr>)"

lemma sample_writer_fields:
  "sw_framer sample_writer = DefaultFramer vec_write" "sw_writer sample_writer = []" "sw_world sample_writer = ()"
  "sw_builder sample_writer = (64, None)" "writer_ok (\<lambda>_. True) sample_writer"
  by (simp_all add: sample_writer_def writer_with_memory_policy_def writer_with_capacity_def sample_builder_def
      writer_ok_def)

section \<open>Properties\<close>

text \<open>C9: On a reliable writer a run of simple-mode writes leaves exactly the frames of the items'
  payloads up to the first one the framers reject, and succeeds if and only if none is rejected; an
  installed memory policy, whichever it is, changes neither the bytes nor the outcome.\<close>

theorem writes_leave_the_frames:
  assumes "library_framer wr field accept (sw_framer s)" and "reliable_sink wr written wpatience open_sink"
    and "open_sink (sw_writer s)" and "writer_ok good s" and "list_all2 (encodes ops good) items ps"
  shows "\<exists>out s'. write_items ops items s = Some (out, s') \<and>
    written (sw_writer s') = written (sw_writer s) @ encode_stream field (takeWhile accept ps) \<and>
    (out = Ok () \<longleftrightarrow> list_all accept ps) \<and> out \<noteq> Panic"
  using exact_frame_writer.write_items_exact [OF library_framer_exact [OF assms(1,2)] assms(5,4) refl assms(3)]
  by blast

theorem writes_leave_the_frames_witness:
  "\<exists>out s'. write_items sample_builder [sample_item [1], sample_item [2, 3]] sample_writer = Some (out, s') \<and>
     sw_writer s' = encode_stream (\<lambda>_. []) [[1], [2, 3]] \<and> out = Ok ()"
proof -
  have lib: "library_framer vec_write (\<lambda>_. []) (\<lambda>p. length p \<le> u32_max) (sw_framer sample_writer)"
    by (simp add: sample_writer_fields plain_framer)
  have items: "list_all2 (encodes sample_builder (\<lambda>_. True)) [sample_item [1], sample_item [2, 3]] [[1], [2, 3]]"
    by (simp add: sample_encodes)
  from writes_leave_the_frames [OF lib vec_sink.reliable_sink_axioms TrueI sample_writer_fields(5) items]
  show ?thesis by (simp add: sample_writer_fields u32_max_def)
qed

text \<open>A write that fails, in serialization, in framing or on the device, leaves the policy as it was:
  the policy is consulted only after a successful write.\<close>

lemma failed_write_keeps_policy:
  assumes "writer_write ops item s = Some (Err e, s')"
  shows "sw_policy s' = sw_policy s"
  by (rule writer_write_failed(1) [OF assms])

lemma failed_write_keeps_policy_witness:
  "sw_policy (snd (the (writer_write sample_builder (\<lambda>b. Some (Err unexpected_eof, b)) sample_writer))) =
     sw_policy sample_writer"
proof (rule failed_write_keeps_policy)
  show "writer_write sample_builder (\<lambda>b. Some (Err unexpected_eof, b)) sample_writer =
    Some (Err unexpected_eof,
      snd (the (writer_write sample_builder (\<lambda>b. Some (Err unexpected_eof, b)) sample_writer)))"
    by (simp add: writer_write_def Let_def)
qed

text \<open>C20: After a successful write the builder is replaced if and only if its backing buffer exceeds the
  policy's baseline and the policy, given the payload's length and that buffer's length, says so; the
  replacement is what the factory makes for the baseline, and otherwise the builder that serialized
  the item is kept.\<close>

theorem reclaim_replaces_builder:
  assumes "writer_ok good s" and "encodes ops good item p" and "sw_policy s = Some slot"
    and "writer_write ops item s = Some (Ok (), s')"
  shows "\<exists>b cap. item (b_reset ops (sw_builder s)) = Some (Ok (), b) \<and> b_mut_finished_buffer ops b = Some cap \<and>
    sw_builder s' =
      (if ws_baseline_capacity slot < cap \<and>
          fst (should_reset (ws_policy_ops slot) (ws_policy slot) (length p) cap) \<noteq> None
       then fst (ws_make_builder slot (ws_factory slot) (ws_baseline_capacity slot)) else b)"
proof -
  from assms(1,2) obtain b cap where b: "item (b_reset ops (sw_builder s)) = Some (Ok (), b)"
    "b_finished_data ops b = Some p" "b_mut_finished_buffer ops b = Some cap"
    by (auto simp: encodes_def writer_ok_def)
  with assms(4) obtain u s2 where "frame_and_write p (s\<lparr>sw_builder := b\<rparr>) = Some (Ok u, s2)"
    and after: "(if sw_policy s2 \<noteq> None then writer_evaluate_memory_policy ops (length p) s2 else Some (Ok (), s2))
      = Some (Ok (), s')"
    by (auto simp: writer_write_def Let_def elim: bindp_OkE)
  with frame_and_write_keeps [of p "s\<lparr>sw_builder := b\<rparr>"] assms(3)
  have s2: "sw_builder s2 = b" "sw_policy s2 = Some slot" by simp_all
  with after have "writer_evaluate_memory_policy ops (length p) s2 = Some (Ok (), s')" by simp
  from evaluate_writer_builder [OF this] b s2 show ?thesis by auto
qed

theorem reclaim_replaces_builder_witness:
  "sw_builder (snd (the (writer_write sample_builder (sample_item [5]) sample_writer))) = (4, None)"
proof -
  let ?s' = "snd (the (writer_write sample_builder (sample_item [5]) sample_writer))"
  let ?slot = "the (sw_policy sample_writer)"
  have lib: "library_framer vec_write (\<lambda>_. []) (\<lambda>p. length p \<le> u32_max) (sw_framer sample_writer)"
    by (simp add: sample_writer_fields plain_framer)
  from exact_frame_writer.writer_write_exact [OF library_framer_exact [OF lib vec_sink.reliable_sink_axioms]
      sample_writer_fields(5) sample_encodes refl TrueI, of "[5]"]
  have run: "writer_write sample_builder (sample_item [5]) sample_writer = Some (Ok (), ?s')"
    by (auto simp: u32_max_def)
  have slot: "sw_policy sample_writer = Some ?slot"
    by (simp add: sample_writer_def writer_with_memory_policy_def)
  from reclaim_replaces_builder [OF sample_writer_fields(5) sample_encodes slot run] show ?thesis
    by (simp add: sample_item_def sample_writer_fields)
      (simp add: sample_writer_def writer_with_memory_policy_def sample_builder_def SizeThresholdPolicy_def
        size_threshold_should_reset_def size_threshold_new_def u32_saturating_add_def u32_max_def)
qed

text \<open>Expert mode writes the frame of the caller's finished payload, or rejects it and writes
  nothing, and leaves the writer's own builder and policy alone.\<close>

lemma expert_mode_ignores_policy:
  assumes "library_framer wr field accept (sw_framer s)" and "reliable_sink wr written wpatience open_sink"
    and "open_sink (sw_writer s)" and "b_finished_data ops b = Some p"
  shows "\<exists>out s'. write_finished ops b s = Some (out, s') \<and>
    sw_builder s' = sw_builder s \<and> sw_policy s' = sw_policy s \<and>
    (if accept p then out = Ok () \<and> written (sw_writer s') = written (sw_writer s) @ encode_frame field p
     else (\<exists>e. out = Err e) \<and> sw_writer s' = sw_writer s)"
proof -
  from write_finished_exact [OF library_framer_exact [OF assms(1,2)] assms(3,4)]
  obtain out s' where run: "write_finished ops b s = Some (out, s')"
    and res: "if accept p then out = Ok () \<and> open_sink (sw_writer s') \<and> written (sw_writer s') = written (sw_writer s) @ encode_frame field p
      else (\<exists>e. out = Err e) \<and> sw_writer s' = sw_writer s" by auto
  with write_finished_keeps [OF run] show ?thesis by (intro exI [of _ out] exI [of _ s']) (simp split: if_splits)
qed

lemma expert_mode_ignores_policy_witness:
  "\<exists>s'. write_finished sample_builder (0, Some [7, 7]) sample_writer = Some (Ok (), s') \<and>
     sw_policy s' = sw_policy sample_writer \<and> sw_writer s' = encode_frame (\<lambda>_. []) [7, 7]"
proof -
  have lib: "library_framer vec_write (\<lambda>_. []) (\<lambda>p. length p \<le> u32_max) (sw_framer sample_writer)"
    by (simp add: sample_writer_fields plain_framer)
  have data: "b_finished_data sample_builder (0, Some [7, 7]) = Some [7, 7]" by (simp add: sample_builder_def)
  from expert_mode_ignores_policy [OF lib vec_sink.reliable_sink_axioms TrueI data]
  show ?thesis by (auto simp: sample_writer_fields u32_max_def)
qed

end
