(* ===== verification/FS_Recover.thy ===== *)
theory FS_Recover
  imports FS_Deframing
begin

text \<open>
  \<^verbatim>\<open>src/recover.rs\<close>: the counting reader, the recovery scan and its variant for seekable
  files. The scan is proved to compute the report that the abstract parse of the stream
  prescribes, with the offset exact and the loop terminating.
\<close>

section \<open>Reports\<close>

datatype recovery_end = CleanEof | TornTail

record recovery_report =
  rep_frames :: u64
  rep_last_good_offset :: u64
  rep_end :: recovery_end

section \<open>The counting reader\<close>

record 'r counting_reader =
  cr_inner :: 'r
  cr_count :: u64

definition counting_read :: "'r read_op \<Rightarrow> 'r counting_reader read_op" where
  "counting_read rd c n =
     (case rd (cr_inner c) n of
        (Ok bs, r') \<Rightarrow> (Ok bs, c\<lparr>cr_inner := r', cr_count := cr_count c + word_of_nat (length bs)\<rparr>)
      | (Err e, r') \<Rightarrow> (Err e, c\<lparr>cr_inner := r'\<rparr>)
      | (Panic, r') \<Rightarrow> (Panic, c\<lparr>cr_inner := r'\<rparr>))"

section \<open>The scan\<close>

partial_function (option) recover_loop ::
  "('r counting_reader, 'o) deframer \<Rightarrow> recovery_report \<Rightarrow> ('r counting_reader, 'o) rx \<Rightarrow>
   ((error, recovery_report) outcome \<times> ('r counting_reader, 'o) rx) option" where
  "recover_loop dfr report s =
     (case read_and_deframe dfr s of
        None \<Rightarrow> None
      | Some (out, s') \<Rightarrow>
          (case out of
             Ok got \<Rightarrow>
               (case got of
                  Some n \<Rightarrow>
                    recover_loop dfr
                      (report\<lparr>rep_frames := rep_frames report + 1,
                              rep_last_good_offset := cr_count (rx_source s')\<rparr>) s'
                | None \<Rightarrow> Some (Ok (report\<lparr>rep_end := CleanEof\<rparr>), s'))
           | Err e \<Rightarrow>
               Some (if kind e = UnexpectedEof then Ok (report\<lparr>rep_end := TornTail\<rparr>) else Err e, s')
           | Panic \<Rightarrow> Some (Panic, s')))"

declare recover_loop.simps [code]

definition recover ::
  "('r counting_reader, 'o) deframer \<Rightarrow> 'r \<Rightarrow> 'o \<Rightarrow>
   ((error, recovery_report) outcome \<times> ('r counting_reader, 'o) rx) option" where
  "recover dfr reader world =
     recover_loop dfr
       \<lparr>rep_frames = 0, rep_last_good_offset = 0, rep_end = TornTail\<rparr>
       \<lparr>rx_source = \<lparr>cr_inner = reader, cr_count = 0\<rparr>, rx_buffer = vec_new, rx_world = world\<rparr>"

definition recover_file ::
  "'r seek_op \<Rightarrow> ('r counting_reader, 'o) deframer \<Rightarrow> 'r \<Rightarrow> 'o \<Rightarrow>
   ((error, recovery_report) outcome \<times> 'r \<times> 'o) option" where
  "recover_file seek_start dfr reader world =
     (case seek_start reader 0 of
        (Err e, r1) \<Rightarrow> Some (Err (error_of_io e), r1, world)
      | (Panic, r1) \<Rightarrow> Some (Panic, r1, world)
      | (Ok _, r1) \<Rightarrow>
          (case recover dfr r1 world of
             None \<Rightarrow> None
           | Some (Err e, s) \<Rightarrow> Some (Err e, cr_inner (rx_source s), rx_world s)
           | Some (Panic, s) \<Rightarrow> Some (Panic, cr_inner (rx_source s), rx_world s)
           | Some (Ok report, s) \<Rightarrow>
               (case seek_start (cr_inner (rx_source s)) (rep_last_good_offset report) of
                  (Err e, r2) \<Rightarrow> Some (Err (error_of_io e), r2, rx_world s)
                | (Panic, r2) \<Rightarrow> Some (Panic, r2, rx_world s)
                | (Ok _, r2) \<Rightarrow> Some (Ok report, r2, rx_world s))))"

section \<open>What the scan should report\<close>

text \<open>
  From the parse of the stream: the intact frames, the offset one past the last of them, and
  how the stream ends. Only a torn frame is a result; any other defect is the error itself.
\<close>

definition recover_spec :: "frame_format \<Rightarrow> bytes \<Rightarrow> (error, recovery_report) outcome" where
  "recover_spec fmt bs =
     (let ps = fst (scan fmt bs);
          report = (\<lambda>e. \<lparr>rep_frames = word_of_nat (length ps),
                         rep_last_good_offset = word_of_nat (stream_size fmt ps),
                         rep_end = e\<rparr>)
      in case snd (scan fmt bs) of
           Clean \<Rightarrow> Ok (report CleanEof)
         | Stopped e \<Rightarrow> (if e = unexpected_eof then Ok (report TornTail) else Err e))"

lemma kind_unexpected_eof: "kind e = UnexpectedEof \<longleftrightarrow> e = unexpected_eof"
  by (cases e) (simp add: error_defs)

section \<open>Counting is exact\<close>

text \<open>
  Through the counting reader a source stays one, with the same faults, and the count
  is the number of bytes that have been taken off \<open>total\<close>.
\<close>

locale counted_source = byte_source rd content patience healthy
  for rd :: "'r read_op" and content :: "'r \<Rightarrow> bytes" and patience :: "'r \<Rightarrow> nat"
    and healthy :: "'r \<Rightarrow> bool" +
  fixes total :: bytes
begin

definition counted_ok :: "'r counting_reader \<Rightarrow> bool" where
  "counted_ok c \<longleftrightarrow> healthy (cr_inner c) \<and>
     (\<exists>pre. total = pre @ content (cr_inner c) \<and> cr_count c = word_of_nat (length pre))"

lemma counted_okE:
  assumes "counted_ok c"
  obtains pre where "healthy (cr_inner c)" "total = pre @ content (cr_inner c)"
    "cr_count c = word_of_nat (length pre)"
  using assms by (auto simp: counted_ok_def)

text \<open>Between two states the count advances by the bytes consumed.\<close>

lemma count_advances:
  assumes "counted_ok c" and "counted_ok c'"
    and "length (content (cr_inner c)) = n + length (content (cr_inner c'))"
  shows "cr_count c' = cr_count c + word_of_nat n"
proof -
  from assms(1) obtain pre where 1: "total = pre @ content (cr_inner c)"
    "cr_count c = word_of_nat (length pre)" by (rule counted_okE)
  from assms(2) obtain pre' where 2: "total = pre' @ content (cr_inner c')"
    "cr_count c' = word_of_nat (length pre')" by (rule counted_okE)
  have "length pre' = length pre + n"
    using arg_cong [OF 1(1), of length] arg_cong [OF 2(1), of length] assms(3) by simp
  with 1(2) 2(2) show ?thesis by simp
qed

lemma counting_read_Ok:
  assumes "counted_ok c" and "0 < n" and "counting_read rd c n = (Ok bs, c')"
  shows "counted_ok c' \<and> content (cr_inner c) = bs @ content (cr_inner c') \<and> length bs \<le> n \<and>
    (bs = [] \<longrightarrow> content (cr_inner c) = [])"
proof -
  from assms(1) obtain pre where pre: "healthy (cr_inner c)" "total = pre @ content (cr_inner c)"
    "cr_count c = word_of_nat (length pre)" by (rule counted_okE)
  from assms(3) obtain r' where rd: "rd (cr_inner c) n = (Ok bs, r')"
    and c': "c' = c\<lparr>cr_inner := r', cr_count := cr_count c + word_of_nat (length bs)\<rparr>"
    by (auto simp: counting_read_def split: prod.splits outcome.splits)
  note laws = read_Ok [OF pre(1) assms(2) rd]
  then have "total = (pre @ bs) @ content r'" using pre(2) by simp
  moreover have "cr_count c + word_of_nat (length bs) = word_of_nat (length (pre @ bs))"
    using pre(3) by simp
  ultimately have "counted_ok c'"
    unfolding counted_ok_def c' using laws by (intro conjI exI [of _ "pre @ bs"]) simp_all
  with laws c' show ?thesis by auto
qed

end

sublocale counted_source \<subseteq> counted: byte_source "counting_read rd"
  "\<lambda>c. content (cr_inner c)" "\<lambda>c. patience (cr_inner c)" counted_ok
proof unfold_locales
  fix c c' bs and n :: nat
  assume "counted_ok c" "0 < n" "counting_read rd c n = (Ok bs, c')"
  then show "counted_ok c' \<and> content (cr_inner c) = bs @ content (cr_inner c') \<and> length bs \<le> n \<and>
    (bs = [] \<longrightarrow> content (cr_inner c) = [])" by (rule counting_read_Ok)
next
  fix c c' e and n :: nat
  assume ok: "counted_ok c" and n: "0 < n" and rd: "counting_read rd c n = (Err e, c')"
  then obtain r' where "rd (cr_inner c) n = (Err e, r')" and c': "c' = c\<lparr>cr_inner := r'\<rparr>"
    by (auto simp: counting_read_def split: prod.splits outcome.splits)
  with ok n show "counted_ok c' \<and> content (cr_inner c') = content (cr_inner c) \<and>
      (io_kind e = Interrupted \<longrightarrow> patience (cr_inner c') < patience (cr_inner c))"
    using read_Err [of "cr_inner c" n e r']
    by (auto simp: counted_ok_def)
next
  fix c c' and n :: nat
  assume "counted_ok c" "0 < n"
  then show "counting_read rd c n \<noteq> (Panic, c')"
    using read_not_Panic [of "cr_inner c" n]
    by (auto simp: counting_read_def counted_ok_def split: prod.splits outcome.splits)
qed

section \<open>The scan computes the report\<close>

text \<open>
  The loop keeps the last good offset equal to the count at the start of each frame; every
  frame shortens the content, so the loop ends.
\<close>

text \<open>
  What a fault makes of recovery: its error, unless its kind is \<^verbatim>\<open>UnexpectedEof\<close>; then a report of some
  of the frames, those before it.
\<close>

definition fault_outcome :: "frame_format \<Rightarrow> recovery_report \<Rightarrow> bytes \<Rightarrow> io_error \<Rightarrow>
    (error, recovery_report) outcome \<Rightarrow> bool" where
  "fault_outcome fmt rep c e out \<longleftrightarrow>
     (if io_kind e = UnexpectedEofKind
      then \<exists>qs stop. prefix qs (fst (scan fmt c)) \<and>
        out = Ok \<lparr>rep_frames = rep_frames rep + word_of_nat (length qs),
          rep_last_good_offset = rep_last_good_offset rep + word_of_nat (stream_size fmt qs), rep_end = stop\<rparr>
      else out = Err (error_of_io e))"

lemma fault_outcome_now:
  assumes "io_kind e = UnexpectedEofKind"
  shows "fault_outcome fmt rep c e (Ok (rep\<lparr>rep_end := stop\<rparr>))"
  using assms by (auto simp: fault_outcome_def intro!: exI [of _ "[]"] exI [of _ stop])

lemma fault_outcome_step:
  assumes "next_frame fmt c = Frame p rest"
    and "fault_outcome fmt (rep\<lparr>rep_frames := rep_frames rep + 1,
      rep_last_good_offset := rep_last_good_offset rep + word_of_nat (frame_size fmt p)\<rparr>) rest e out"
  shows "fault_outcome fmt rep c e out"
proof (cases "io_kind e = UnexpectedEofKind")
  case True
  with assms(2) obtain qs stop where "prefix qs (fst (scan fmt rest))"
    "out = Ok \<lparr>rep_frames = rep_frames rep + 1 + word_of_nat (length qs),
       rep_last_good_offset = rep_last_good_offset rep + word_of_nat (frame_size fmt p) + word_of_nat (stream_size fmt qs),
       rep_end = stop\<rparr>" by (auto simp: fault_outcome_def)
  with True show ?thesis
    by (auto simp: fault_outcome_def scan_Frame [OF assms(1)] algebra_simps
        intro!: exI [of _ "p # qs"] exI [of _ stop])
qed (use assms(2) in \<open>simp add: fault_outcome_def\<close>)

context counted_source
begin

lemma counting_source:
  "byte_source (counting_read rd) (\<lambda>c. content (cr_inner c)) (\<lambda>c. patience (cr_inner c)) counted_ok"
  by (rule counted.byte_source_axioms)

lemma counted_device_fault: "device_fault (counting_read rd) counted_ok e \<Longrightarrow> device_fault rd healthy e"
proof -
  assume "device_fault (counting_read rd) counted_ok e"
  then obtain c n c' where "io_kind e \<noteq> Interrupted" "healthy (cr_inner c)" "0 < n"
    and "counting_read rd c n = (Err e, c')"
    by (auto simp: device_fault_def counted_ok_def)
  moreover from this(4) obtain r' where "rd (cr_inner c) n = (Err e, r')"
    by (auto simp: counting_read_def split: prod.splits outcome.splits)
  ultimately show "device_fault rd healthy e" unfolding device_fault_def by blast
qed

lemma recover_loop_scan:
  assumes reader: "fault_reader (counting_read rd) (\<lambda>c. content (cr_inner c))
      (\<lambda>c. patience (cr_inner c)) counted_ok dfr fmt"
    and "counted_ok (rx_source s)" and "rep_last_good_offset rep = cr_count (rx_source s)"
  shows "\<exists>out s'. counted_ok (rx_source s') \<and> recover_loop dfr rep s = Some (out, s') \<and>
    ((\<exists>e. device_fault rd healthy e \<and> fault_outcome fmt rep (content (cr_inner (rx_source s))) e out) \<or>
     out = (let (ps, stop) = scan fmt (content (cr_inner (rx_source s)));
         report = rep\<lparr>rep_frames := rep_frames rep + word_of_nat (length ps),
           rep_last_good_offset := rep_last_good_offset rep + word_of_nat (stream_size fmt ps)\<rparr>
     in case stop of Clean \<Rightarrow> Ok (report\<lparr>rep_end := CleanEof\<rparr>)
        | Stopped e \<Rightarrow> if e = unexpected_eof then Ok (report\<lparr>rep_end := TornTail\<rparr>) else Err e))"
  using assms(2,3)
proof (induction "length (content (cr_inner (rx_source s)))" arbitrary: rep s rule: less_induct)
  case less
  let ?c = "content (cr_inner (rx_source s))"
  obtain out s1 where run: "read_and_deframe dfr s = Some (out, s1)" and ok1: "counted_ok (rx_source s1)"
    and res: "faulted (counting_read rd) counted_ok out \<or>
      deframed (\<lambda>c. content (cr_inner c)) counted_ok fmt s out s1"
    using fault_reader.deframe_or_fault [OF reader less.prems(1)] by blast
  note step = recover_loop.simps [of dfr rep s] run
  from res show ?case
  proof
    assume "faulted (counting_read rd) counted_ok out"
    then show ?thesis
    proof (cases rule: faultedE)
      case (passed e)
      then have "recover_loop dfr rep s = Some (Err (error_of_io e), s1)"
        by (simp add: step kind_unexpected_eof)
      with ok1 counted_device_fault [OF passed(1)] passed(2) show ?thesis by (auto simp: fault_outcome_def)
    next
      case (ended e)
      then obtain stop where "recover_loop dfr rep s = Some (Ok (rep\<lparr>rep_end := stop\<rparr>), s1)"
        by (auto simp: step kind_unexpected_eof)
      with ok1 counted_device_fault [OF ended(1)] fault_outcome_now [OF ended(2)] show ?thesis by blast
    qed
  next
    assume d: "deframed (\<lambda>c. content (cr_inner c)) counted_ok fmt s out s1"
    show ?thesis
    proof (cases "next_frame fmt ?c")
      case EndOfStream
      with d ok1 show ?thesis by (auto simp: step deframed_def scan_End)
    next
      case (Bad e)
      with d ok1 show ?thesis by (auto simp: step deframed_def scan_Bad kind_unexpected_eof)
    next
      case (Frame p rest)
      then have out: "out = Ok (Some (length p))" and rest: "content (cr_inner (rx_source s1)) = rest"
        using d by (simp_all add: deframed_def)
      have size: "length ?c = frame_size fmt p + length rest"
        using next_frame_FrameD(3) [OF Frame] by (simp add: frame_size_def)
      then have "length (content (cr_inner (rx_source s1))) < length ?c"
        by (simp add: rest frame_size_def)
      note IH = less.hyps [OF this ok1]
      have count: "cr_count (rx_source s1) = cr_count (rx_source s) + word_of_nat (frame_size fmt p)"
        by (rule count_advances [OF less.prems(1) ok1]) (simp add: size rest)
      let ?rep = "rep\<lparr>rep_frames := rep_frames rep + 1, rep_last_good_offset := cr_count (rx_source s1)\<rparr>"
      have "recover_loop dfr rep s = recover_loop dfr ?rep s1"
        by (simp add: step out)
      then show ?thesis using IH [of ?rep] count less.prems(2) fault_outcome_step [OF Frame, of rep]
        by (simp add: scan_Frame [OF Frame] rest split_beta algebra_simps) blast
    qed
  qed
qed

lemma recover_or_fault:
  assumes reader: "fault_reader (counting_read rd) (\<lambda>c. content (cr_inner c))
      (\<lambda>c. patience (cr_inner c)) counted_ok dfr fmt"
    and "healthy r" and "content r = total"
  shows "\<exists>out s'. recover dfr r world = Some (out, s') \<and> counted_ok (rx_source s') \<and>
    (out = recover_spec fmt total \<or> (\<exists>e. device_fault rd healthy e \<and>
       fault_outcome fmt \<lparr>rep_frames = 0, rep_last_good_offset = 0, rep_end = TornTail\<rparr> total e out))"
proof -
  let ?s = "\<lparr>rx_source = \<lparr>cr_inner = r, cr_count = 0\<rparr>, rx_buffer = vec_new, rx_world = world\<rparr>"
  let ?rep = "\<lparr>rep_frames = 0, rep_last_good_offset = 0, rep_end = TornTail\<rparr>"
  have "counted_ok (rx_source ?s)"
    using assms(2,3) by (simp add: counted_ok_def)
  from recover_loop_scan [OF reader this, of ?rep] show ?thesis
    by (auto simp: recover_def recover_spec_def assms(3) split_beta Let_def split: scan_end.splits if_splits)
qed

end

section \<open>Files\<close>

text \<open>A seekable file whose bytes are \<open>disk\<close>: reading leaves them in place.\<close>

locale pinned_file = seekable_source rd content patience healthy seek_start whole position
  for rd :: "'r read_op" and content :: "'r \<Rightarrow> bytes" and patience :: "'r \<Rightarrow> nat"
    and healthy :: "'r \<Rightarrow> bool" and seek_start :: "'r seek_op" and whole :: "'r \<Rightarrow> bytes"
    and position :: "'r \<Rightarrow> nat" +
  fixes disk :: bytes

sublocale pinned_file \<subseteq> pinned: counted_source rd content patience
  "\<lambda>r. healthy r \<and> whole r = disk" disk
proof unfold_locales
  fix r n bs r'
  assume "healthy r \<and> whole r = disk" "0 < (n :: nat)" "rd r n = (Ok bs, r')"
  then show "(healthy r' \<and> whole r' = disk) \<and> content r = bs @ content r' \<and> length bs \<le> n \<and>
      (bs = [] \<longrightarrow> content r = [])"
    using read_Ok [of r n bs r'] read_keeps_file [of r n "Ok bs" r'] by auto
next
  fix r n e r'
  assume "healthy r \<and> whole r = disk" "0 < (n :: nat)" "rd r n = (Err e, r')"
  then show "(healthy r' \<and> whole r' = disk) \<and> content r' = content r \<and>
      (io_kind e = Interrupted \<longrightarrow> patience r' < patience r)"
    using read_Err [of r n e r'] read_keeps_file [of r n "Err e" r'] by auto
qed (use read_not_Panic in blast)

context pinned_file
begin

lemma pinned_counting:
  "byte_source (counting_read rd) (\<lambda>c. content (cr_inner c)) (\<lambda>c. patience (cr_inner c)) pinned.counted_ok"
  by (rule pinned.counting_source)

lemma pinned_no_fault: "\<not> device_fault rd (\<lambda>r. healthy r \<and> whole r = disk) e"
  using only_interrupted by (auto simp: device_fault_def)

lemma recover_file_correct:
  assumes library: "library_deframer (counting_read rd) fmt dfr"
    and "healthy r" and "whole r = disk"
  shows "\<exists>out r' world'. recover_file seek_start dfr r world = Some (out, r', world') \<and>
    out = recover_spec fmt disk \<and> whole r' = disk \<and> healthy r' \<and>
    (\<forall>report. out = Ok report \<longrightarrow> position r' = unat (rep_last_good_offset report) \<and>
       content r' = drop (unat (rep_last_good_offset report)) disk)"
proof -
  note reader = library_deframer_or_fault [OF library pinned_counting]
  obtain r1 where r1: "seek_start r 0 = (Ok 0, r1)" "healthy r1" "whole r1 = disk" "content r1 = disk"
    using seek_start_law [OF assms(2), of 0] assms(3) by auto
  obtain s where s: "recover dfr r1 world = Some (recover_spec fmt disk, s)"
    and "pinned.counted_ok (rx_source s)"
    using pinned.recover_or_fault [OF reader, of r1 world] r1 pinned_no_fault by auto
  then have ok: "healthy (cr_inner (rx_source s))" "whole (cr_inner (rx_source s)) = disk"
    by (simp_all add: pinned.counted_ok_def)
  show ?thesis
  proof (cases "recover_spec fmt disk")
    case (Ok report)
    with r1 s ok show ?thesis
      using seek_start_law [OF ok(1), of "rep_last_good_offset report"]
      by (auto simp: recover_file_def)
  next
    case (Err e)
    with r1 s ok show ?thesis by (auto simp: recover_file_def)
  next
    case Panic
    then show ?thesis
      by (auto simp: recover_spec_def Let_def split: scan_end.splits if_splits)
  qed
qed

end

interpretation cursor_journal: counted_source cursor_read cursor_rest "\<lambda>_. 0" "\<lambda>_. True" total for total
  by unfold_locales

interpretation cursor_pinned: pinned_file cursor_read cursor_rest "\<lambda>_. 0" "\<lambda>_. True"
    cursor_seek_start cursor_data cursor_pos disk for disk
  by unfold_locales

section \<open>The library's deframers\<close>

lemma library_recover_or_fault:
  assumes "library_deframer (counting_read rd) fmt dfr" and "byte_source rd content patience healthy"
    and "healthy r"
  shows "\<exists>out s'. recover dfr r world = Some (out, s') \<and>
    (out = recover_spec fmt (content r) \<or> (\<exists>e. device_fault rd healthy e \<and>
       fault_outcome fmt \<lparr>rep_frames = 0, rep_last_good_offset = 0, rep_end = TornTail\<rparr> (content r) e out))"
proof -
  have c: "counted_source rd content patience healthy"
    using assms(2) by (rule counted_source.intro)
  then have "byte_source (counting_read rd) (\<lambda>c. content (cr_inner c)) (\<lambda>c. patience (cr_inner c))
      (counted_source.counted_ok content healthy (content r))"
    by (rule counted_source.counting_source)
  with assms(1) have "fault_reader (counting_read rd) (\<lambda>c. content (cr_inner c)) (\<lambda>c. patience (cr_inner c))
      (counted_source.counted_ok content healthy (content r)) dfr fmt"
    by (rule library_deframer_or_fault)
  from counted_source.recover_or_fault [OF c this assms(3) refl, of world] show ?thesis by blast
qed

lemma library_recover:
  assumes "library_deframer (counting_read rd) fmt dfr" and "reliable_source rd content patience healthy"
    and "healthy r"
  shows "\<exists>s'. recover dfr r world = Some (recover_spec fmt (content r), s')"
  using library_recover_or_fault [OF assms(1) reliable_source.axioms(1) [OF assms(2)] assms(3)]
    reliable_source.no_device_fault [OF assms(2)] by blast

lemma recover_spec_result:
  assumes "scan fmt bs = (ps, stop)"
  shows "recover_spec fmt bs =
    (let report = (\<lambda>e. \<lparr>rep_frames = word_of_nat (length ps),
           rep_last_good_offset = word_of_nat (stream_size fmt ps), rep_end = e\<rparr>)
     in case stop of Clean \<Rightarrow> Ok (report CleanEof)
        | Stopped e \<Rightarrow> if e = unexpected_eof then Ok (report TornTail) else Err e)"
  using assms by (simp add: recover_spec_def)

section \<open>Properties\<close>

text \<open>C6: On a reliable reader, recovery with any stack of the library's deframers returns, and
  reports what parsing the stream gives: the number of intact frames, the offset one past the last
  of them, whether the stream ends cleanly there or in a torn frame; any other defect is returned
  as the error it is.\<close>

theorem recover_reports_parse:
  assumes "library_deframer (counting_read rd) fmt dfr" and "reliable_source rd content patience healthy"
    and "healthy r"
  shows "\<exists>s'. recover dfr r world = Some
    (case scan fmt (content r) of
       (ps, Clean) \<Rightarrow> Ok \<lparr>rep_frames = word_of_nat (length ps),
           rep_last_good_offset = word_of_nat (stream_size fmt ps), rep_end = CleanEof\<rparr>
     | (ps, Stopped e) \<Rightarrow>
         if e = unexpected_eof
         then Ok \<lparr>rep_frames = word_of_nat (length ps),
           rep_last_good_offset = word_of_nat (stream_size fmt ps), rep_end = TornTail\<rparr>
         else Err e, s')"
  using library_recover [OF assms, of world]
  by (auto simp: recover_spec_def Let_def split_beta split: scan_end.splits prod.splits)

lemma sample_deframer: "library_deframer rd (plain_format 16) (DefaultDeframer rd \<lparr>dd_max_frame_len = 16\<rparr>)"
  using plain_deframer [where d = "\<lparr>dd_max_frame_len = 16\<rparr>"] by simp

lemma sample_size: "stream_size (plain_format 16) [[9]] = 5"
  by (simp add: frame_size_def plain_format_def)

lemma sample_scan: "scan (plain_format 16) [1, 0, 0, 0, 9, 2, 0, 0, 0, 8] = ([[9]], Stopped unexpected_eof)"
proof -
  have "next_frame (plain_format 16) [1, 0, 0, 0, 9, 2, 0, 0, 0, 8] = Frame [9] [2, 0, 0, 0, 8]" by code_simp
  moreover have "next_frame (plain_format 16) [2, 0, 0, 0, 8] = Bad unexpected_eof" by code_simp
  ultimately show ?thesis by (simp add: scan_Frame scan_Bad)
qed

theorem recover_reports_parse_witness:
  "\<exists>s'. recover (DefaultDeframer (counting_read cursor_read) \<lparr>dd_max_frame_len = 16\<rparr>)
      (cursor_new [1, 0, 0, 0, 9, 2, 0, 0, 0, 8]) () =
    Some (Ok \<lparr>rep_frames = 1, rep_last_good_offset = 5, rep_end = TornTail\<rparr>, s')"
  using recover_reports_parse [OF sample_deframer cursor_source.reliable_source_axioms,
      where r = "cursor_new [1, 0, 0, 0, 9, 2, 0, 0, 0, 8]" and world = "()"]
  by (simp add: sample_scan sample_size del: stream_size_simps)

text \<open>C3: However an append-only journal of acceptable frames is cut short, recovery reports exactly
  the frames that are whole before the cut and the offset where they end, and calls the end torn if
  and only if the cut fell inside a frame.\<close>

theorem recover_after_any_crash:
  assumes "library_deframer (counting_read rd) fmt dfr" and "reliable_source rd content patience healthy"
    and "healthy r" and "speaks field fmt ok" and "list_all (\<lambda>p. fits fmt p \<and> ok p) ps"
    and "n \<le> length (encode_stream field ps)" and "content r = take n (encode_stream field ps)"
  shows "\<exists>qs rs s'. ps = qs @ rs \<and> stream_size fmt qs \<le> n \<and>
    (rs \<noteq> [] \<longrightarrow> n < stream_size fmt qs + frame_size fmt (hd rs)) \<and>
    recover dfr r world = Some (Ok \<lparr>rep_frames = word_of_nat (length qs),
      rep_last_good_offset = word_of_nat (stream_size fmt qs),
      rep_end = (if n = stream_size fmt qs then CleanEof else TornTail)\<rparr>, s')"
proof -
  obtain qs rs where cut: "ps = qs @ rs" "stream_size fmt qs \<le> n"
    "rs \<noteq> [] \<longrightarrow> n < stream_size fmt qs + frame_size fmt (hd rs)"
    and parse: "scan fmt (content r) = (qs, if n = stream_size fmt qs then Clean else Stopped unexpected_eof)"
    using wire_codec.scan_cut [OF speaks_wire_codec [OF assms(4)] assms(5,6)]
    unfolding assms(7) [symmetric] by blast
  obtain s' where "recover dfr r world = Some (recover_spec fmt (content r), s')"
    using library_recover [OF assms(1-3)] by blast
  with cut recover_spec_result [OF parse] show ?thesis
    by (intro exI [of _ qs] exI [of _ rs] exI [of _ s']) (simp add: Let_def)
qed

theorem recover_after_any_crash_witness:
  "\<exists>qs rs s'. [[9], [8, 7]] = qs @ rs \<and>
    recover (DefaultDeframer (counting_read cursor_read) \<lparr>dd_max_frame_len = 16\<rparr>)
      (cursor_new (take 8 (encode_stream (\<lambda>_. []) [[9], [8, 7]]))) () =
    Some (Ok \<lparr>rep_frames = word_of_nat (length qs),
      rep_last_good_offset = word_of_nat (stream_size (plain_format 16) qs),
      rep_end = (if 8 = stream_size (plain_format 16) qs then CleanEof else TornTail)\<rparr>, s')"
proof -
  let ?r = "cursor_new (take 8 (encode_stream (\<lambda>_. []) [[9], [8, 7]]))"
  have fits: "list_all (\<lambda>p. fits (plain_format 16) p \<and> True) [[9], [8, 7]]"
    by (simp add: fits_def plain_format_def u32_max_def)
  have len: "8 \<le> length (encode_stream (\<lambda>_. []) [[9], [8, 7]])"
    by (simp add: encode_frame_def)
  have content: "cursor_rest ?r = take 8 (encode_stream (\<lambda>_. []) [[9], [8, 7]])"
    by (simp del: encode_stream_simps)
  from recover_after_any_crash [OF sample_deframer cursor_source.reliable_source_axioms TrueI
      speaks_plain fits len content, of "()"]
  show ?thesis by blast
qed

text \<open>C12: On a reader that may fail in any way, recovery returns, and returns what it returns without any
  fault, or the error of a fault of the device, as the I/O error it is. The one exception is a device that
  reports its own failure with the kind \<^verbatim>\<open>UnexpectedEof\<close>: such a fault does become a report, which is not what
  the stream parses to, but even then every frame it counts is an intact frame of the stream, in order, and
  the offset is where the last of them ends.\<close>

theorem recovery_under_device_faults:
  assumes "library_deframer (counting_read rd) fmt dfr" and "byte_source rd content patience healthy"
    and "healthy r"
  shows "\<exists>out s'. recover dfr r world = Some (out, s') \<and>
    (out = recover_spec fmt (content r) \<or>
     (\<exists>e. device_fault rd healthy e \<and>
        (if io_kind e = UnexpectedEofKind
         then \<exists>qs stop. prefix qs (fst (scan fmt (content r))) \<and>
           out = Ok \<lparr>rep_frames = word_of_nat (length qs),
             rep_last_good_offset = word_of_nat (stream_size fmt qs), rep_end = stop\<rparr>
         else out = Err (error_of_io e))))"
  using library_recover_or_fault [OF assms, of world]
  by (simp only: fault_outcome_def recovery_report.select_convs add_0_left)

text \<open>The device fails inside the second frame.\<close>

definition recover_failing :: "nat \<Rightarrow> io_error \<Rightarrow> (error, recovery_report) outcome option" where
  "recover_failing k e = map_option fst
     (recover (DefaultDeframer (counting_read (failing_read k e)) \<lparr>dd_max_frame_len = 16\<rparr>)
        (cursor_new [1, 0, 0, 0, 9, 2, 0, 0, 0, 8, 7]) ())"

lemma recover_failing_run:
  "recover_failing 7 disk_error = Some (Err (error_of_io disk_error))"
  "recover_failing 7 eof_kind_error = Some (Ok \<lparr>rep_frames = 1, rep_last_good_offset = 5, rep_end = TornTail\<rparr>)"
  by code_simp+

theorem recovery_under_device_faults_witness:
  "recover_failing 7 disk_error = Some (Err (error_of_io disk_error)) \<and>
   (\<exists>qs. prefix qs [[9], [8, 7]] \<and> recover_failing 7 eof_kind_error =
      Some (Ok \<lparr>rep_frames = word_of_nat (length qs),
        rep_last_good_offset = word_of_nat (stream_size (plain_format 16) qs), rep_end = TornTail\<rparr>))"
proof -
  have lib: "library_deframer (counting_read (failing_read k e)) (plain_format 16)
      (DefaultDeframer (counting_read (failing_read k e)) \<lparr>dd_max_frame_len = 16\<rparr>)" for k e
    by (rule sample_deframer)
  have kind: "io_kind eof_kind_error = UnexpectedEofKind" "io_kind eof_kind_error \<noteq> Interrupted"
    by (simp_all add: eof_kind_error_def)
  have scan: "scan (plain_format 16) [1, 0, 0, 0, 9, 2, 0, 0, 0, 8, 7] = ([[9], [8, 7]], Clean)" by code_simp
  from recovery_under_device_faults [OF lib failing_source [OF kind(2)] TrueI,
      of 7 "cursor_new [1, 0, 0, 0, 9, 2, 0, 0, 0, 8, 7]" "()"]
  obtain out where out: "recover_failing 7 eof_kind_error = Some out"
    "out = recover_spec (plain_format 16) [1, 0, 0, 0, 9, 2, 0, 0, 0, 8, 7] \<or> (\<exists>qs stop. prefix qs [[9], [8, 7]] \<and>
       out = Ok \<lparr>rep_frames = word_of_nat (length qs),
         rep_last_good_offset = word_of_nat (stream_size (plain_format 16) qs), rep_end = stop\<rparr>)"
    by (auto simp: recover_failing_def failing_fault kind scan simp del: stream_size_simps)
  moreover have "recover_spec (plain_format 16) [1, 0, 0, 0, 9, 2, 0, 0, 0, 8, 7] \<noteq>
      Ok \<lparr>rep_frames = 1, rep_last_good_offset = 5, rep_end = TornTail\<rparr>"
    by (simp add: recover_spec_def scan Let_def)
  ultimately show ?thesis using recover_failing_run by auto
qed

text \<open>A frame that is present but defective, whatever its position and whatever follows, makes
  recovery return its error and no report: corruption that the deframer detects never authorizes
  truncation.\<close>

lemma detected_corruption_is_an_error:
  assumes "library_deframer (counting_read rd) fmt dfr" and "reliable_source rd content patience healthy"
    and "healthy r" and "speaks field fmt ok" and "list_all (\<lambda>p. fits fmt p \<and> ok p) ps"
    and "content r = encode_stream field ps @ damaged"
    and "next_frame fmt damaged = Bad e" and "e \<noteq> unexpected_eof"
  shows "\<exists>s'. recover dfr r world = Some (Err e, s')"
proof -
  have "scan fmt (content r) = (ps, Stopped e)"
    using wire_codec.scan_encode [OF speaks_wire_codec [OF assms(4)] assms(5), of damaged] assms(6,7)
    by (simp add: scan_Bad)
  with library_recover [OF assms(1-3), of world] assms(8) show ?thesis
    by (simp add: recover_spec_result Let_def)
qed

lemma detected_corruption_is_an_error_witness:
  "\<exists>s'. recover (DefaultDeframer (counting_read cursor_read) \<lparr>dd_max_frame_len = 16\<rparr>)
      (cursor_new (encode_stream (\<lambda>_. []) [[9]] @ [17, 0, 0, 0, 1])) () = Some (Err (frame_too_long 17 16), s')"
proof -
  have fits: "list_all (\<lambda>p. fits (plain_format 16) p \<and> True) [[9]]"
    by (simp add: fits_def plain_format_def u32_max_def)
  have bad: "next_frame (plain_format 16) [17, 0, 0, 0, 1] = Bad (frame_too_long 17 16)"
    by code_simp
  have "frame_too_long 17 16 \<noteq> unexpected_eof" by (simp add: frame_too_long_def error_defs)
  from detected_corruption_is_an_error [OF sample_deframer cursor_source.reliable_source_axioms TrueI
      speaks_plain fits cursor_rest_new bad this] show ?thesis .
qed



text \<open>C10: Recovering a file leaves its bytes as they were and the cursor at the reported offset; a
  file truncated there parses cleanly to the reported frames, and frames appended from there are
  read back after them.\<close>

theorem recovered_file_can_be_resumed:
  assumes "library_deframer (counting_read rd) fmt dfr"
    and "seekable_source rd content patience healthy seek_start whole position" and "healthy r"
    and "length (whole r) < 2 ^ 64" and "recover_file seek_start dfr r world = Some (Ok report, r', world')"
    and "speaks field fmt ok" and "list_all (\<lambda>p. fits fmt p \<and> ok p) new"
  shows "whole r' = whole r \<and> position r' = unat (rep_last_good_offset report) \<and>
    position r' = stream_size fmt (fst (scan fmt (whole r))) \<and>
    scan fmt (take (position r') (whole r) @ encode_stream field new) =
      (fst (scan fmt (whole r)) @ new, Clean)"
proof -
  have "pinned_file rd content patience healthy seek_start whole position"
    using assms(2) by (rule pinned_file.intro)
  from pinned_file.recover_file_correct [OF this assms(1,3) refl, of world] assms(5)
  have res: "whole r' = whole r" "position r' = unat (rep_last_good_offset report)"
    and spec: "recover_spec fmt (whole r) = Ok report" by auto
  let ?ps = "fst (scan fmt (whole r))"
  have "rep_last_good_offset report = word_of_nat (stream_size fmt ?ps)"
    using spec by (auto simp: recover_spec_def Let_def split: scan_end.splits if_splits)
  moreover have "stream_size fmt ?ps < 2 ^ 64"
    using scan_prefix [of fmt "whole r"] assms(4) by simp
  ultimately have pos: "position r' = stream_size fmt ?ps"
    using res(2) by (simp add: unat_of_nat)
  have "scan fmt (take (position r') (whole r)) = (?ps, Clean)"
    unfolding pos by (rule scan_truncate)
  moreover have "scan fmt (encode_stream field new) = (new, Clean)"
    using wire_codec.scan_encode [OF speaks_wire_codec [OF assms(6)] assms(7), of "[]"] by simp
  ultimately have "scan fmt (take (position r') (whole r) @ encode_stream field new) = (?ps @ new, Clean)"
    by (simp add: scan_append_clean)
  with res pos show ?thesis by blast
qed

theorem recovered_file_can_be_resumed_witness:
  "\<exists>r'. recover_file cursor_seek_start (DefaultDeframer (counting_read cursor_read) \<lparr>dd_max_frame_len = 16\<rparr>)
      (cursor_new [1, 0, 0, 0, 9, 2, 0, 0, 0, 8]) () =
    Some (Ok \<lparr>rep_frames = 1, rep_last_good_offset = 5, rep_end = TornTail\<rparr>, r', ()) \<and> cursor_pos r' = 5 \<and>
    scan (plain_format 16) ([1, 0, 0, 0, 9] @ encode_stream (\<lambda>_. []) [[3, 4]]) = ([[9], [3, 4]], Clean)"
proof -
  let ?r = "cursor_new [1, 0, 0, 0, 9, 2, 0, 0, 0, 8]"
  let ?report = "\<lparr>rep_frames = 1, rep_last_good_offset = 5, rep_end = TornTail\<rparr>"
  have whole: "cursor_data ?r = [1, 0, 0, 0, 9, 2, 0, 0, 0, 8]" by (simp add: cursor_new_def)
  have spec: "recover_spec (plain_format 16) (cursor_data ?r) = Ok ?report"
    by (simp add: whole recover_spec_def sample_scan sample_size del: stream_size_simps)
  obtain r' where run: "recover_file cursor_seek_start
      (DefaultDeframer (counting_read cursor_read) \<lparr>dd_max_frame_len = 16\<rparr>) ?r () = Some (Ok ?report, r', ())"
    using cursor_pinned.recover_file_correct [OF sample_deframer TrueI refl, of ?r "()"] spec by auto
  have small: "length (cursor_data ?r) < 2 ^ 64" by (simp add: whole)
  have fits: "list_all (\<lambda>p. fits (plain_format 16) p \<and> True) [[3, 4]]"
    by (simp add: fits_def plain_format_def u32_max_def)
  note resumed = recovered_file_can_be_resumed [OF sample_deframer cursor_file.seekable_source_axioms TrueI
      small run speaks_plain fits]
  from resumed have pos: "cursor_pos r' = 5" by simp
  with resumed have "scan (plain_format 16) ([1, 0, 0, 0, 9] @ encode_stream (\<lambda>_. []) [[3, 4]]) =
      ([[9], [3, 4]], Clean)" by (simp add: whole sample_scan)
  with run pos show ?thesis by blast
qed

end
