(* ===== verification/FS_Unit_Tests.thy ===== *)
theory FS_Unit_Tests
  imports FS_Reader FS_Writer
begin

text \<open>
  The crate's own unit tests (the \<^verbatim>\<open>#[cfg(test)]\<close> modules of \<^verbatim>\<open>src/*.rs\<close>) run on the model. A test is
  a truth value: every assertion in it holds and no \<^verbatim>\<open>unwrap\<close> fails. Where a test uses a hash
  function or the FlatBuffers builder it takes them as arguments, and the lemma that it passes is
  about all of them.
\<close>

fun is_ok :: "('e, 'a) outcome \<Rightarrow> bool" where
  "is_ok (Ok _) = True"
| "is_ok (Err _) = False"
| "is_ok Panic = False"

fun is_err :: "('e, 'a) outcome \<Rightarrow> bool" where
  "is_err (Err _) = True"
| "is_err (Ok _) = False"
| "is_err Panic = False"

definition byte_string :: "string \<Rightarrow> bytes" where
  "byte_string text = map (\<lambda>c. of_char c) text"

section \<open>Errors\<close>

definition invalid_frame_context_renders_on_demand :: bool where
  "invalid_frame_context_renders_on_demand \<longleftrightarrow>
     (let plain = invalid_frame ''bad frame'';
          full = invalid_frame_with ''too large'' (Some 10) None (Some 4)
      in display_error plain = ''Invalid frame: bad frame'' \<and>
         display_error full = ''Invalid frame: too large (declared_len=10, limit=4)'')"

definition source_chain_preserved :: bool where
  "source_chain_preserved \<longleftrightarrow>
     (let err = error_of_io (IoError (OtherKind ''Other'') ''disk fault'')
      in case error_source err of Some (Inl source) \<Rightarrow> io_text source = ''disk fault'' | _ \<Rightarrow> False)"

lemma error_tests_pass: "invalid_frame_context_renders_on_demand \<and> source_chain_preserved"
  by code_simp

section \<open>Checksums\<close>

definition verifies_only_its_checksum :: "checksum \<Rightarrow> bytes \<Rightarrow> bool" where
  "verifies_only_its_checksum checksum payload \<longleftrightarrow>
     (let result = cs_calculate checksum payload
      in result \<noteq> 0 \<and> is_ok (cs_verify checksum result payload) \<and>
         is_err (cs_verify checksum (result + 1) payload))"

definition test_xxhash64_checksum :: "(bytes \<Rightarrow> u64) \<Rightarrow> bool" where
  "test_xxhash64_checksum xxh3_64 \<longleftrightarrow> verifies_only_its_checksum (XxHash64 xxh3_64) (byte_string ''test data'')"

definition test_no_checksum :: bool where
  "test_no_checksum \<longleftrightarrow>
     (let payload = byte_string ''test data''; result = cs_calculate NoChecksum payload
      in result = 0 \<and> is_ok (cs_verify NoChecksum 0 payload) \<and> is_ok (cs_verify NoChecksum 123 payload))"

definition test_crc32_checksum :: "(bytes \<Rightarrow> u32) \<Rightarrow> bool" where
  "test_crc32_checksum crc32fast_hash \<longleftrightarrow>
     verifies_only_its_checksum (Crc32 crc32fast_hash) (byte_string ''test data'') \<and>
     cs_SIZE (Crc32 crc32fast_hash) = 4"

definition test_crc16_checksum :: "(bytes \<Rightarrow> 16 word) \<Rightarrow> bool" where
  "test_crc16_checksum crc16_xmodem \<longleftrightarrow>
     verifies_only_its_checksum (Crc16 crc16_xmodem) (byte_string ''test data'') \<and>
     cs_SIZE (Crc16 crc16_xmodem) = 2"

definition test_checksum_sizes :: "(bytes \<Rightarrow> u64) \<Rightarrow> (bytes \<Rightarrow> u32) \<Rightarrow> (bytes \<Rightarrow> 16 word) \<Rightarrow> bool" where
  "test_checksum_sizes xxh3_64 crc32fast_hash crc16_xmodem \<longleftrightarrow>
     cs_SIZE NoChecksum = 0 \<and> cs_SIZE (XxHash64 xxh3_64) = 8 \<and>
     cs_SIZE (Crc32 crc32fast_hash) = 4 \<and> cs_SIZE (Crc16 crc16_xmodem) = 2"

text \<open>The known answers pin the hash functions; as a predicate they are documented behaviour of the crates.\<close>

definition known_answer_vectors :: "(bytes \<Rightarrow> u64) \<Rightarrow> (bytes \<Rightarrow> u32) \<Rightarrow> (bytes \<Rightarrow> 16 word) \<Rightarrow> bool" where
  "known_answer_vectors xxh3_64 crc32fast_hash crc16_xmodem \<longleftrightarrow>
     cs_calculate (Crc32 crc32fast_hash) (byte_string ''123456789'') = 0xCBF43926 \<and>
     cs_calculate (Crc16 crc16_xmodem) (byte_string ''123456789'') = 0x31C3 \<and>
     cs_calculate (XxHash64 xxh3_64) (byte_string ''123456789'') = 0x72DCB18B67A17DFF"

definition checksum_roundtrip :: "checksum \<Rightarrow> u64 \<Rightarrow> bool" where
  "checksum_roundtrip alg value \<longleftrightarrow>
     (let wire = snd (cs_write_bytes alg value);
          mask = (if cs_SIZE alg = 8 then - 1 else push_bit (8 * cs_SIZE alg) 1 - 1)
      in length wire = cs_SIZE alg \<and> wire = take (cs_SIZE alg) (le_bytes 8 value) \<and>
         cs_read_bytes alg wire = Some (value AND mask))"

definition test_write_read_bytes_roundtrip_and_width ::
  "(bytes \<Rightarrow> u64) \<Rightarrow> (bytes \<Rightarrow> u32) \<Rightarrow> (bytes \<Rightarrow> 16 word) \<Rightarrow> bool" where
  "test_write_read_bytes_roundtrip_and_width xxh3_64 crc32fast_hash crc16_xmodem \<longleftrightarrow>
     (let probe = 0x1122334455667788
      in checksum_roundtrip NoChecksum probe \<and> checksum_roundtrip (XxHash64 xxh3_64) probe \<and>
         checksum_roundtrip (Crc32 crc32fast_hash) probe \<and> checksum_roundtrip (Crc16 crc16_xmodem) probe)"

definition Sum8 :: checksum where
  "Sum8 = checksum_default 1 (\<lambda>payload. 0xABCD0000 OR sum_list (map ucast payload))"

definition mismatch_diagnostics_are_limited_to_wire_width :: bool where
  "mismatch_diagnostics_are_limited_to_wire_width \<longleftrightarrow>
     (case cs_verify Sum8 0 (byte_string ''abc'') of
        Err err \<Rightarrow>
          (case into_kind err of
             ChecksumMismatch expected calculated \<Rightarrow>
               expected = 0 \<and>
               calculated = (of_char (CHR ''a'') + of_char (CHR ''b'') + of_char (CHR ''c'')) AND 0xFF
           | _ \<Rightarrow> False)
      | _ \<Rightarrow> False)"

definition Sum16 :: checksum where
  "Sum16 = checksum_default 2 (\<lambda>payload. sum_list (map ucast payload))"

definition read_bytes_panics_on_short_input_as_documented :: bool where
  "read_bytes_panics_on_short_input_as_documented \<longleftrightarrow> cs_read_bytes Sum16 [0] = None"

text \<open>A checksum that is not zero, and whose successor differs in the field, is what the tests need.\<close>

lemma verifies_only_its_checksum_default:
  assumes "calc p \<noteq> 0" and "0 < sz" and "sz \<le> 8"
  shows "verifies_only_its_checksum (checksum_default sz calc) p"
proof -
  have "even (take_bit (8 * sz) (calc p + 1)) \<noteq> even (take_bit (8 * sz) (calc p))"
    using assms(2) by (simp add: even_take_bit_eq)
  then have "take_bit (8 * sz) (calc p) \<noteq> take_bit (8 * sz) (calc p + 1)" by metis
  with assms show ?thesis
    by (simp add: verifies_only_its_checksum_def checksum_default_def verify_default_def and_width_mask Let_def)
qed

lemma checksum_roundtrip_default: "sz \<le> 8 \<Longrightarrow> checksum_roundtrip (checksum_default sz calc) v"
  using read_bytes_default_field [of sz v "[]"]
  by (auto simp: checksum_roundtrip_def checksum_default_def write_bytes_default_def width_mask_def Let_def)

lemma checksum_roundtrip_NoChecksum: "checksum_roundtrip NoChecksum v"
  by (simp add: checksum_roundtrip_def NoChecksum_def checksum_default_def write_bytes_default_def
      read_bytes_default_def numeral_eq_Suc)

lemma ucast_nonzero:
  "w \<noteq> 0 \<Longrightarrow> (ucast (w :: u32) :: u64) \<noteq> 0" "v \<noteq> 0 \<Longrightarrow> (ucast (v :: 16 word) :: u64) \<noteq> 0"
  by (auto simp: bit_eq_iff bit_simps) (force intro: less_trans)+

lemma checksum_tests_pass:
  shows "xxh3_64 (byte_string ''test data'') \<noteq> 0 \<Longrightarrow> test_xxhash64_checksum xxh3_64"
    and "crc32fast_hash (byte_string ''test data'') \<noteq> 0 \<Longrightarrow> test_crc32_checksum crc32fast_hash"
    and "crc16_xmodem (byte_string ''test data'') \<noteq> 0 \<Longrightarrow> test_crc16_checksum crc16_xmodem"
    and "test_no_checksum"
    and "test_checksum_sizes xxh3_64 crc32fast_hash crc16_xmodem"
    and "test_write_read_bytes_roundtrip_and_width xxh3_64 crc32fast_hash crc16_xmodem"
    and "mismatch_diagnostics_are_limited_to_wire_width"
    and "read_bytes_panics_on_short_input_as_documented"
proof -
  note nonzero = ucast_nonzero
  show "xxh3_64 (byte_string ''test data'') \<noteq> 0 \<Longrightarrow> test_xxhash64_checksum xxh3_64"
    by (simp add: test_xxhash64_checksum_def XxHash64_def verifies_only_its_checksum_default)
  show "crc32fast_hash (byte_string ''test data'') \<noteq> 0 \<Longrightarrow> test_crc32_checksum crc32fast_hash"
    by (simp add: test_crc32_checksum_def Crc32_def verifies_only_its_checksum_default nonzero)
      (simp add: checksum_default_def)
  show "crc16_xmodem (byte_string ''test data'') \<noteq> 0 \<Longrightarrow> test_crc16_checksum crc16_xmodem"
    by (simp add: test_crc16_checksum_def Crc16_def verifies_only_its_checksum_default nonzero)
      (simp add: checksum_default_def)
  show "test_no_checksum" by (simp add: test_no_checksum_def NoChecksum_def checksum_default_def)
  show "test_checksum_sizes xxh3_64 crc32fast_hash crc16_xmodem"
    by (simp add: test_checksum_sizes_def NoChecksum_def XxHash64_def Crc32_def Crc16_def checksum_default_def)
  show "test_write_read_bytes_roundtrip_and_width xxh3_64 crc32fast_hash crc16_xmodem"
    by (simp add: test_write_read_bytes_roundtrip_and_width_def XxHash64_def Crc32_def Crc16_def
        checksum_roundtrip_default checksum_roundtrip_NoChecksum Let_def)
  show "mismatch_diagnostics_are_limited_to_wire_width" by code_simp
  show "read_bytes_panics_on_short_input_as_documented"
    by (simp add: read_bytes_panics_on_short_input_as_documented_def Sum16_def checksum_default_def
        read_bytes_default_def numeral_eq_Suc)
qed

section \<open>Validators\<close>

fun fails_in :: "string \<Rightarrow> (error, unit) outcome \<Rightarrow> bool" where
  "fails_in name (Err e) = (case kind e of ValidationFailed validator _ \<Rightarrow> validator = name | _ \<Rightarrow> False)"
| "fails_in name (Ok _) = False"
| "fails_in name Panic = False"

definition no_validator_is_noop :: bool where
  "no_validator_is_noop \<longleftrightarrow> is_ok (v_validate NoValidator (byte_string ''anything''))"

definition size_validator_bounds_test :: bool where
  "size_validator_bounds_test \<longleftrightarrow>
     (let v = SizeValidator (size_validator_new 3 5)
      in is_ok (v_validate v (byte_string ''abc'')) \<and>
         fails_in ''SizeValidator'' (v_validate v (byte_string ''ab'')) \<and>
         fails_in ''SizeValidator'' (v_validate v (byte_string ''abcdef'')))"

definition structural_validator_rejects_tiny_buffer :: "visit_table \<Rightarrow> bool" where
  "structural_validator_rejects_tiny_buffer visit \<longleftrightarrow>
     (let sv = TableRootValidator visit table_root_new; small = replicate 2 0
      in fails_in ''TableRootValidator'' (v_validate sv small))"

text \<open>The buffer that the builder makes of an empty table is an argument.\<close>

definition structural_validator_accepts_valid_table :: "visit_table \<Rightarrow> bytes \<Rightarrow> bool" where
  "structural_validator_accepts_valid_table visit buf \<longleftrightarrow>
     (let sv = TableRootValidator visit table_root_new in is_ok (v_validate sv buf))"

definition composite_validator_runs_all :: "visit_table \<Rightarrow> bytes \<Rightarrow> bool" where
  "composite_validator_runs_all visit buf \<longleftrightarrow>
     (let composite = composite_add (composite_add composite_new (SizeValidator (size_validator_new 1 10000)))
            (TableRootValidator visit table_root_new);
          bad = byte_string ''ab'';
          composite' = composite_add composite_new (SizeValidator (size_validator_new 3 10))
      in is_ok (composite_validate composite buf) \<and>
         fails_in ''SizeValidator'' (composite_validate composite' bad))"

lemma validator_tests_pass:
  shows "no_validator_is_noop" and "size_validator_bounds_test"
    and "structural_validator_rejects_tiny_buffer visit"
    and "length buf = 4 + n \<Longrightarrow> n < 9997 \<Longrightarrow> (\<And>opts k. visit opts buf k = None) \<Longrightarrow>
      structural_validator_accepts_valid_table visit buf \<and> composite_validator_runs_all visit buf"
proof -
  show "no_validator_is_noop" by (simp add: no_validator_is_noop_def NoValidator_def)
  show "size_validator_bounds_test" by code_simp
  show "structural_validator_rejects_tiny_buffer visit"
    by (simp add: structural_validator_rejects_tiny_buffer_def TableRootValidator_def table_root_validate_def
        error_defs)
  assume buf: "length buf = 4 + n" "n < 9997" "\<And>opts k. visit opts buf k = None"
  have "table_root_validate visit table_root_new buf = Ok ()"
    using buf by (simp add: table_root_validate_def Let_def)
  moreover have "size_validate (size_validator_new 1 10000) buf = Ok ()"
    using buf by (simp add: size_validate_def size_validator_new_def)
  moreover have "size_validate (size_validator_new 3 10) (byte_string ''ab'') =
      Err (validation_failed ''SizeValidator'' ''payload size 2 is less than min 3'')" by code_simp
  ultimately show "structural_validator_accepts_valid_table visit buf \<and> composite_validator_runs_all visit buf"
    by (simp add: structural_validator_accepts_valid_table_def composite_validator_runs_all_def
        composite_validate_def composite_add_def composite_new_def TableRootValidator_def SizeValidator_def
        error_defs Let_def)
qed

section \<open>Policies\<close>

text \<open>A run of consultations at one capacity, each with the verdict that is asserted.\<close>

fun consults :: "('p \<Rightarrow> nat \<Rightarrow> nat \<Rightarrow> reclamation_reason option \<times> 'p) \<Rightarrow> nat \<Rightarrow>
    (nat \<times> reclamation_reason option) list \<Rightarrow> 'p \<Rightarrow> 'p option" where
  "consults step capacity [] p = Some p"
| "consults step capacity ((msg_size, expected) # script) p =
     (let (verdict, p') = step p msg_size capacity
      in if verdict = expected then consults step capacity script p' else None)"

definition duration_from_millis :: "nat \<Rightarrow> duration" where
  "duration_from_millis ms = ms * 1000000"

text \<open>The simulated clock: a cell shared with the policy, which the test advances.\<close>

type_synonym test_clock = u64

definition test_clock_now :: "test_clock clock" where
  "test_clock_now c = (duration_from_millis (unat c), c)"

definition advance_ms :: "u64 \<Rightarrow> test_clock adaptive \<Rightarrow> test_clock adaptive" where
  "advance_ms ms p = p\<lparr>aw_clock := aw_clock p + ms\<rparr>"

definition monotonic_clock_is_monotonic :: "machine \<Rightarrow> bool" where
  "monotonic_clock_is_monotonic m \<longleftrightarrow>
     (let (first, clock) = monotonic_clock_now (monotonic_clock_new m)
      in first \<le> fst (monotonic_clock_now clock))"

definition test_noop_policy :: bool where
  "test_noop_policy \<longleftrightarrow> consults noop_should_reset 1000 [(100, None), (1000, None)] () \<noteq> None"

definition test_adaptive_hysteresis :: "machine \<Rightarrow> bool" where
  "test_adaptive_hysteresis m \<longleftrightarrow>
     (let step = adaptive_should_reset monotonic_clock_now; capacity = 1000
      in case consults step capacity [(150, None)] (adaptive_new 10 3 m) of
           None \<Rightarrow> False
         | Some p1 \<Rightarrow> aw_messages_since_over p1 = 0 \<and>
      (case consults step capacity [(90, None)] p1 of
           None \<Rightarrow> False
         | Some p2 \<Rightarrow> aw_messages_since_over p2 = 1 \<and>
      (case consults step capacity [(80, None)] p2 of
           None \<Rightarrow> False
         | Some p3 \<Rightarrow> aw_messages_since_over p3 = 2 \<and>
      (case consults step capacity [(200, None)] p3 of
           None \<Rightarrow> False
         | Some p4 \<Rightarrow> aw_messages_since_over p4 = 0 \<and>
      (case consults step capacity [(50, None), (50, None), (50, Some MessageCount)] p4 of
           None \<Rightarrow> False
         | Some p5 \<Rightarrow> aw_messages_since_over p5 = 0)))))"

definition test_adaptive_cooldown :: bool where
  "test_adaptive_cooldown \<longleftrightarrow>
     (let policy = adaptive_with_cooldown (adaptive_with_clock 10 100 0) (duration_from_millis 50);
          step = adaptive_should_reset test_clock_now; capacity = 1000; small_msg = 50
      in case consults step capacity [(small_msg, None)] policy of
           None \<Rightarrow> False
         | Some p1 \<Rightarrow> aw_last_over_seen_at p1 \<noteq> None \<and>
      (case consults step capacity [(small_msg, None)] p1 of
           None \<Rightarrow> False
         | Some p2 \<Rightarrow>
      (case consults step capacity [(small_msg, Some TimeCooldown)] (advance_ms 60 p2) of
           None \<Rightarrow> False
         | Some p3 \<Rightarrow> aw_messages_since_over p3 = 0)))"

definition test_adaptive_cooldown_timer_resets_after_fire :: bool where
  "test_adaptive_cooldown_timer_resets_after_fire \<longleftrightarrow>
     (let policy = adaptive_with_cooldown (adaptive_with_clock 10 100 0) (duration_from_millis 50);
          step = adaptive_should_reset test_clock_now; capacity = 1000; small_msg = 50
      in case consults step capacity [(small_msg, None)] policy of
           None \<Rightarrow> False
         | Some p1 \<Rightarrow>
      (case consults step capacity [(small_msg, Some TimeCooldown)] (advance_ms 60 p1) of
           None \<Rightarrow> False
         | Some p2 \<Rightarrow>
      (case consults step capacity [(small_msg, None)] (advance_ms 60 p2) of
           None \<Rightarrow> False
         | Some p3 \<Rightarrow>
      (case consults step capacity [(small_msg, Some TimeCooldown)] (advance_ms 60 p3) of
           None \<Rightarrow> False
         | Some _ \<Rightarrow> True))))"

definition test_size_threshold_policy :: bool where
  "test_size_threshold_policy \<longleftrightarrow>
     consults size_threshold_should_reset 8192
       [(100, None), (100, None), (100, None), (5000, None), (100, None), (500, None), (100, None),
        (100, Some SizeThreshold), (100, None), (100, None), (100, None), (5000, None), (100, None),
        (100, Some SizeThreshold)] (size_threshold_new 1000 200 2) \<noteq> None"

lemma policy_tests_pass:
  "monotonic_clock_is_monotonic m" "test_noop_policy" "test_adaptive_hysteresis m"
  "test_adaptive_cooldown" "test_adaptive_cooldown_timer_resets_after_fire" "test_size_threshold_policy"
proof -
  show "monotonic_clock_is_monotonic m"
    by (auto simp: monotonic_clock_is_monotonic_def monotonic_clock_now_def instant_now_def Let_def
        split: list.splits)
  show "test_noop_policy" by (simp add: test_noop_policy_def noop_should_reset_def)
  show "test_adaptive_hysteresis m" by (simp add: test_adaptive_hysteresis_def sample_eval)
  show "test_adaptive_cooldown"
    by (simp add: test_adaptive_cooldown_def sample_eval test_clock_now_def duration_from_millis_def advance_ms_def)
  show "test_adaptive_cooldown_timer_resets_after_fire"
    by (simp add: test_adaptive_cooldown_timer_resets_after_fire_def sample_eval test_clock_now_def
        duration_from_millis_def advance_ms_def)
  show "test_size_threshold_policy" by (simp add: test_size_threshold_policy_def sample_eval)
qed

section \<open>Reader and writer\<close>

text \<open>
  The FlatBuffers builder and its two calls for a string root are arguments; \<open>string_roots\<close> says that a
  string written into a reset builder is finished as the payload \<open>enc\<close> gives, whatever the builder
  has been used for before.
\<close>

type_synonym ('b, 'offset) string_builder = "(string \<Rightarrow> 'b \<Rightarrow> 'offset \<times> 'b) \<times> ('offset \<Rightarrow> 'b \<Rightarrow> 'b)"

definition string_root :: "'b builder_ops \<Rightarrow> ('b, 'offset) string_builder \<Rightarrow> string \<Rightarrow> 'b \<Rightarrow> 'b" where
  "string_root ops sb s builder =
     (let (data, builder') = fst sb s (b_reset ops builder) in snd sb data builder')"

definition string_roots :: "'b builder_ops \<Rightarrow> ('b, 'offset) string_builder \<Rightarrow> (string \<Rightarrow> bytes) \<Rightarrow> bool" where
  "string_roots ops sb enc \<longleftrightarrow> (\<forall>s b. b_finished_data ops (string_root ops sb s b) = Some (enc s) \<and>
     b_mut_finished_buffer ops (string_root ops sb s b) \<noteq> None)"

fun write_stream_loop :: "'b builder_ops \<Rightarrow> ('b, 'offset) string_builder \<Rightarrow> string list \<Rightarrow> 'b \<Rightarrow> bytes list \<Rightarrow>
    (cursor, unit, 'b, unit, unit) stream_writer \<Rightarrow> (bytes \<times> bytes list) option" where
  "write_stream_loop ops sb [] builder expected writer =
     Some (cursor_data (writer_into_inner writer), expected)"
| "write_stream_loop ops sb (msg # messages) builder expected writer =
     (let builder1 = string_root ops sb msg builder
      in case b_finished_data ops builder1 of
           None \<Rightarrow> None
         | Some payload \<Rightarrow>
             (case write_finished ops builder1 writer of
                Some (Ok _, writer') \<Rightarrow>
                  write_stream_loop ops sb messages builder1 (expected @ [payload]) writer'
              | _ \<Rightarrow> None))"

definition write_stream :: "'b builder_ops \<Rightarrow> ('b, 'offset) string_builder \<Rightarrow> (cursor, unit) framer \<Rightarrow>
    string list \<Rightarrow> (bytes \<times> bytes list) option" where
  "write_stream ops sb framer messages =
     write_stream_loop ops sb messages (b_new ops) [] (writer_new ops (cursor_new []) framer ())"

text \<open>Whatever the framer, the stream is the frames of the payloads.\<close>

lemma write_stream_loop_frames:
  assumes "library_framer cursor_write field accept (sw_framer w)" and "string_roots ops sb enc"
    and "list_all (\<lambda>s. accept (enc s)) messages"
    and "cursor_pos (sw_writer w) = length (cursor_data (sw_writer w))"
  shows "write_stream_loop ops sb messages b expected w =
    Some (cursor_data (sw_writer w) @ encode_stream field (map enc messages), expected @ map enc messages)"
  using assms
proof (induction messages arbitrary: b expected w)
  case Nil
  then show ?case by (simp add: writer_into_inner_def)
next
  case (Cons msg messages)
  have data: "b_finished_data ops (string_root ops sb msg b) = Some (enc msg)"
    using Cons.prems(2) by (simp add: string_roots_def)
  obtain out t where run: "sw_framer w (enc msg) \<lparr>tx_sink = sw_writer w, tx_world = sw_world w\<rparr> = Some (out, t)"
    and res: "out = Ok ()" "cursor_pos (tx_sink t) = length (cursor_data (tx_sink t))"
      "cursor_data (tx_sink t) = cursor_data (sw_writer w) @ encode_frame field (enc msg)"
    using exact_frame_writer.frame_exact [OF library_framer_exact
        [OF Cons.prems(1) cursor_sink.reliable_sink_axioms],
        of "\<lparr>tx_sink = sw_writer w, tx_world = sw_world w\<rparr>" "enc msg"] Cons.prems(3,4) by auto
  let ?w = "w\<lparr>sw_writer := tx_sink t, sw_world := tx_world t\<rparr>"
  have "write_finished ops (string_root ops sb msg b) w = Some (Ok (), ?w)"
    using run res(1) by (simp add: write_finished_def frame_and_write_def data)
  with Cons.IH [of ?w "string_root ops sb msg b" "expected @ [enc msg]"] Cons.prems res data show ?case
    by simp
qed

lemma write_stream_frames:
  assumes "library_framer cursor_write field accept fr" and "string_roots ops sb enc"
    and "list_all (\<lambda>s. accept (enc s)) messages"
  shows "write_stream ops sb fr messages = Some (encode_stream field (map enc messages), map enc messages)"
  using write_stream_loop_frames [of field accept "writer_new ops (cursor_new []) fr ()" ops sb enc messages
      "b_new ops" "[]"] assms
  by (simp add: write_stream_def writer_new_def cursor_new_def)

subsection \<open>The tests\<close>

definition test_reader :: "bytes \<Rightarrow> (cursor, unit) deframer \<Rightarrow> (cursor, unit, unit) stream_reader" where
  "test_reader wire deframer = reader_new (cursor_new wire) deframer ()"

definition reads_exactly :: "(bytes \<times> bytes list) option \<Rightarrow> (cursor, unit) deframer \<Rightarrow> bool" where
  "reads_exactly stream deframer \<longleftrightarrow>
     (case stream of
        None \<Rightarrow> False
      | Some (wire, expected) \<Rightarrow>
          (case read_message (test_reader wire deframer) of
             Some (Ok (Some payload), reader) \<Rightarrow>
               payload = expected ! 0 \<and>
               (case read_message reader of Some (Ok None, _) \<Rightarrow> True | _ \<Rightarrow> False)
           | _ \<Rightarrow> False))"

definition read_message_returns_exact_payload ::
  "nat \<Rightarrow> 'b builder_ops \<Rightarrow> ('b, 'offset) string_builder \<Rightarrow> bool" where
  "read_message_returns_exact_payload fb_max ops sb \<longleftrightarrow>
     reads_exactly (write_stream ops sb (DefaultFramer cursor_write) [''test data''])
       (DefaultDeframer cursor_read (default_deframer_new fb_max))"

definition read_message_checksummed_returns_exact_payload ::
  "nat \<Rightarrow> (bytes \<Rightarrow> u64) \<Rightarrow> 'b builder_ops \<Rightarrow> ('b, 'offset) string_builder \<Rightarrow> bool" where
  "read_message_checksummed_returns_exact_payload fb_max xxh3_64 ops sb \<longleftrightarrow>
     (case (checksum_framer_new (XxHash64 xxh3_64), checksum_deframer_new fb_max (XxHash64 xxh3_64)) of
        (Some alg, Some deframer) \<Rightarrow>
          reads_exactly (write_stream ops sb (ChecksumFramer alg cursor_write) [''test data''])
            (ChecksumDeframer cursor_read deframer)
      | _ \<Rightarrow> False)"

definition expects :: "bytes list \<Rightarrow> bytes \<Rightarrow> (nat, error, unit) prog" where
  "expects expected payload count =
     (if count < length expected \<and> payload = expected ! count then Some (Ok (), count + 1)
      else Some (Panic, count))"

definition process_all_yields_every_payload_in_order ::
  "nat \<Rightarrow> 'b builder_ops \<Rightarrow> ('b, 'offset) string_builder \<Rightarrow> bool" where
  "process_all_yields_every_payload_in_order fb_max ops sb \<longleftrightarrow>
     (case write_stream ops sb (DefaultFramer cursor_write) [''one'', ''two'', ''three''] of
        None \<Rightarrow> False
      | Some (wire, expected) \<Rightarrow>
          (case process_all (expects expected)
              (test_reader wire (DefaultDeframer cursor_read (default_deframer_new fb_max)), 0) of
             Some (Ok _, _, count) \<Rightarrow> count = length expected
           | _ \<Rightarrow> False))"

partial_function (option) messages_loop ::
  "bytes list \<Rightarrow> ('r, 'o, 'p) stream_reader \<Rightarrow> nat \<Rightarrow> nat option" where
  "messages_loop expected s count =
     (case next_message s of
        None \<Rightarrow> None
      | Some (out, s') \<Rightarrow>
          (case out of
             Ok got \<Rightarrow>
               (case got of
                  None \<Rightarrow> Some count
                | Some payload \<Rightarrow>
                    if count < length expected \<and> payload = expected ! count
                    then messages_loop expected s' (count + 1) else None)
           | Err e \<Rightarrow> None
           | Panic \<Rightarrow> None))"

definition messages_iterator_yields_every_payload_in_order ::
  "nat \<Rightarrow> 'b builder_ops \<Rightarrow> ('b, 'offset) string_builder \<Rightarrow> bool" where
  "messages_iterator_yields_every_payload_in_order fb_max ops sb \<longleftrightarrow>
     (case write_stream ops sb (DefaultFramer cursor_write) [''one'', ''two'', ''three''] of
        None \<Rightarrow> False
      | Some (wire, expected) \<Rightarrow>
          messages_loop expected (test_reader wire (DefaultDeframer cursor_read (default_deframer_new fb_max))) 0
            = Some (length expected))"

definition empty_stream_is_clean_eof_on_both_apis :: "nat \<Rightarrow> bool" where
  "empty_stream_is_clean_eof_on_both_apis fb_max \<longleftrightarrow>
     (let reader = test_reader [] (DefaultDeframer cursor_read (default_deframer_new fb_max))
      in (case read_message reader of Some (Ok None, _) \<Rightarrow> True | _ \<Rightarrow> False) \<and>
         (case process_all (\<lambda>_ count. Some (Ok (), count + 1)) (reader, 0 :: nat) of
            Some (Ok _, _, count) \<Rightarrow> count = 0
          | _ \<Rightarrow> False))"

definition stops_at_third :: "bytes \<Rightarrow> (nat, error, unit) prog" where
  "stops_at_third payload count =
     (if count + 1 = 3
      then Some (Err (error_of_io (IoError (OtherKind ''Other'') ''Simulated processing error'')), count + 1)
      else Some (Ok (), count + 1))"

definition process_all_propagates_processor_error_and_stops ::
  "nat \<Rightarrow> 'b builder_ops \<Rightarrow> ('b, 'offset) string_builder \<Rightarrow> bool" where
  "process_all_propagates_processor_error_and_stops fb_max ops sb \<longleftrightarrow>
     (case write_stream ops sb (DefaultFramer cursor_write) [''a'', ''b'', ''c'', ''d'', ''e''] of
        None \<Rightarrow> False
      | Some (wire, _) \<Rightarrow>
          (case process_all stops_at_third
              (test_reader wire (DefaultDeframer cursor_read (default_deframer_new fb_max)), 0) of
             Some (Err err, _, count) \<Rightarrow>
               count = 3 \<and>
               (case into_kind err of
                  Io e \<Rightarrow> io_kind e = OtherKind ''Other'' \<and> io_text e = ''Simulated processing error''
                | _ \<Rightarrow> False)
           | _ \<Rightarrow> False))"

subsection \<open>They pass\<close>

lemma test_reader_simps [simp]:
  "sr_deframer (test_reader wire dfr) = dfr" "cursor_rest (sr_reader (test_reader wire dfr)) = wire"
  by (simp_all add: test_reader_def reader_new_def)

lemma read_next:
  assumes "library_deframer cursor_read fmt (sr_deframer s)" and "speaks field fmt ok"
    and "list_all (\<lambda>p. fits fmt p \<and> ok p) ps" and "cursor_rest (sr_reader s) = encode_stream field ps"
  shows "\<exists>s'. read_message s = Some (Ok (case ps of [] \<Rightarrow> None | p # _ \<Rightarrow> Some p), s') \<and>
    sr_deframer s' = sr_deframer s \<and>
    cursor_rest (sr_reader s') = encode_stream field (tl ps)"
proof -
  have "next_frame fmt (encode_frame field (hd ps) @ encode_stream field (tl ps)) =
      Frame (hd ps) (encode_stream field (tl ps))" if "ps \<noteq> []"
    using wire_codec.next_frame_encode [OF speaks_wire_codec [OF assms(2)], of "hd ps"] assms(3) that
    by (cases ps) auto
  with fault_reader.read_message_or_fault [OF library_deframer_or_fault
      [OF assms(1) cursor_source.byte_source_axioms] refl TrueI] assms(4) show ?thesis
    by (cases ps) (fastforce simp: cursor_source.not_faulted)+
qed

lemma reads_exactly_frame:
  assumes "library_deframer cursor_read fmt dfr" and "speaks field fmt ok" and "fits fmt p" and "ok p"
  shows "reads_exactly (Some (encode_stream field [p], [p])) dfr"
proof -
  let ?s = "test_reader (encode_stream field [p]) dfr"
  obtain s' where one: "read_message ?s = Some (Ok (Some p), s')" "sr_deframer s' = dfr"
    "cursor_rest (sr_reader s') = encode_stream field []"
    using read_next [of fmt ?s field ok "[p]"] assms by (auto simp del: encode_stream_simps)
  moreover obtain s'' where "read_message s' = Some (Ok None, s'')"
    using read_next [of fmt s' field ok "[]"] assms one by auto
  ultimately show ?thesis by (simp add: reads_exactly_def del: encode_stream_simps)
qed

lemma feed_expects: "feed (expects expected) (drop k expected) k = Some (Ok (), [], max k (length expected))"
proof (induction "length expected - k" arbitrary: k)
  case 0
  then show ?case by simp
next
  case (Suc n)
  then have k: "k < length expected" by simp
  with Suc show ?case by (simp add: Cons_nth_drop_Suc [symmetric] expects_def)
qed

lemma messages_loop_frames:
  assumes "library_deframer cursor_read fmt (sr_deframer s)" and "speaks field fmt ok"
    and "list_all (\<lambda>p. fits fmt p \<and> ok p) ps" and "cursor_rest (sr_reader s) = encode_stream field ps"
    and "expected = before @ ps"
  shows "messages_loop expected s (length before) = Some (length expected)"
  using assms
proof (induction ps arbitrary: s before)
  case Nil
  from read_next [OF Nil(1-4)] Nil(5) show ?case
    by (auto simp: messages_loop.simps next_message_def)
next
  case (Cons p ps)
  from read_next [OF Cons.prems(1-4)] obtain s' where "read_message s = Some (Ok (Some p), s')"
    "sr_deframer s' = sr_deframer s" "cursor_rest (sr_reader s') = encode_stream field ps" by auto
  with Cons.IH [of s' "before @ [p]"] Cons.prems show ?case
    by (simp add: messages_loop.simps [of "before @ p # ps" s] next_message_def)
qed

lemma reader_tests_pass:
  assumes "string_roots ops sb enc" and "\<And>s. length (enc s) \<le> fb_max" and "fb_max \<le> u32_max"
  shows "read_message_returns_exact_payload fb_max ops sb"
    and "read_message_checksummed_returns_exact_payload fb_max xxh3_64 ops sb"
    and "process_all_yields_every_payload_in_order fb_max ops sb"
    and "messages_iterator_yields_every_payload_in_order fb_max ops sb"
    and "process_all_propagates_processor_error_and_stops fb_max ops sb"
proof -
  let ?d = "default_deframer_new fb_max" and ?fmt = "plain_format fb_max"
  let ?plain = "\<lambda>_ :: bytes. [] :: bytes" and ?alg = "XxHash64 xxh3_64"
  have small: "length (enc s) \<le> u32_max" for s using assms(2) [of s] assms(3) by simp
  have d: "library_deframer cursor_read ?fmt (DefaultDeframer cursor_read ?d)"
    using plain_deframer [where d = ?d] by (simp add: default_deframer_new_def DEFAULT_MAX_FRAME_LEN_def)
  have fits: "fits ?fmt (enc s)" for s
    using assms(2) [of s] small [of s] by (simp add: fits_def plain_format_def)
  have stream: "write_stream ops sb (DefaultFramer cursor_write) msgs =
      Some (encode_stream ?plain (map enc msgs), map enc msgs)" for msgs
    by (rule write_stream_frames [OF plain_framer assms(1)]) (simp add: small list_all_iff)
  show "read_message_returns_exact_payload fb_max ops sb"
    using reads_exactly_frame [OF d speaks_plain fits TrueI]
    by (simp add: read_message_returns_exact_payload_def stream)
  have cd: "library_deframer cursor_read (checksum_format ?alg fb_max)
      (ChecksumDeframer cursor_read \<lparr>cd_checksum_alg = ?alg, cd_max_frame_len = fb_max\<rparr>)"
    using checksummed_deframer [where d = "\<lparr>cd_checksum_alg = ?alg, cd_max_frame_len = fb_max\<rparr>"]
      xxhash64.lawful_checksum_axioms by simp
  have cfits: "fits (checksum_format ?alg fb_max) (enc s)" for s
    using assms(2) [of s] small [of s] by (simp add: fits_def checksum_format_fields)
  have cstream: "write_stream ops sb (ChecksumFramer ?alg cursor_write) msgs =
      Some (encode_stream (checksum_field ?alg) (map enc msgs), map enc msgs)" for msgs
    by (rule write_stream_frames [OF checksummed_framer [OF xxhash64.lawful_checksum_axioms] assms(1)])
      (simp add: small list_all_iff)
  have "cs_SIZE ?alg \<le> 8" by (simp add: XxHash64_def checksum_default_def)
  then show "read_message_checksummed_returns_exact_payload fb_max xxh3_64 ops sb"
    using reads_exactly_frame [OF cd speaks_checksum [OF xxhash64.lawful_checksum_axioms] cfits TrueI]
    by (simp add: cstream read_message_checksummed_returns_exact_payload_def checksum_framer_new_def
        checksum_deframer_new_def DEFAULT_MAX_FRAME_LEN_def)
  have scanned: "scan ?fmt (encode_stream ?plain (map enc msgs)) = (map enc msgs, Clean)" for msgs
    using wire_codec.scan_encode [OF speaks_wire_codec [OF speaks_plain], of fb_max "map enc msgs" "[]"] fits
    by (simp add: list_all_iff)
  have folded: "processed cursor_rest (\<lambda>_. True) ?fmt f (encode_stream ?plain (map enc msgs)) u
      (process_all f (test_reader (encode_stream ?plain (map enc msgs)) (DefaultDeframer cursor_read ?d), u))"
    for f msgs and u :: 'u
    using frame_reader.process_all_scan [OF library_deframer_contract
        [OF d cursor_source.reliable_source_axioms] test_reader_simps(1) TrueI] by simp
  show "process_all_yields_every_payload_in_order fb_max ops sb"
    using folded [of "expects (map enc [''one'', ''two'', ''three''])" "[''one'', ''two'', ''three'']" 0]
      feed_expects [of "map enc [''one'', ''two'', ''three'']" 0]
    by (auto simp: process_all_yields_every_payload_in_order_def stream processed_def scanned
        simp del: encode_stream_simps list.map)
  let ?ps = "map enc [''one'', ''two'', ''three'']"
  have "messages_loop ?ps (test_reader (encode_stream ?plain ?ps) (DefaultDeframer cursor_read ?d)) (length ([] :: bytes list)) =
      Some (length ?ps)"
  proof (rule messages_loop_frames [OF _ speaks_plain])
    show "list_all (\<lambda>p. fits ?fmt p \<and> True) ?ps" using fits by simp
  qed (simp_all add: d del: encode_stream_simps)
  then have looped: "messages_loop ?ps (test_reader (encode_stream ?plain ?ps) (DefaultDeframer cursor_read ?d)) 0 =
      Some (length ?ps)" by simp
  show "messages_iterator_yields_every_payload_in_order fb_max ops sb"
    using looped by (simp add: messages_iterator_yields_every_payload_in_order_def stream del: encode_stream_simps)
  let ?five = "[''a'', ''b'', ''c'', ''d'', ''e'']"
  have fed: "feed stops_at_third (map enc ?five) 0 =
      Some (Err (error_of_io (IoError (OtherKind ''Other'') ''Simulated processing error'')),
        [enc ''d'', enc ''e''], 3)"
    by (simp add: stops_at_third_def)
  show "process_all_propagates_processor_error_and_stops fb_max ops sb"
    using folded [of stops_at_third ?five 0] fed
    by (auto simp: process_all_propagates_processor_error_and_stops_def stream processed_def scanned
        error_defs into_kind_def simp del: encode_stream_simps list.map)
qed

lemma empty_stream_test_passes: "empty_stream_is_clean_eof_on_both_apis fb_max"
proof -
  let ?dfr = "DefaultDeframer cursor_read (default_deframer_new fb_max)"
  have d: "library_deframer cursor_read (plain_format fb_max) ?dfr"
    using plain_deframer [where d = "default_deframer_new fb_max"]
    by (simp add: default_deframer_new_def DEFAULT_MAX_FRAME_LEN_def)
  obtain s' where "read_message (test_reader [] ?dfr) = Some (Ok None, s')"
    using read_next [of "plain_format fb_max" "test_reader [] ?dfr", OF _ speaks_plain, of "[]"] d by auto
  moreover from this
  have "process_all (\<lambda>_ count. Some (Ok (), count + 1)) (test_reader [] ?dfr, 0 :: nat) = Some (Ok (), s', 0)"
    by (simp add: process_all.simps)
  ultimately show ?thesis by (simp add: empty_stream_is_clean_eof_on_both_apis_def)
qed

subsection \<open>The writer's tests\<close>

fun layout_loop :: "'b builder_ops \<Rightarrow> ('b, 'offset) string_builder \<Rightarrow> nat list \<Rightarrow> 'b \<Rightarrow> bytes \<Rightarrow>
    (bytes, unit, 'b, unit, unit) stream_writer \<Rightarrow> bool" where
  "layout_loop ops sb [] builder expected writer \<longleftrightarrow>
     (case writer_flush vec_flush writer of
        Some (Ok _, writer') \<Rightarrow> writer_into_inner writer' = expected
      | _ \<Rightarrow> False)"
| "layout_loop ops sb (i # is) builder expected writer \<longleftrightarrow>
     (let builder1 = string_root ops sb (''message '' @ dec i) builder
      in case b_finished_data ops builder1 of
           None \<Rightarrow> False
         | Some payload \<Rightarrow>
             (case write_finished ops builder1 writer of
                Some (Ok _, writer') \<Rightarrow>
                  layout_loop ops sb is builder1
                    (expected @ le_bytes 4 (u32_of_usize (length payload)) @ payload) writer'
              | _ \<Rightarrow> False))"

definition write_finished_default_layout_is_byte_exact ::
  "'b builder_ops \<Rightarrow> ('b, 'offset) string_builder \<Rightarrow> bool" where
  "write_finished_default_layout_is_byte_exact ops sb \<longleftrightarrow>
     layout_loop ops sb [0, 1, 2] (b_new ops) [] (writer_new ops [] (DefaultFramer vec_write) ())"

definition write_finished_checksummed_layout_is_byte_exact ::
  "(bytes \<Rightarrow> u64) \<Rightarrow> 'b builder_ops \<Rightarrow> ('b, 'offset) string_builder \<Rightarrow> bool" where
  "write_finished_checksummed_layout_is_byte_exact xxh3_64 ops sb \<longleftrightarrow>
     (let alg = XxHash64 xxh3_64;
          writer = writer_new ops [] (ChecksumFramer alg vec_write) ();
          builder = string_root ops sb ''test data'' (b_new ops)
      in case b_finished_data ops builder of
           None \<Rightarrow> False
         | Some payload \<Rightarrow>
             (case write_finished ops builder (writer :: (bytes, unit, 'b, unit, unit) stream_writer) of
                Some (Ok _, writer') \<Rightarrow>
                  (case writer_flush vec_flush writer' of
                     Some (Ok _, writer'') \<Rightarrow>
                       writer_into_inner writer'' =
                         le_bytes 4 (u32_of_usize (length payload)) @ le_bytes 8 (cs_calculate alg payload) @ payload
                   | _ \<Rightarrow> False)
              | _ \<Rightarrow> False))"

definition simple_mode_writes_readable_string_root ::
  "(bytes \<Rightarrow> (string, string) outcome) \<Rightarrow> 'b builder_ops \<Rightarrow> ('b, 'offset) string_builder \<Rightarrow> bool" where
  "simple_mode_writes_readable_string_root root ops sb \<longleftrightarrow>
     (case writer_write ops (str_serialize (fst sb) (snd sb) ''test message'')
        (writer_new ops [] (DefaultFramer vec_write) () :: (bytes, unit, 'b, unit, unit) stream_writer) of
        Some (Ok _, writer) \<Rightarrow>
          (case writer_flush vec_flush writer of
             Some (Ok _, writer') \<Rightarrow>
               (let wire = writer_into_inner writer';
                    len = unat (from_le (take 4 wire) :: u32)
                in length wire = 4 + len \<and> root (drop 4 wire) = Ok ''test message'')
           | _ \<Rightarrow> False)
      | _ \<Rightarrow> False)"

definition write_with_policy_installed_is_transparent ::
  "'b builder_ops \<Rightarrow> ('b, 'offset) string_builder \<Rightarrow> bool" where
  "write_with_policy_installed_is_transparent ops sb \<longleftrightarrow>
     (let item = str_serialize (fst sb) (snd sb) ''policy message'';
          writer = (writer_new ops [] (DefaultFramer vec_write) () :: (bytes, unit, 'b, unit, unit) stream_writer)
      in case (writer_write ops item writer,
           writer_write ops item (writer_with_memory_policy ops writer NoOpPolicy ())) of
           (Some (Ok _, without), Some (Ok _, with_policy)) \<Rightarrow>
             writer_into_inner with_policy = writer_into_inner without
         | _ \<Rightarrow> False)"

lemma str_serialize_encodes:
  assumes "string_roots ops sb enc"
  shows "encodes ops (\<lambda>_. True) (str_serialize (fst sb) (snd sb) s) (enc s)"
  unfolding encodes_def
proof (intro allI impI)
  fix b
  from assms have "b_finished_data ops (string_root ops sb s b) = Some (enc s)"
    "b_mut_finished_buffer ops (string_root ops sb s b) \<noteq> None" by (simp_all add: string_roots_def)
  moreover have "str_serialize (fst sb) (snd sb) s (b_reset ops b) = Some (Ok (), string_root ops sb s b)"
    by (simp add: str_serialize_def string_root_def split_beta)
  ultimately show "\<exists>b' n. str_serialize (fst sb) (snd sb) s (b_reset ops b) = Some (Ok (), b') \<and> True \<and>
      b_finished_data ops b' = Some (enc s) \<and> b_mut_finished_buffer ops b' = Some n" by auto
qed

text \<open>Flushing a vector changes nothing.\<close>

lemma writer_flush_vec [simp]: "writer_flush vec_flush w = Some (Ok (), w)"
  by (simp add: writer_flush_def vec_flush_def)

lemma write_finished_vec:
  assumes "library_framer vec_write field accept (sw_framer w)" and "b_finished_data ops b = Some p" and "accept p"
  shows "\<exists>w'. write_finished ops b w = Some (Ok (), w') \<and> sw_framer w' = sw_framer w \<and>
    sw_writer w' = sw_writer w @ encode_frame field p"
proof -
  from write_finished_exact [OF library_framer_exact [OF assms(1) vec_sink.reliable_sink_axioms] TrueI assms(2)]
  obtain w' where run: "write_finished ops b w = Some (Ok (), w')"
    and "sw_writer w' = sw_writer w @ encode_frame field p"
    using assms(3) by auto
  with write_finished_keeps(3) [OF run] show ?thesis by blast
qed

lemma layout_loop_passes:
  assumes "string_roots ops sb enc" and "\<And>s. length (enc s) \<le> u32_max"
    and "sw_framer w = DefaultFramer vec_write" and "sw_writer w = expected"
  shows "layout_loop ops sb is b expected w"
  using assms(3,4)
proof (induction "is" arbitrary: b expected w)
  case Nil
  then show ?case by (simp add: writer_into_inner_def)
next
  case (Cons i "is")
  let ?s = "''message '' @ dec i"
  have data: "b_finished_data ops (string_root ops sb ?s b) = Some (enc ?s)"
    using assms(1) by (simp add: string_roots_def)
  have "library_framer vec_write (\<lambda>_. []) (\<lambda>p. length p \<le> u32_max) (sw_framer w)"
    using Cons.prems by (simp add: plain_framer)
  from write_finished_vec [OF this data] assms(2) [of ?s]
  obtain w' where "write_finished ops (string_root ops sb ?s b) w = Some (Ok (), w')"
    "sw_framer w' = sw_framer w" "sw_writer w' = sw_writer w @ encode_frame (\<lambda>_. []) (enc ?s)" by blast
  with Cons data show ?case by (simp add: encode_frame_def)
qed

lemma writer_tests_pass:
  fixes ops :: "'b builder_ops"
  assumes roots: "string_roots ops sb enc" and small: "\<And>s. length (enc s) \<le> u32_max"
    and parses: "\<And>s. root (enc s) = Ok s"
  shows "write_finished_default_layout_is_byte_exact ops sb"
    and "write_finished_checksummed_layout_is_byte_exact xxh3_64 ops sb"
    and "simple_mode_writes_readable_string_root root ops sb"
    and "write_with_policy_installed_is_transparent ops sb"
proof -
  show "write_finished_default_layout_is_byte_exact ops sb"
    unfolding write_finished_default_layout_is_byte_exact_def
    by (rule layout_loop_passes [OF roots small]) (simp_all add: writer_new_def)
  have data: "b_finished_data ops (string_root ops sb s b) = Some (enc s)" for s b
    using roots by (simp add: string_roots_def)
  let ?alg = "XxHash64 xxh3_64"
  let ?c = "writer_new ops [] (ChecksumFramer ?alg vec_write) () :: (bytes, unit, 'b, unit, unit) stream_writer"
  let ?p = "enc ''test data''"
  have lib: "library_framer vec_write (checksum_field ?alg) (\<lambda>p. length p \<le> u32_max) (sw_framer ?c)"
    by (simp add: writer_new_def checksummed_framer xxhash64.lawful_checksum_axioms)
  obtain w' where "write_finished ops (string_root ops sb ''test data'' (b_new ops)) ?c = Some (Ok (), w')"
    and "sw_writer w' = sw_writer ?c @ encode_frame (checksum_field ?alg) ?p"
    using write_finished_vec [OF lib data] small [of "''test data''"] by blast
  then show "write_finished_checksummed_layout_is_byte_exact xxh3_64 ops sb"
    by (simp add: write_finished_checksummed_layout_is_byte_exact_def data writer_into_inner_def Let_def)
      (simp add: encode_frame_def checksum_field_def XxHash64_def checksum_default_def
        write_bytes_default_def writer_new_def Let_def)
  have written: "\<exists>w'. writer_write ops (str_serialize (fst sb) (snd sb) s) w = Some (Ok (), w') \<and>
      sw_writer w' = sw_writer w @ encode_frame (\<lambda>_. []) (enc s)"
    if "sw_framer w = DefaultFramer vec_write"
    for s and w :: "(bytes, unit, 'b, unit, unit) stream_writer"
  proof -
    have "library_framer vec_write (\<lambda>_. []) (\<lambda>p. length p \<le> u32_max) (sw_framer w)"
      using that by (simp add: plain_framer)
    from exact_frame_writer.writer_write_exact [OF library_framer_exact [OF this vec_sink.reliable_sink_axioms]
        _ str_serialize_encodes [OF roots] refl TrueI] small [of s]
    show ?thesis by (auto simp: writer_ok_def dest!: meta_spec [of _ s])
  qed
  show "simple_mode_writes_readable_string_root root ops sb"
    using written [of "writer_new ops [] (DefaultFramer vec_write) ()" "''test message''"]
      unat_header_roundtrip [OF small [of "''test message''"]] parses
    by (auto simp: simple_mode_writes_readable_string_root_def writer_into_inner_def writer_new_def
        encode_frame_def Let_def)
  let ?w = "writer_new ops [] (DefaultFramer vec_write) () :: (bytes, unit, 'b, unit, unit) stream_writer"
  show "write_with_policy_installed_is_transparent ops sb"
    using written [of ?w "''policy message''"]
      written [of "writer_with_memory_policy ops ?w NoOpPolicy ()" "''policy message''"]
    by (auto simp: write_with_policy_installed_is_transparent_def writer_into_inner_def writer_new_def
        writer_with_memory_policy_def Let_def)
qed

end
