(* ===== verification/FS_Magic.thy ===== *)
theory FS_Magic
  imports FS_Reader FS_Writer
begin

text \<open>
  The custom framing of \<^verbatim>\<open>examples/custom_framer_example.rs\<close>: a two-byte magic number before the length
  and the payload, written and read by implementations of the crate's \<^verbatim>\<open>Framer\<close> and \<^verbatim>\<open>Deframer\<close>
  traits that are not the crate's own. The abstract parser \<open>magic_next\<close> is its wire format.
\<close>

section \<open>The framer and the deframer\<close>

definition MAX_FRAME_LEN :: nat where
  "MAX_FRAME_LEN = 16 * 1024 * 1024"

definition magic_number :: bytes where
  "magic_number = [0xAB, 0xBA]"

definition MagicHeaderFramer :: "'w write_op \<Rightarrow> ('w, 'o) framer" where
  "MagicHeaderFramer wr payload =
     (if u32_max < length payload
      then fail (invalid_frame_with ''payload exceeds u32 length field''
             (Some (length payload)) None (Some u32_max))
      else let payload_len = u32_of_usize (length payload)
           in bindp (write_all_tx wr magic_number) (\<lambda>_.
              bindp (write_all_tx wr (le_bytes 4 payload_len)) (\<lambda>_.
              write_all_tx wr payload)))"

text \<open>The merged header: a one-byte probe, then the other five bytes.\<close>

definition magic_read_header :: "'r read_op \<Rightarrow> (('r, 'o) rx, error, bytes option) prog" where
  "magic_read_header rd = (\<lambda>s. case read_exact_rx rd 1 s of
       None \<Rightarrow> None
     | Some (Ok first, s1) \<Rightarrow>
         (case read_exact_rx rd 5 s1 of
            None \<Rightarrow> None
          | Some (Ok rest, s2) \<Rightarrow> Some (Ok (Some (first @ rest)), s2)
          | Some (Err e, s2) \<Rightarrow>
              Some (Err (case io_kind e of UnexpectedEofKind \<Rightarrow> unexpected_eof | _ \<Rightarrow> error_of_io e), s2)
          | Some (Panic, s2) \<Rightarrow> Some (Panic, s2))
     | Some (Err e, s1) \<Rightarrow>
         (if io_kind e = UnexpectedEofKind then Some (Ok None, s1)
          else Some (Err (error_of_io e), s1))
     | Some (Panic, s1) \<Rightarrow> Some (Panic, s1))"

definition magic_read_after_length :: "'r read_op \<Rightarrow> nat \<Rightarrow> (('r, 'o) rx, error, nat option) prog" where
  "magic_read_after_length rd payload_len = (\<lambda>s.
     if MAX_FRAME_LEN < payload_len
     then Some (Err (invalid_frame_with ''frame length exceeds configured limit''
            (Some payload_len) None (Some MAX_FRAME_LEN)), s)
     else
       let buffer = (if length (vdata (rx_buffer s)) < payload_len
                     then vec_resize (rx_buffer s) payload_len else rx_buffer s)
       in case read_exact rd payload_len (rx_source s) of
            None \<Rightarrow> None
          | Some (out, bs, r') \<Rightarrow>
              (let s' = s\<lparr>rx_source := r', rx_buffer := vec_fill buffer bs\<rparr>
               in Some (case out of
                    Ok _ \<Rightarrow> Ok (Some payload_len)
                  | Err e \<Rightarrow> Err (case io_kind e of UnexpectedEofKind \<Rightarrow> unexpected_eof | _ \<Rightarrow> error_of_io e)
                  | Panic \<Rightarrow> Panic, s')))"

definition magic_read_and_deframe :: "'r read_op \<Rightarrow> (('r, 'o) rx, error, nat option) prog" where
  "magic_read_and_deframe rd =
     bindp (magic_read_header rd) (\<lambda>h. case h of
         None \<Rightarrow> ret None
       | Some header \<Rightarrow>
           if take 2 header \<noteq> magic_number then fail (invalid_frame ''Invalid magic number'')
           else magic_read_after_length rd (unat (from_le (take 4 (drop 2 header)) :: u32)))"

definition MagicHeaderDeframer :: "'r read_op \<Rightarrow> ('r, 'o) deframer" where
  "MagicHeaderDeframer rd =
     \<lparr>read_and_deframe = magic_read_and_deframe rd, read_after_length = magic_read_after_length rd\<rparr>"

section \<open>The wire format\<close>

definition magic_frame :: "bytes \<Rightarrow> bytes" where
  "magic_frame p = magic_number @ le_bytes 4 (u32_of_usize (length p)) @ p"

definition magic_next :: "bytes \<Rightarrow> next_frame" where
  "magic_next bs =
     (let n = declared_len (drop 2 bs) in
      if bs = [] then EndOfStream
      else if length bs < 6 then Bad unexpected_eof
      else if take 2 bs \<noteq> magic_number then Bad (invalid_frame ''Invalid magic number'')
      else if MAX_FRAME_LEN < n then Bad (frame_too_long n MAX_FRAME_LEN)
      else if length bs < 6 + n then Bad unexpected_eof
      else Frame (take n (drop 6 bs)) (drop (6 + n) bs))"

lemma length_magic_number [simp]: "length magic_number = 2"
  by (simp add: magic_number_def)

lemma magic_next_frame:
  assumes "length p \<le> MAX_FRAME_LEN"
  shows "magic_next (magic_frame p @ rest) = Frame p rest"
proof -
  have "length p \<le> u32_max" using assms by (simp add: MAX_FRAME_LEN_def u32_max_def)
  then have "declared_len (le_bytes 4 (u32_of_usize (length p)) @ p @ rest) = length p"
    by (simp add: declared_len_def unat_header_roundtrip)
  with assms show ?thesis
    by (simp add: magic_next_def magic_frame_def Let_def flip: length_0_conv)
qed

section \<open>The code reads that format\<close>

text \<open>The example spells out what the crate's helpers do.\<close>

lemma magic_read_header_eq: "magic_read_header rd = read_header rd 6"
  by (rule ext) (simp add: magic_read_header_def read_header_def in_frame_error_def
      split: option.split prod.split outcome.split)

lemma magic_read_after_length_eq:
  "magic_read_after_length rd = default_read_after_length rd \<lparr>dd_max_frame_len = MAX_FRAME_LEN\<rparr>"
  by (auto simp: fun_eq_iff magic_read_after_length_def default_read_after_length_def check_frame_len_def
      read_payload_def in_frame_error_def bindp_def lift_outcome_def ret_def Let_def
      split: option.splits outcome.splits)

text \<open>What one call makes of a stream in this format, as for the crate's own deframers.\<close>

definition magic_deframed :: "('r \<Rightarrow> bytes) \<Rightarrow> ('r \<Rightarrow> bool) \<Rightarrow>
    ('r, 'o) rx \<Rightarrow> (error, nat option) outcome \<Rightarrow> ('r, 'o) rx \<Rightarrow> bool" where
  "magic_deframed content healthy s out s' \<longleftrightarrow> healthy (rx_source s') \<and>
     (case magic_next (content (rx_source s)) of
        EndOfStream \<Rightarrow> out = Ok None \<and> content (rx_source s') = []
      | Frame p rest \<Rightarrow> out = Ok (Some (length p)) \<and> take (length p) (vdata (rx_buffer s')) = p
          \<and> length p \<le> length (vdata (rx_buffer s')) \<and> content (rx_source s') = rest
      | Bad e \<Rightarrow> out = Err e)"

context honest_source
begin

lemma MagicHeaderDeframer_honest:
  fixes s :: "('r, 'o) rx"
  assumes h: "healthy (rx_source s)"
  shows "\<exists>out s'. read_and_deframe (MagicHeaderDeframer rd) s = Some (out, s') \<and> healthy (rx_source s') \<and>
    ((\<exists>e. device_fault rd healthy e \<and> out = Err (error_of_io e)) \<or> magic_deframed content healthy s out s')"
proof -
  let ?c = "content (rx_source s)" and ?s = "\<lambda>r. s\<lparr>rx_source := r\<rparr>"
  let ?n = "declared_len (drop 2 ?c)"
  note defs = MagicHeaderDeframer_def magic_read_and_deframe_def magic_read_header_eq
    magic_read_after_length_eq default_read_after_length_def check_frame_len_def prog_simps
  note fmt = magic_deframed_def magic_next_def declared_len_def frame_too_long_def Let_def
  have header: "take 4 (drop 2 (take 6 ?c)) = take 4 (drop 2 ?c)" by (simp add: take_drop)
  from h zero_less_numeral show ?thesis
  proof (cases rule: read_header_cases [where k = 6])
    case (fault e out r1)
    with device_fault_kind [of e] show ?thesis by (auto simp: defs)
  next
    case (fine r1)
    consider (eos) "?c = []" | (torn) "?c \<noteq> []" "length ?c < 6"
      | (magic) "6 \<le> length ?c" "take 2 ?c \<noteq> magic_number"
      | (long) "6 \<le> length ?c" "take 2 ?c = magic_number" "MAX_FRAME_LEN < ?n"
      | (body) "6 \<le> length ?c" "take 2 ?c = magic_number" "?n \<le> MAX_FRAME_LEN" by fastforce
    then show ?thesis
    proof cases
      case eos
      with fine show ?thesis by (simp add: defs fmt)
    next
      case torn
      with fine show ?thesis by (simp add: defs fmt)
    next
      case magic
      with fine show ?thesis by (auto simp: defs fmt min_def)
    next
      case long
      with fine show ?thesis by (auto simp: defs fmt min_def header)
    next
      case body
      from fine(1) have "healthy (rx_source (?s r1))" by simp
      then show ?thesis
        by (cases rule: read_payload_cases [where n = ?n])
          (use body fine device_fault_kind in \<open>auto simp: defs fmt min_def header add.commute\<close>)
    qed
  qed
qed

end

section \<open>The code writes that format\<close>

context reliable_sink
begin

lemma MagicHeaderFramer_exact:
  fixes s :: "('w, 'o) tx"
  assumes "open_sink (tx_sink s)"
  shows "\<exists>out s'. MagicHeaderFramer wr p s = Some (out, s') \<and>
    (if length p \<le> u32_max
     then out = Ok () \<and> open_sink (tx_sink s') \<and> written (tx_sink s') = written (tx_sink s) @ magic_frame p
     else (\<exists>e. out = Err e) \<and> tx_sink s' = tx_sink s)"
proof (cases "length p \<le> u32_max")
  case False
  then show ?thesis by (simp add: MagicHeaderFramer_def prog_simps)
next
  case True
  obtain w1 where 1: "write_all_tx wr magic_number s = Some (Ok (), s\<lparr>tx_sink := w1\<rparr>)" "open_sink w1"
    "written w1 = written (tx_sink s) @ magic_number"
    using write_all_tx_Ok [OF assms] by blast
  let ?h = "le_bytes 4 (u32_of_usize (length p))"
  obtain w2 where "bindp (write_all_tx wr ?h) (\<lambda>_. write_all_tx wr p) (s\<lparr>tx_sink := w1\<rparr>) =
      Some (Ok (), s\<lparr>tx_sink := w2\<rparr>)" "open_sink w2" "written w2 = written w1 @ ?h @ p"
    using write_two_Ok [of "s\<lparr>tx_sink := w1\<rparr>" ?h p] 1(2) by auto
  with 1 True show ?thesis by (simp add: MagicHeaderFramer_def magic_frame_def bindp_Ok)
qed

end

section \<open>Through the stream reader\<close>

context honest_source
begin

lemma read_message_magic:
  assumes "sr_deframer s = MagicHeaderDeframer rd" and "healthy (sr_reader s)"
  shows "\<exists>out s'. read_message s = Some (out, s') \<and> healthy (sr_reader s') \<and>
    sr_deframer s' = MagicHeaderDeframer rd \<and>
    ((\<exists>e. device_fault rd healthy e \<and> out = Err (error_of_io e)) \<or>
     (case magic_next (content (sr_reader s)) of
        EndOfStream \<Rightarrow> out = Ok None \<and> content (sr_reader s') = []
      | Frame p rest \<Rightarrow> out = Ok (Some p) \<and> content (sr_reader s') = rest
      | Bad e \<Rightarrow> out = Err e))"
proof -
  from assms(2) have "healthy (rx_source (lend_rx (settled s)))" by simp
  from MagicHeaderDeframer_honest [OF this] obtain out x where
    run: "read_and_deframe (MagicHeaderDeframer rd) (lend_rx (settled s)) = Some (out, x)" "healthy (rx_source x)"
    and res: "(\<exists>e. device_fault rd healthy e \<and> out = Err (error_of_io e)) \<or>
      magic_deframed content healthy (lend_rx (settled s)) out x" by blast
  from res show ?thesis
  proof
    assume "\<exists>e. device_fault rd healthy e \<and> out = Err (error_of_io e)"
    with run assms show ?thesis by (auto simp: read_message_cases)
  next
    assume "magic_deframed content healthy (lend_rx (settled s)) out x"
    with run assms show ?thesis
      by (cases "magic_next (content (sr_reader s))") (simp_all add: read_message_cases magic_deframed_def)
  qed
qed

end

context reliable_source
begin

lemma process_all_magic:
  assumes "sr_deframer s = MagicHeaderDeframer rd" and "healthy (sr_reader s)"
    and "content (sr_reader s) = concat (map magic_frame ps)" and "list_all (\<lambda>p. length p \<le> MAX_FRAME_LEN) ps"
  shows "map_option (\<lambda>(out, s', u'). (out, u')) (process_all f (s, u)) =
    map_option (\<lambda>(out, left, u'). (out, u')) (feed f ps u)"
  using assms
proof (induction ps arbitrary: s u)
  case Nil
  from read_message_magic [OF Nil(1,2)] Nil(3) show ?case
    by (auto simp: process_all.simps magic_next_def no_device_fault)
next
  case (Cons p ps)
  have "magic_next (content (sr_reader s)) = Frame p (concat (map magic_frame ps))"
    using Cons.prems(3,4) by (simp add: magic_next_frame)
  with read_message_magic [OF Cons.prems(1,2)]
  obtain s' where run: "read_message s = Some (Ok (Some p), s')" "healthy (sr_reader s')"
    "sr_deframer s' = MagicHeaderDeframer rd" "content (sr_reader s') = concat (map magic_frame ps)"
    by (auto simp: no_device_fault)
  from Cons.IH [OF run(3,2,4)] Cons.prems(4)
  have IH: "map_option (\<lambda>(out, s', u'). (out, u')) (process_all f (s', v)) =
      map_option (\<lambda>(out, left, u'). (out, u')) (feed f ps v)" for v by simp
  show ?case
    using run(1) IH by (simp add: process_all.simps [of f "(s, u)"] split: option.split outcome.split)
qed

end

context reliable_sink
begin

lemma write_items_magic:
  assumes "list_all2 (encodes ops good) items ps" and "list_all (\<lambda>p. length p \<le> u32_max) ps"
    and "writer_ok good w" and "sw_framer w = MagicHeaderFramer wr" and "open_sink (sw_writer w)"
  shows "\<exists>w'. write_items ops items w = Some (Ok (), w') \<and>
    written (sw_writer w') = written (sw_writer w) @ concat (map magic_frame ps)"
  using assms
proof (induction items ps arbitrary: w rule: list_all2_induct)
  case Nil
  then show ?case by (simp add: prog_simps)
next
  case (Cons item items p ps)
  let ?t = "\<lparr>tx_sink = sw_writer w, tx_world = sw_world w\<rparr>"
  obtain out t where frame: "sw_framer w p ?t = Some (out, t)"
    and t: "out = Ok ()" "open_sink (tx_sink t)" "written (tx_sink t) = written (sw_writer w) @ magic_frame p"
    using MagicHeaderFramer_exact [of ?t p] Cons.prems by auto
  from writer_write_after [OF Cons.prems(2) Cons.hyps(1) frame] obtain w1
    where "writer_write ops item w = Some (Ok (), w1)" "writer_ok good w1" "sw_writer w1 = tx_sink t"
      "sw_framer w1 = sw_framer w" using t(1) by auto
  with Cons.IH [of w1] Cons.prems t show ?case by (auto simp: prog_simps)
qed

end

section \<open>Properties\<close>

text \<open>C27: The deframer of the example refines one step of its format: on any honest reader it returns what
  the format says of the bytes left, consuming exactly the frame it yields, or passes on a fault of
  the device. In particular a frame without the magic number, a length over the limit and a frame
  that is cut short are each rejected as what they are.\<close>

theorem custom_deframer_follows_its_format:
  assumes "honest_source rd content patience healthy" and "healthy (rx_source s)"
  shows "\<exists>out s'. read_and_deframe (MagicHeaderDeframer rd) s = Some (out, s') \<and> healthy (rx_source s') \<and>
    ((\<exists>e. device_fault rd healthy e \<and> out = Err (error_of_io e)) \<or>
     (case magic_next (content (rx_source s)) of
        EndOfStream \<Rightarrow> out = Ok None \<and> content (rx_source s') = []
      | Frame p rest \<Rightarrow> out = Ok (Some (length p)) \<and> take (length p) (vdata (rx_buffer s')) = p \<and>
          content (rx_source s') = rest
      | Bad e \<Rightarrow> out = Err e))"
  using honest_source.MagicHeaderDeframer_honest [OF assms]
  by (fastforce simp: magic_deframed_def split: next_frame.splits)

theorem custom_deframer_follows_its_format_witness:
  "\<exists>s'. read_and_deframe (MagicHeaderDeframer cursor_read) (sample_rx [0xAB, 0xBB, 1, 0, 0, 0, 7]) =
    Some (Err (invalid_frame ''Invalid magic number''), s')"
proof -
  have "magic_next [0xAB, 0xBB, 1, 0, 0, 0, 7] = Bad (invalid_frame ''Invalid magic number'')"
    by (simp add: magic_next_def magic_number_def)
  with custom_deframer_follows_its_format [OF cursor_source.honest_source_axioms TrueI,
      of "sample_rx [0xAB, 0xBB, 1, 0, 0, 0, 7]"]
  show ?thesis by (auto simp: cursor_source.no_device_fault)
qed

text \<open>C26: The custom pair works with the crate's writer and reader as its own pairs do: what a run of writes
  through the example's framer leaves is handed, payload by payload and nothing else, to the closure
  of a reader with the example's deframer, whatever policies and builders the two sides have.\<close>

theorem custom_framing_round_trip:
  assumes "reliable_sink wr written wpatience open_sink" and "sw_framer w = MagicHeaderFramer wr"
    and "open_sink (sw_writer w)" and "written (sw_writer w) = []" and "writer_ok good w"
    and "list_all2 (encodes ops good) items ps" and "list_all (\<lambda>p. length p \<le> MAX_FRAME_LEN) ps"
    and "reliable_source rd content patience healthy"
  shows "\<exists>w'. write_items ops items w = Some (Ok (), w') \<and>
    (\<forall>s :: ('r, 'o, 'p) stream_reader. sr_deframer s = MagicHeaderDeframer rd \<and> healthy (sr_reader s) \<and>
         content (sr_reader s) = written (sw_writer w') \<longrightarrow>
       map_option (\<lambda>(out, s', u'). (out, u')) (process_all f (s, u)) =
       map_option (\<lambda>(out, left, u'). (out, u')) (feed f ps u))"
proof -
  have "MAX_FRAME_LEN \<le> u32_max" by (simp add: MAX_FRAME_LEN_def u32_max_def)
  then have "list_all (\<lambda>p. length p \<le> u32_max) ps" using assms(7) by (auto simp: list_all_iff)
  from reliable_sink.write_items_magic [OF assms(1,6) this assms(5,2,3)] assms(4)
  obtain w' where w': "write_items ops items w = Some (Ok (), w')"
    "written (sw_writer w') = concat (map magic_frame ps)" by auto
  show ?thesis
    by (intro exI [of _ w'] conjI allI impI w'(1) reliable_source.process_all_magic [OF assms(8) _ _ _ assms(7)])
      (simp_all add: w'(2))
qed

theorem custom_framing_round_trip_witness:
  "\<exists>w'. write_items sample_builder [sample_item [9], sample_item [8, 7]]
      (sample_writer\<lparr>sw_framer := MagicHeaderFramer vec_write\<rparr>) = Some (Ok (), w') \<and>
     map_option (\<lambda>(out, s', u'). (out, u')) (process_all collect
       (reader_new (cursor_new (sw_writer w')) (MagicHeaderDeframer cursor_read) ()
          :: (cursor, unit, unit) stream_reader, [])) = Some (Ok (), [[9], [8, 7]])"
proof -
  let ?w = "sample_writer\<lparr>sw_framer := MagicHeaderFramer vec_write\<rparr>"
  have ok: "writer_ok (\<lambda>_. True) ?w" by (simp add: writer_ok_def)
  have empty: "sw_writer ?w = []" by (simp add: sample_writer_fields)
  have items: "list_all2 (encodes sample_builder (\<lambda>_. True)) [sample_item [9], sample_item [8, 7]] [[9], [8, 7]]"
    by (simp add: sample_encodes)
  have small: "list_all (\<lambda>p. length p \<le> MAX_FRAME_LEN) [[9], [8, 7 :: 8 word]]" by (simp add: MAX_FRAME_LEN_def)
  have framer: "sw_framer ?w = MagicHeaderFramer vec_write" by simp
  from custom_framing_round_trip [OF vec_sink.reliable_sink_axioms framer TrueI empty ok items small
      cursor_source.reliable_source_axioms, of collect "[]"]
  obtain w' where "write_items sample_builder [sample_item [9], sample_item [8, 7]] ?w = Some (Ok (), w')"
    and "\<forall>s. sr_deframer s = MagicHeaderDeframer cursor_read \<and> True \<and> cursor_rest (sr_reader s) = sw_writer w' \<longrightarrow>
       map_option (\<lambda>(out, s', u'). (out, u')) (process_all collect (s :: (cursor, unit, unit) stream_reader, [])) =
       map_option (\<lambda>(out, left, u'). (out, u')) (feed collect [[9], [8, 7]] [])"
    by blast
  then show ?thesis
    by (intro exI [of _ w']) (simp add: reader_new_def collect_def)
qed

end
