(* ===== verification/FS_Lobster.thy ===== *)
theory FS_Lobster
  imports FS_Writer
begin

text \<open>
  \<^verbatim>\<open>examples/ingest_lobster.rs\<close>: two CSV files of a market day, the order messages and the order book
  after each of them, become two streams written in expert mode. The CSV and ZIP readers, the
  generated accessors and the parsing of floating-point numbers, which are only passed on, are
  arguments; the parsing of integers is the standard library's and is modelled.
\<close>

section \<open>Integers\<close>

datatype int_error_kind = Empty | InvalidDigit | PosOverflow | NegOverflow

text \<open>\<^verbatim>\<open>char::to_digit(10)\<close>.\<close>

definition to_digit :: "char \<Rightarrow> nat option" where
  "to_digit c = (let n = (of_char c :: nat) in if 48 \<le> n \<and> n \<le> 57 then Some (n - 48) else None)"

text \<open>
  The digits of a magnitude of at most \<open>bound\<close>, most significant first; \<open>overflow\<close> is the error
  of the first digit that takes it past that.
\<close>

fun parse_digits :: "nat \<Rightarrow> int_error_kind \<Rightarrow> nat \<Rightarrow> string \<Rightarrow> (int_error_kind, nat) outcome" where
  "parse_digits bound overflow acc [] = Ok acc"
| "parse_digits bound overflow acc (c # cs) =
     (case to_digit c of
        None \<Rightarrow> Err InvalidDigit
      | Some d \<Rightarrow> if bound < 10 * acc + d then Err overflow else parse_digits bound overflow (10 * acc + d) cs)"

definition parse_unsigned :: "nat \<Rightarrow> string \<Rightarrow> (int_error_kind, nat) outcome" where
  "parse_unsigned bound src =
     (if src = [] then Err Empty
      else if src = ''+'' \<or> src = ''-'' then Err InvalidDigit
      else if hd src = CHR ''+'' then parse_digits bound PosOverflow 0 (tl src)
      else parse_digits bound PosOverflow 0 src)"

text \<open>The bounds are those of a signed type of \<open>k + 1\<close> bits.\<close>

definition parse_signed :: "nat \<Rightarrow> string \<Rightarrow> (int_error_kind, int) outcome" where
  "parse_signed k src =
     (if src = [] then Err Empty
      else if src = ''+'' \<or> src = ''-'' then Err InvalidDigit
      else if hd src = CHR ''+'' then map_ok int (parse_digits (2 ^ k - 1) PosOverflow 0 (tl src))
      else if hd src = CHR ''-'' then map_ok (\<lambda>n. - int n) (parse_digits (2 ^ k) NegOverflow 0 (tl src))
      else map_ok int (parse_digits (2 ^ k - 1) PosOverflow 0 src))"

definition parse_u8 :: "string \<Rightarrow> (int_error_kind, u8) outcome" where
  "parse_u8 src = map_ok word_of_nat (parse_unsigned (2 ^ 8 - 1) src)"

definition parse_u32 :: "string \<Rightarrow> (int_error_kind, u32) outcome" where
  "parse_u32 src = map_ok word_of_nat (parse_unsigned (2 ^ 32 - 1) src)"

definition parse_u64 :: "string \<Rightarrow> (int_error_kind, u64) outcome" where
  "parse_u64 src = map_ok word_of_nat (parse_unsigned (2 ^ 64 - 1) src)"

definition parse_i8 :: "string \<Rightarrow> (int_error_kind, u8) outcome" where
  "parse_i8 src = map_ok word_of_int (parse_signed 7 src)"

definition parse_i64 :: "string \<Rightarrow> (int_error_kind, u64) outcome" where
  "parse_i64 src = map_ok word_of_int (parse_signed 63 src)"

section \<open>Rows\<close>

datatype ingest_error =
    IngestIo io_error
  | Csv string
  | Zip string
  | ParseInt int_error_kind
  | ParseFloat string
  | Missing string
  | MissingCsv string
  | LengthMismatch nat nat
  | MissingPair string
  | Flatstream error

text \<open>The signed fields hold the two's complement words of the values.\<close>

record 'f message_row =
  mr_timestamp :: 'f
  mr_event_type :: u8
  mr_order_id :: u64
  mr_size :: u32
  mr_price :: u64
  mr_direction :: u8

record level =
  lv_price :: u64
  lv_size :: u64

text \<open>What comes from outside: the parsing of floats, the constant \<open>0.0\<close> and the generated builders.\<close>

record ('f, 'b, 'v, 'off) lobster =
  lob_parse_f64 :: "string \<Rightarrow> (string, 'f) outcome"
  lob_zero :: 'f
  lob_message_create :: "'f message_row \<Rightarrow> 'b \<Rightarrow> 'off \<times> 'b"
  lob_create_vector :: "level list \<Rightarrow> 'b \<Rightarrow> 'v \<times> 'b"
  lob_snapshot_create :: "'f \<Rightarrow> 'v \<Rightarrow> 'v \<Rightarrow> 'b \<Rightarrow> 'off \<times> 'b"
  lob_finish :: "'off \<Rightarrow> 'b \<Rightarrow> 'b"

definition get_field :: "string list \<Rightarrow> nat \<Rightarrow> string \<Rightarrow> (ingest_error, string) outcome" where
  "get_field rec idx name = (if idx < length rec then Ok (rec ! idx) else Err (Missing name))"

definition parse_message_row ::
  "(string \<Rightarrow> (string, 'f) outcome) \<Rightarrow> string list \<Rightarrow> (ingest_error, 'f message_row) outcome" where
  "parse_message_row parse_f64 rec =
     and_then (and_then (get_field rec 0 ''time'') (\<lambda>t. map_err ParseFloat (parse_f64 t))) (\<lambda>timestamp.
     and_then (and_then (get_field rec 1 ''type'') (\<lambda>t. map_err ParseInt (parse_u8 t))) (\<lambda>event_type.
     and_then (and_then (get_field rec 2 ''order_id'') (\<lambda>t. map_err ParseInt (parse_u64 t))) (\<lambda>order_id.
     and_then (and_then (get_field rec 3 ''size'') (\<lambda>t. map_err ParseInt (parse_u32 t))) (\<lambda>msg_size.
     and_then (and_then (get_field rec 4 ''price'') (\<lambda>t. map_err ParseInt (parse_i64 t))) (\<lambda>price_scaled.
     and_then (and_then (get_field rec 5 ''direction'') (\<lambda>t. map_err ParseInt (parse_i8 t))) (\<lambda>direction.
     Ok \<lparr>mr_timestamp = timestamp, mr_event_type = event_type, mr_order_id = order_id, mr_size = msg_size,
         mr_price = price_scaled, mr_direction = direction\<rparr>))))))"

text \<open>\<^verbatim>\<open>while i + 3 < rec.len()\<close>: four columns at a time, the rest dropped; asks first, then bids.\<close>

fun parse_levels :: "string list \<Rightarrow> (ingest_error, level list \<times> level list) outcome" where
  "parse_levels (ap # asz # bp # bsz # rest) =
     and_then (map_err ParseInt (parse_i64 ap)) (\<lambda>ap.
     and_then (map_err ParseInt (parse_u64 asz)) (\<lambda>asz.
     and_then (map_err ParseInt (parse_i64 bp)) (\<lambda>bp.
     and_then (map_err ParseInt (parse_u64 bsz)) (\<lambda>bsz.
     and_then (parse_levels rest) (\<lambda>(asks, bids).
     Ok (\<lparr>lv_price = ap, lv_size = asz\<rparr> # asks, \<lparr>lv_price = bp, lv_size = bsz\<rparr> # bids))))))"
| "parse_levels rest = Ok ([], [])"

section \<open>One stream\<close>

text \<open>
  A stream writer with the caller's builder beside it. A CSV reader is what its record iterator
  yields: records, or errors of the CSV parser.
\<close>

type_synonym csv_records = "(string, string list) outcome list"

record ('w, 'b) sink =
  sk_writer :: "('w, unit, 'b, unit, unit) stream_writer"
  sk_builder :: 'b

definition sink_new :: "'b builder_ops \<Rightarrow> 'w write_op \<Rightarrow> 'w \<Rightarrow> ('w, 'b) sink" where
  "sink_new ops wr out = \<lparr>sk_writer = writer_new ops out (DefaultFramer wr) (), sk_builder = b_new ops\<rparr>"

definition put_finished :: "'b builder_ops \<Rightarrow> 'b \<Rightarrow> (('w, 'b) sink, ingest_error, unit) prog" where
  "put_finished ops builder s =
     (case write_finished ops builder (sk_writer s) of
        None \<Rightarrow> None
      | Some (out, w') \<Rightarrow> Some (map_err Flatstream out, s\<lparr>sk_writer := w', sk_builder := builder\<rparr>))"

definition put_message :: "('f, 'b, 'v, 'off) lobster \<Rightarrow> 'b builder_ops \<Rightarrow> 'f message_row \<Rightarrow>
    (('w, 'b) sink, ingest_error, unit) prog" where
  "put_message lob ops row s =
     (let (off, b) = lob_message_create lob row (b_reset ops (sk_builder s))
      in put_finished ops (lob_finish lob off b) s)"

definition put_book :: "('f, 'b, 'v, 'off) lobster \<Rightarrow> 'b builder_ops \<Rightarrow> 'f \<Rightarrow> level list \<times> level list \<Rightarrow>
    (('w, 'b) sink, ingest_error, unit) prog" where
  "put_book lob ops timestamp levels s =
     (let (asks_fb, b1) = lob_create_vector lob (fst levels) (b_reset ops (sk_builder s));
          (bids_fb, b2) = lob_create_vector lob (snd levels) b1;
          (off, b3) = lob_snapshot_create lob timestamp asks_fb bids_fb b2
      in put_finished ops (lob_finish lob off b3) s)"

definition flush_sink :: "'w flush_op \<Rightarrow> (('w, 'b) sink, ingest_error, unit) prog" where
  "flush_sink fl s =
     (case writer_flush fl (sk_writer s) of
        None \<Rightarrow> None
      | Some (out, w') \<Rightarrow> Some (map_err Flatstream out, s\<lparr>sk_writer := w'\<rparr>))"

fun message_records :: "('f, 'b, 'v, 'off) lobster \<Rightarrow> 'b builder_ops \<Rightarrow> csv_records \<Rightarrow>
    (('w, 'b) sink, ingest_error, 'f list) prog" where
  "message_records lob ops [] = ret []"
| "message_records lob ops (result # records) =
     bindp (lift_outcome (map_err Csv result)) (\<lambda>rec.
     bindp (lift_outcome (parse_message_row (lob_parse_f64 lob) rec)) (\<lambda>row.
     bindp (put_message lob ops row) (\<lambda>_.
     bindp (message_records lob ops records) (\<lambda>timestamps.
     ret (mr_timestamp row # timestamps)))))"

definition write_message_stream :: "('f, 'b, 'v, 'off) lobster \<Rightarrow> 'b builder_ops \<Rightarrow> 'w write_op \<Rightarrow> 'w flush_op \<Rightarrow>
    csv_records \<Rightarrow> (io_error, 'w) outcome \<Rightarrow> ((ingest_error, 'f list) outcome \<times> ('w, 'b) sink option) option" where
  "write_message_stream lob ops wr fl records created =
     (case created of
        Err e \<Rightarrow> Some (Err (IngestIo e), None)
      | Panic \<Rightarrow> Some (Panic, None)
      | Ok out \<Rightarrow>
          map_option (\<lambda>(r, s). (r, Some s))
            (bindp (message_records lob ops records) (\<lambda>timestamps.
             bindp (flush_sink fl) (\<lambda>_. ret timestamps)) (sink_new ops wr out)))"

text \<open>\<^verbatim>\<open>message_timestamps.and_then(|v| v.get(row_idx).copied()).unwrap_or(0.0)\<close>\<close>

definition timestamp_at :: "'f \<Rightarrow> 'f list option \<Rightarrow> nat \<Rightarrow> 'f" where
  "timestamp_at zero message_timestamps row_idx =
     (case message_timestamps of
        None \<Rightarrow> zero
      | Some v \<Rightarrow> if row_idx < length v then v ! row_idx else zero)"

fun book_records :: "('f, 'b, 'v, 'off) lobster \<Rightarrow> 'b builder_ops \<Rightarrow> 'f list option \<Rightarrow> nat \<Rightarrow> csv_records \<Rightarrow>
    (('w, 'b) sink, ingest_error, unit) prog" where
  "book_records lob ops message_timestamps row_idx [] = ret ()"
| "book_records lob ops message_timestamps row_idx (result # records) =
     bindp (lift_outcome (map_err Csv result)) (\<lambda>rec.
     bindp (lift_outcome (parse_levels rec)) (\<lambda>levels.
     bindp (put_book lob ops (timestamp_at (lob_zero lob) message_timestamps row_idx) levels) (\<lambda>_.
     book_records lob ops message_timestamps (row_idx + 1) records)))"

definition write_orderbook_stream :: "('f, 'b, 'v, 'off) lobster \<Rightarrow> 'b builder_ops \<Rightarrow> 'w write_op \<Rightarrow>
    'w flush_op \<Rightarrow> csv_records \<Rightarrow> (io_error, 'w) outcome \<Rightarrow> 'f list option \<Rightarrow>
    ((ingest_error, unit) outcome \<times> ('w, 'b) sink option) option" where
  "write_orderbook_stream lob ops wr fl records created message_timestamps =
     (case created of
        Err e \<Rightarrow> Some (Err (IngestIo e), None)
      | Panic \<Rightarrow> Some (Panic, None)
      | Ok out \<Rightarrow>
          map_option (\<lambda>(r, s). (r, Some s))
            (bindp (book_records lob ops message_timestamps 0 records) (\<lambda>_. flush_sink fl)
              (sink_new ops wr out)))"

section \<open>Two streams in step\<close>

definition on_fst :: "('s, 'e, 'a) prog \<Rightarrow> ('s \<times> 't, 'e, 'a) prog" where
  "on_fst m st = map_option (\<lambda>(out, s). (out, (s, snd st))) (m (fst st))"

definition on_snd :: "('t, 'e, 'a) prog \<Rightarrow> ('s \<times> 't, 'e, 'a) prog" where
  "on_snd m st = map_option (\<lambda>(out, t). (out, (fst st, t))) (m (snd st))"

text \<open>The body of the loop for a pair of records.\<close>

definition put_pair :: "('f, 'b, 'v, 'off) lobster \<Rightarrow> 'b builder_ops \<Rightarrow> string list \<Rightarrow> string list \<Rightarrow>
    (('w, 'b) sink \<times> ('w, 'b) sink, ingest_error, unit) prog" where
  "put_pair lob ops mrec orec =
     bindp (lift_outcome (parse_message_row (lob_parse_f64 lob) mrec)) (\<lambda>mr.
     bindp (on_fst (put_message lob ops mr)) (\<lambda>_.
     bindp (lift_outcome (parse_levels orec)) (\<lambda>levels.
     on_snd (put_book lob ops (mr_timestamp mr) levels))))"

text \<open>
  Both iterators are advanced in every round, so a panic of either CSV reader comes first. The other
  arms are those of the source, in its order.
\<close>

fun pair_loop :: "('f, 'b, 'v, 'off) lobster \<Rightarrow> 'b builder_ops \<Rightarrow> nat \<Rightarrow> nat \<Rightarrow> csv_records \<Rightarrow> csv_records \<Rightarrow>
    (('w, 'b) sink \<times> ('w, 'b) sink, ingest_error, nat \<times> nat) prog" where
  "pair_loop lob ops mc oc (Panic # ms) os = panic"
| "pair_loop lob ops mc oc ms (Panic # os) = panic"
| "pair_loop lob ops mc oc [] [] = ret (mc, oc)"
| "pair_loop lob ops mc oc (Ok mrec # ms) (Ok orec # os) =
     bindp (put_pair lob ops mrec orec) (\<lambda>_. pair_loop lob ops (mc + 1) (oc + 1) ms os)"
| "pair_loop lob ops mc oc (Ok mrec # ms) [] = fail (LengthMismatch (mc + 1) oc)"
| "pair_loop lob ops mc oc [] (Ok orec # os) = fail (LengthMismatch mc (oc + 1))"
| "pair_loop lob ops mc oc (Err e # ms) os = fail (Csv e)"
| "pair_loop lob ops mc oc ms (Err e # os) = fail (Csv e)"

definition write_pair_streams :: "('f, 'b, 'v, 'off) lobster \<Rightarrow> 'b builder_ops \<Rightarrow> 'w write_op \<Rightarrow> 'w flush_op \<Rightarrow>
    csv_records \<Rightarrow> csv_records \<Rightarrow> (io_error, 'w) outcome \<Rightarrow> (io_error, 'w) outcome \<Rightarrow>
    ((ingest_error, nat \<times> nat) outcome \<times> (('w, 'b) sink \<times> ('w, 'b) sink) option) option" where
  "write_pair_streams lob ops wr fl msgs obs msg_created ob_created =
     (case (msg_created, ob_created) of
        (Err e, _) \<Rightarrow> Some (Err (IngestIo e), None)
      | (Ok _, Err e) \<Rightarrow> Some (Err (IngestIo e), None)
      | (Ok msg_out, Ok ob_out) \<Rightarrow>
          map_option (\<lambda>(r, s). (r, Some s))
            (bindp (pair_loop lob ops 0 0 msgs obs) (\<lambda>counts.
             bindp (on_fst (flush_sink fl)) (\<lambda>_.
             bindp (on_snd (flush_sink fl)) (\<lambda>_. ret counts)))
              (sink_new ops wr msg_out, sink_new ops wr ob_out))
      | _ \<Rightarrow> Some (Panic, None))"

section \<open>Archives\<close>

text \<open>An archive is the list of its entries: an error of the ZIP reader, or a name and what reading it to
  the end gives.\<close>

type_synonym zip_entry = "(string, string \<times> (io_error, bytes) outcome) outcome"

fun find_entry :: "(string \<Rightarrow> bool) \<Rightarrow> zip_entry list \<Rightarrow> ingest_error \<Rightarrow> (ingest_error, bytes) outcome" where
  "find_entry predicate [] missing = Err missing"
| "find_entry predicate (entry # entries) missing =
     and_then (map_err Zip entry) (\<lambda>(name, contents).
       if predicate name then map_err IngestIo contents else find_entry predicate entries missing)"

definition open_csv_from_zip :: "(io_error, 'file) outcome \<Rightarrow> ('file \<Rightarrow> (string, zip_entry list) outcome) \<Rightarrow>
    string \<Rightarrow> (string \<Rightarrow> bool) \<Rightarrow> (ingest_error, bytes) outcome" where
  "open_csv_from_zip opened archive_new zip_path predicate =
     and_then (map_err IngestIo opened) (\<lambda>f.
     and_then (map_err Zip (archive_new f)) (\<lambda>archive.
     find_entry predicate archive (MissingCsv zip_path)))"

section \<open>Numerals\<close>

lemma parse_digits_append:
  "parse_digits bound overflow acc (xs @ ys) =
     and_then (parse_digits bound overflow acc xs) (\<lambda>n. parse_digits bound overflow n ys)"
  by (induction xs arbitrary: acc) (auto simp: and_then_def split: option.split)

lemma to_digit_dec: "n < 10 \<Longrightarrow> to_digit (char_of (48 + n)) = Some n"
  by (simp add: to_digit_def)

lemma parse_digits_dec:
  "parse_digits bound overflow 0 (dec n) = (if n \<le> bound then Ok n else Err overflow)"
proof (induction n rule: dec.induct)
  case (1 n)
  show ?case
  proof (cases "n < 10")
    case True
    then show ?thesis by (simp add: dec.simps [of n] to_digit_dec)
  next
    case False
    have "10 * (n div 10) + n mod 10 = n" by simp
    moreover have "n div 10 \<le> n" by simp
    ultimately show ?thesis
      using 1 [OF False] False
      by (auto simp: dec.simps [of n] parse_digits_append to_digit_dec and_then_def)
  qed
qed

lemma hd_dec: "\<exists>d < (10 :: nat). hd (dec n) = char_of (48 + d)"
proof (induction n rule: dec.induct)
  case (1 n)
  then show ?case by (cases "n < 10") (auto simp: dec.simps [of n] dec_nonempty)
qed

lemma dec_not_sign: "hd (dec n) \<noteq> CHR ''+''" "hd (dec n) \<noteq> CHR ''-''" "dec n \<noteq> ''+''" "dec n \<noteq> ''-''"
proof -
  from hd_dec obtain d :: nat where "d < 10" "hd (dec n) = char_of (48 + d)" by blast
  then have "of_char (hd (dec n)) = (48 + d :: nat)" by simp
  then show "hd (dec n) \<noteq> CHR ''+''" and "hd (dec n) \<noteq> CHR ''-''" by auto
  then show "dec n \<noteq> ''+''" and "dec n \<noteq> ''-''" by auto
qed

text \<open>A signed value as it is printed.\<close>

definition int_text :: "int \<Rightarrow> string" where
  "int_text i = (if i < 0 then CHR ''-'' # dec (nat (- i)) else dec (nat i))"

lemma parse_unsigned_dec: "n \<le> bound \<Longrightarrow> parse_unsigned bound (dec n) = Ok n"
  by (simp add: parse_unsigned_def dec_nonempty dec_not_sign parse_digits_dec)

lemma parse_signed_int_text:
  assumes "- (2 ^ k) \<le> i" and "i < 2 ^ k"
  shows "parse_signed k (int_text i) = Ok i"
proof (cases "i < 0")
  case True
  with assms(1) have "nat (- i) \<le> 2 ^ k" by (simp add: nat_le_iff)
  with True show ?thesis
    by (simp add: parse_signed_def int_text_def dec_nonempty parse_digits_dec)
next
  case False
  with assms(2) have "nat i < 2 ^ k" by (simp add: nat_less_iff)
  then have "nat i \<le> 2 ^ k - 1" by linarith
  with False show ?thesis
    by (simp add: parse_signed_def int_text_def dec_nonempty dec_not_sign parse_digits_dec)
qed

lemma parse_unsigned_word:
  "parse_u8 (dec (unat (w8 :: u8))) = Ok w8" "parse_u32 (dec (unat (w32 :: u32))) = Ok w32"
  "parse_u64 (dec (unat (w64 :: u64))) = Ok w64"
proof -
  have "unat w8 < 256" "unat w32 < 4294967296" "unat w64 < 18446744073709551616"
    using unsigned_less [of w8, where ?'a = nat] unsigned_less [of w32, where ?'a = nat]
      unsigned_less [of w64, where ?'a = nat] by simp_all
  then show "parse_u8 (dec (unat w8)) = Ok w8" and "parse_u32 (dec (unat w32)) = Ok w32"
    and "parse_u64 (dec (unat w64)) = Ok w64"
    by (simp_all add: parse_u8_def parse_u32_def parse_u64_def parse_unsigned_dec)
qed

lemma parse_signed_word:
  "parse_i8 (int_text (sint (w8 :: u8))) = Ok w8" "parse_i64 (int_text (sint (w64 :: u64))) = Ok w64"
  using sint_range_size [of w8] sint_range_size [of w64]
  by (simp_all add: parse_i8_def parse_i64_def parse_signed_int_text word_size)

section \<open>What the writers of rows leave\<close>

text \<open>
  \<open>builds\<close>: the generated code finishes a message as \<open>enc_m\<close> and a book as \<open>enc_b\<close>, whatever the
  builder was used for before, and these payloads fit the length field, for books of at most \<open>depth\<close>
  levels on a side. \<open>narrow\<close>: the records are no wider than that.
\<close>

definition narrow :: "nat \<Rightarrow> csv_records \<Rightarrow> bool" where
  "narrow depth records \<longleftrightarrow> list_all (\<lambda>r. case r of Ok rec \<Rightarrow> length rec \<le> 4 * depth | _ \<Rightarrow> True) records"

definition shallow :: "nat \<Rightarrow> level list \<times> level list \<Rightarrow> bool" where
  "shallow depth levels \<longleftrightarrow> length (fst levels) \<le> depth \<and> length (snd levels) \<le> depth"

definition builds :: "('f, 'b, 'v, 'off) lobster \<Rightarrow> 'b builder_ops \<Rightarrow> nat \<Rightarrow> ('f message_row \<Rightarrow> bytes) \<Rightarrow>
    ('f \<Rightarrow> level list \<times> level list \<Rightarrow> bytes) \<Rightarrow> bool" where
  "builds lob ops depth enc_m enc_b \<longleftrightarrow>
     (\<forall>row b. b_finished_data ops
        (let (off, b1) = lob_message_create lob row (b_reset ops b) in lob_finish lob off b1) = Some (enc_m row)) \<and>
     (\<forall>ts levels b. shallow depth levels \<longrightarrow> b_finished_data ops
        (let (asks_fb, b1) = lob_create_vector lob (fst levels) (b_reset ops b);
             (bids_fb, b2) = lob_create_vector lob (snd levels) b1;
             (off, b3) = lob_snapshot_create lob ts asks_fb bids_fb b2
         in lob_finish lob off b3) = Some (enc_b ts levels)) \<and>
     (\<forall>row. length (enc_m row) \<le> u32_max) \<and> (\<forall>ts levels. shallow depth levels \<longrightarrow> length (enc_b ts levels) \<le> u32_max)"

text \<open>A sink whose frames so far are those of \<open>ps\<close>.\<close>

definition sink_has :: "'w write_op \<Rightarrow> ('w \<Rightarrow> bytes) \<Rightarrow> ('w \<Rightarrow> bool) \<Rightarrow> bytes list \<Rightarrow> ('w, 'b) sink \<Rightarrow> bool" where
  "sink_has wr written open_sink ps s \<longleftrightarrow>
     sw_framer (sk_writer s) = DefaultFramer wr \<and> open_sink (sw_writer (sk_writer s)) \<and>
     written (sw_writer (sk_writer s)) = encode_stream (\<lambda>_. []) ps"

context reliable_sink
begin

lemma put_finished_exact:
  assumes "sink_has wr written open_sink ps s" and "b_finished_data ops b = Some p" and "length p \<le> u32_max"
  shows "\<exists>s'. put_finished ops b s = Some (Ok (), s') \<and> sink_has wr written open_sink (ps @ [p]) s'"
proof -
  from assms(1) have w: "sw_framer (sk_writer s) = DefaultFramer wr" "open_sink (sw_writer (sk_writer s))"
    "written (sw_writer (sk_writer s)) = encode_stream (\<lambda>_. []) ps" by (simp_all add: sink_has_def)
  have "exact_frame_writer wr written wpatience open_sink (sw_framer (sk_writer s)) (\<lambda>_. []) (\<lambda>p. length p \<le> u32_max)"
    unfolding w(1) by (rule DefaultFramer_exact)
  from write_finished_exact [OF this w(2) assms(2)] assms(3)
  obtain w' where run: "write_finished ops b (sk_writer s) = Some (Ok (), w')" "open_sink (sw_writer w')"
    "written (sw_writer w') = written (sw_writer (sk_writer s)) @ encode_frame (\<lambda>_. []) p" by auto
  with write_finished_keeps(3) [OF run(1)] w show ?thesis
    by (simp add: put_finished_def sink_has_def encode_stream_append)
qed

lemma put_message_exact:
  assumes "builds lob ops depth enc_m enc_b" and "sink_has wr written open_sink ps s"
  shows "\<exists>s'. put_message lob ops row s = Some (Ok (), s') \<and> sink_has wr written open_sink (ps @ [enc_m row]) s'"
  using assms(1) put_finished_exact [OF assms(2), of ops _ "enc_m row"]
  by (auto simp: put_message_def builds_def split_beta Let_def)

lemma put_book_exact:
  assumes "builds lob ops depth enc_m enc_b" and "sink_has wr written open_sink ps s" and "shallow depth levels"
  shows "\<exists>s'. put_book lob ops ts levels s = Some (Ok (), s') \<and>
    sink_has wr written open_sink (ps @ [enc_b ts levels]) s'"
  using assms(1,3) put_finished_exact [OF assms(2), of ops _ "enc_b ts levels"]
  by (cases levels) (auto simp: put_book_def builds_def split_beta Let_def)

end

section \<open>The pairing\<close>

text \<open>A failure that is not about the lengths of the two files.\<close>

fun is_length_mismatch :: "ingest_error \<Rightarrow> bool" where
  "is_length_mismatch (LengthMismatch _ _) = True"
| "is_length_mismatch _ = False"

definition row_failure :: "(ingest_error, 'a) outcome \<Rightarrow> bool" where
  "row_failure out \<longleftrightarrow> (case out of Ok _ \<Rightarrow> False | Err e \<Rightarrow> \<not> is_length_mismatch e | Panic \<Rightarrow> True)"

lemma row_failure_simps [simp]:
  "\<not> row_failure (Ok a)" "row_failure (Err e) \<longleftrightarrow> \<not> is_length_mismatch e" "row_failure Panic"
  by (simp_all add: row_failure_def)

text \<open>An outcome that passes on the failure of a record: the CSV reader's or the parser's.\<close>

definition fails_with :: "('r \<Rightarrow> (ingest_error, 'm) outcome) \<Rightarrow> (string, 'r) outcome \<Rightarrow> (ingest_error, 'a) outcome \<Rightarrow> bool" where
  "fails_with parse record out \<longleftrightarrow>
     (case and_then (map_err Csv record) parse of Ok _ \<Rightarrow> False | Err e \<Rightarrow> out = Err e | Panic \<Rightarrow> out = Panic)"

lemma fails_with_simps [simp]:
  "fails_with parse (Ok rec) out \<longleftrightarrow> (case parse rec of Ok _ \<Rightarrow> False | Err e \<Rightarrow> out = Err e | Panic \<Rightarrow> out = Panic)"
  "fails_with parse (Err c) out \<longleftrightarrow> out = Err (Csv c)" "fails_with parse Panic out \<longleftrightarrow> out = Panic"
  by (simp_all add: fails_with_def and_then_def)

lemma bindp_fails_with:
  "m s = Some (out, s') \<Longrightarrow> row_failure out \<Longrightarrow> fails_with parse record out \<Longrightarrow>
     \<exists>out'. bindp m f s = Some (out', s') \<and> row_failure out' \<and> fails_with parse record out'"
  by (cases out) (auto simp: prog_simps fails_with_def split: outcome.splits)

definition parses_to :: "(ingest_error, 'a) outcome \<Rightarrow> bool" where
  "parses_to x \<longleftrightarrow> row_failure x \<or> (\<exists>a. x = Ok a)"

lemma parses_to_rules:
  "parses_to (Ok a)" "\<not> is_length_mismatch e \<Longrightarrow> parses_to (Err e)"
  "(\<And>e. \<not> is_length_mismatch (c e)) \<Longrightarrow> parses_to (map_err c y)"
  by (simp_all add: parses_to_def) (cases y; simp)

lemma parses_to_and_then:
  "parses_to x \<Longrightarrow> (\<And>a. parses_to (f a)) \<Longrightarrow> parses_to (and_then x f)"
  by (cases x) (auto simp: parses_to_def and_then_def)

lemma parses_get_field: "parses_to (get_field rec idx name)"
  by (simp add: get_field_def parses_to_rules)

lemma parse_message_row_parses: "parses_to (parse_message_row f rec)"
  unfolding parse_message_row_def
  by (intro parses_to_and_then parses_to_rules parses_get_field) simp_all

lemma parse_levels_parses: "parses_to (parse_levels rec)"
proof (induction rec rule: parse_levels.induct)
  case (1 ap asz bp bsz rest)
  have "parses_to (case a of (asks, bids) \<Rightarrow> Ok (l # asks, r # bids))" for a and l r :: level
    by (cases a) (simp add: parses_to_rules)
  with 1 show ?case
    unfolding parse_levels.simps by (intro parses_to_and_then parses_to_rules) simp_all
qed (simp_all add: parses_to_rules)

text \<open>The first records of an iterator parse to the given rows.\<close>

definition first_rows :: "('r \<Rightarrow> (ingest_error, 'a) outcome) \<Rightarrow> (string, 'r) outcome list \<Rightarrow> 'a list \<Rightarrow> bool" where
  "first_rows parse records rows \<longleftrightarrow>
     length rows \<le> length records \<and>
     (\<forall>i < length rows. case records ! i of Ok rec \<Rightarrow> parse rec = Ok (rows ! i) | _ \<Rightarrow> False)"

lemma first_rows_simps [simp]:
  "first_rows parse records []"
  "first_rows parse (Ok rec # records) (row # rows) \<longleftrightarrow> parse rec = Ok row \<and> first_rows parse records rows"
  by (auto simp: first_rows_def All_less_Suc2 split: outcome.splits)

text \<open>
  The verdict of the pairing: everything was written, or one file ended with a record of the other in
  hand, or a record was rejected; a rejected book leaves the messages one ahead.
\<close>

fun verdict :: "(string list \<Rightarrow> (ingest_error, 'm) outcome) \<Rightarrow> csv_records \<Rightarrow> csv_records \<Rightarrow> nat \<Rightarrow> nat \<Rightarrow> nat \<Rightarrow> nat \<Rightarrow>
    (ingest_error, nat \<times> nat) outcome \<Rightarrow> bool" where
  "verdict parse ms os rows books mc oc (Ok (m, n)) \<longleftrightarrow>
     rows = length ms \<and> books = length os \<and> rows = books \<and> m = mc + rows \<and> n = oc + books"
| "verdict parse ms os rows books mc oc (Err (LengthMismatch m n)) \<longleftrightarrow>
     rows = books \<and>
     (rows < length ms \<and> books = length os \<and> m = mc + rows + 1 \<and> n = oc + books \<or>
      rows = length ms \<and> books < length os \<and> m = mc + rows \<and> n = oc + books + 1)"
| "verdict parse ms os rows books mc oc out \<longleftrightarrow>
     rows = books \<and> rows < length ms \<and> fails_with parse (ms ! rows) out \<or>
     rows = books \<and> books < length os \<and> fails_with (\<lambda>_. Ok ()) (os ! books) out \<or>
     rows = books + 1 \<and> books < length os \<and> (\<exists>rec. os ! books = Ok rec) \<and> fails_with parse_levels (os ! books) out"

lemma verdict_row_failure:
  "row_failure out \<Longrightarrow> verdict parse ms os rows books mc oc out \<longleftrightarrow>
     rows = books \<and> rows < length ms \<and> fails_with parse (ms ! rows) out \<or>
     rows = books \<and> books < length os \<and> fails_with (\<lambda>_. Ok ()) (os ! books) out \<or>
     rows = books + 1 \<and> books < length os \<and> (\<exists>rec. os ! books = Ok rec) \<and> fails_with parse_levels (os ! books) out"
  by (cases "(parse, ms, os, rows, books, mc, oc, out)" rule: verdict.cases) auto

lemma verdict_Suc:
  "verdict parse ms os rows books (mc + 1) (oc + 1) out \<Longrightarrow>
     verdict parse (a # ms) (b # os) (rows + 1) (books + 1) mc oc out"
  by (cases "(parse, ms, os, rows, books, mc, oc, out)" rule: verdict.cases) auto

context reliable_sink
begin

text \<open>
  One round: the message is written unless its record is rejected, then the book unless its record is
  rejected, so a rejected book record leaves the message stream one frame ahead.
\<close>

lemma parse_levels_shallow:
  assumes "parse_levels rec = Ok lv" and "length rec \<le> 4 * depth"
  shows "shallow depth lv"
proof -
  have "4 * length (fst lv) \<le> length rec \<and> 4 * length (snd lv) \<le> length rec"
    using assms(1) by (induction rec arbitrary: lv rule: parse_levels.induct) (fastforce simp: and_then_Ok)+
  with assms(2) show ?thesis by (simp add: shallow_def)
qed

lemma put_pair_exact:
  assumes b: "builds lob ops depth enc_m enc_b" and s: "sink_has wr written open_sink ps s"
    and t: "sink_has wr written open_sink qs t" and n: "length orec \<le> 4 * depth"
  shows "(\<exists>out. put_pair lob ops mrec orec (s, t) = Some (out, (s, t)) \<and> row_failure out \<and>
       fails_with (parse_message_row (lob_parse_f64 lob)) (Ok mrec) out) \<or>
    (\<exists>row out s'. parse_message_row (lob_parse_f64 lob) mrec = Ok row \<and>
       put_pair lob ops mrec orec (s, t) = Some (out, (s', t)) \<and> row_failure out \<and>
       fails_with parse_levels (Ok orec) out \<and> sink_has wr written open_sink (ps @ [enc_m row]) s') \<or>
    (\<exists>row lv s' t'. parse_message_row (lob_parse_f64 lob) mrec = Ok row \<and> parse_levels orec = Ok lv \<and>
       put_pair lob ops mrec orec (s, t) = Some (Ok (), (s', t')) \<and>
       sink_has wr written open_sink (ps @ [enc_m row]) s' \<and>
       sink_has wr written open_sink (qs @ [enc_b (mr_timestamp row) lv]) t')"
proof (cases "parse_message_row (lob_parse_f64 lob) mrec")
  case (Ok row)
  from put_message_exact [OF b s] obtain s' where
    m: "put_message lob ops row s = Some (Ok (), s')" "sink_has wr written open_sink (ps @ [enc_m row]) s'" by blast
  show ?thesis
  proof (cases "parse_levels orec")
    case lv: (Ok lv)
    from put_book_exact [OF b t parse_levels_shallow [OF lv n]] obtain t' where
      "put_book lob ops (mr_timestamp row) lv t = Some (Ok (), t')"
      "sink_has wr written open_sink (qs @ [enc_b (mr_timestamp row) lv]) t'" by blast
    with Ok lv m show ?thesis
      by (simp add: put_pair_def bindp_def lift_outcome_def on_fst_def on_snd_def)
  next
    case (Err e)
    with parse_levels_parses [of orec] Ok m show ?thesis
      by (simp add: put_pair_def bindp_def lift_outcome_def on_fst_def parses_to_def)
  next
    case Panic
    with Ok m show ?thesis
      by (simp add: put_pair_def bindp_def lift_outcome_def on_fst_def)
  qed
next
  case (Err e)
  with parse_message_row_parses [of "lob_parse_f64 lob" mrec] show ?thesis
    by (simp add: put_pair_def bindp_def lift_outcome_def parses_to_def)
qed (simp add: put_pair_def bindp_def lift_outcome_def)

lemma stopped_at_once:
  assumes "run = Some (out, (s, t))" and "sink_has wr written open_sink ps s" and "sink_has wr written open_sink qs t"
    and "verdict parse ms os 0 0 mc oc out"
  shows "\<exists>out s' t' rows books. run = Some (out, (s', t')) \<and>
    sink_has wr written open_sink (ps @ map enc_m rows) s' \<and>
    sink_has wr written open_sink (qs @ map2 (\<lambda>row. enc_b (mr_timestamp row)) rows books) t' \<and>
    first_rows parse ms rows \<and> first_rows parse_levels os books \<and>
    verdict parse ms os (length rows) (length books) mc oc out"
  using assms by (intro exI [of _ out] exI [of _ s] exI [of _ t] exI [of _ "[]"]) simp

lemma pair_loop_exact:
  assumes b: "builds lob ops depth enc_m enc_b" and s: "sink_has wr written open_sink ps s"
    and t: "sink_has wr written open_sink qs t" and n: "narrow depth os"
  shows "\<exists>out s' t' rows books. pair_loop lob ops mc oc ms os (s, t) = Some (out, (s', t')) \<and>
    sink_has wr written open_sink (ps @ map enc_m rows) s' \<and>
    sink_has wr written open_sink (qs @ map2 (\<lambda>row. enc_b (mr_timestamp row)) rows books) t' \<and>
    first_rows (parse_message_row (lob_parse_f64 lob)) ms rows \<and> first_rows parse_levels os books \<and>
    verdict (parse_message_row (lob_parse_f64 lob)) ms os (length rows) (length books) mc oc out"
  using b s t n
proof (induction lob ops mc oc ms os arbitrary: ps qs s t rule: pair_loop.induct)
  case (4 lob ops mc oc mrec ms orec os)
  let ?run = "pair_loop lob ops mc oc (Ok mrec # ms) (Ok orec # os) (s, t)"
  from 4(5) have narrow: "length orec \<le> 4 * depth" "narrow depth os" by (simp_all add: narrow_def)
  from put_pair_exact [OF 4(2-4) narrow(1), of mrec] consider
      (none) out where "put_pair lob ops mrec orec (s, t) = Some (out, (s, t))" "row_failure out"
        "fails_with (parse_message_row (lob_parse_f64 lob)) (Ok mrec) out"
    | (message) row out s' where "parse_message_row (lob_parse_f64 lob) mrec = Ok row"
        "put_pair lob ops mrec orec (s, t) = Some (out, (s', t))" "row_failure out"
        "fails_with parse_levels (Ok orec) out" "sink_has wr written open_sink (ps @ [enc_m row]) s'"
    | (both) row lv s' t' where "parse_message_row (lob_parse_f64 lob) mrec = Ok row" "parse_levels orec = Ok lv"
        "put_pair lob ops mrec orec (s, t) = Some (Ok (), (s', t'))"
        "sink_has wr written open_sink (ps @ [enc_m row]) s'"
        "sink_has wr written open_sink (qs @ [enc_b (mr_timestamp row) lv]) t'"
    by blast
  then show ?case
  proof cases
    case none
    from bindp_fails_with [where m = "put_pair lob ops mrec orec" and s = "(s, t)", OF this]
    obtain out' where "?run = Some (out', (s, t))" "row_failure out'"
      "fails_with (parse_message_row (lob_parse_f64 lob)) (Ok mrec) out'"
      unfolding pair_loop.simps by blast
    with 4(3,4) show ?thesis
      by (intro exI [of _ out'] exI [of _ s] exI [of _ t] exI [of _ "[]"])
        (simp add: verdict_row_failure del: pair_loop.simps)
  next
    case (message row out s')
    from bindp_fails_with [where m = "put_pair lob ops mrec orec" and s = "(s, t)", OF message(2-4)]
    obtain out' where "?run = Some (out', (s', t))" "row_failure out'" "fails_with parse_levels (Ok orec) out'"
      unfolding pair_loop.simps by blast
    with 4(4) message show ?thesis
      by (intro exI [of _ out'] exI [of _ s'] exI [of _ t] exI [of _ "[row]"] exI [of _ "[]"])
        (simp add: verdict_row_failure del: pair_loop.simps)
  next
    case (both row lv s' t')
    from 4(1) [OF 4(2) both(4,5) narrow(2)] obtain out s'' t'' rows books where
      run: "pair_loop lob ops (mc + 1) (oc + 1) ms os (s', t') = Some (out, (s'', t''))" and rest:
      "sink_has wr written open_sink ((ps @ [enc_m row]) @ map enc_m rows) s''"
      "sink_has wr written open_sink ((qs @ [enc_b (mr_timestamp row) lv]) @
         map2 (\<lambda>row. enc_b (mr_timestamp row)) rows books) t''"
      "first_rows (parse_message_row (lob_parse_f64 lob)) ms rows" "first_rows parse_levels os books"
      "verdict (parse_message_row (lob_parse_f64 lob)) ms os (length rows) (length books) (mc + 1) (oc + 1) out" by blast
    have "?run = Some (out, (s'', t''))" using both(3) run by (simp add: bindp_Ok)
    with rest both(1,2) verdict_Suc [OF rest(5)] show ?thesis
      by (intro exI [of _ out] exI [of _ s''] exI [of _ t''] exI [of _ "row # rows"] exI [of _ "lv # books"])
        (simp del: pair_loop.simps)
  qed
qed (rule stopped_at_once, (simp only: pair_loop.simps prog_simps, (rule refl)?), assumption, assumption, simp)+

end

lemma flush_sink_keeps:
  assumes "\<And>w. written (snd (fl w)) = written w"
  shows "\<exists>out s'. flush_sink fl s = Some (out, s') \<and>
    written (sw_writer (sk_writer s')) = written (sw_writer (sk_writer s)) \<and>
    (case fst (fl (sw_writer (sk_writer s))) of
       Ok _ \<Rightarrow> out = Ok () | Err e \<Rightarrow> out = Err (Flatstream (error_of_io e)) | Panic \<Rightarrow> out = Panic)"
  using assms [of "sw_writer (sk_writer s)"]
  by (auto simp: flush_sink_def writer_flush_def split_beta split: outcome.split)

text \<open>What a failed flush makes of the result.\<close>

definition flush_failed :: "'w flush_op \<Rightarrow> (ingest_error, 'a) outcome \<Rightarrow> bool" where
  "flush_failed fl out \<longleftrightarrow>
     (\<exists>w. case fst (fl w) of Ok _ \<Rightarrow> False | Err e \<Rightarrow> out = Err (Flatstream (error_of_io e)) | Panic \<Rightarrow> out = Panic)"

lemma flush_both:
  fixes s t :: "('w, 'b) sink"
  assumes "\<And>w. written (snd (fl w)) = written w"
  shows "\<exists>out s' t'.
    bindp (on_fst (flush_sink fl)) (\<lambda>_. bindp (on_snd (flush_sink fl)) (\<lambda>_. ret a)) (s, t) = Some (out, (s', t')) \<and>
    written (sw_writer (sk_writer s')) = written (sw_writer (sk_writer s)) \<and>
    written (sw_writer (sk_writer t')) = written (sw_writer (sk_writer t)) \<and> (out = Ok a \<or> flush_failed fl out)"
proof -
  from flush_sink_keeps [of written fl, OF assms, of s] obtain out1 s' where
    one: "flush_sink fl s = Some (out1, s')" "written (sw_writer (sk_writer s')) = written (sw_writer (sk_writer s))"
    "case fst (fl (sw_writer (sk_writer s))) of
       Ok _ \<Rightarrow> out1 = Ok () | Err e \<Rightarrow> out1 = Err (Flatstream (error_of_io e)) | Panic \<Rightarrow> out1 = Panic" by blast
  from flush_sink_keeps [of written fl, OF assms, of t] obtain out2 t' where
    two: "flush_sink fl t = Some (out2, t')" "written (sw_writer (sk_writer t')) = written (sw_writer (sk_writer t))"
    "case fst (fl (sw_writer (sk_writer t))) of
       Ok _ \<Rightarrow> out2 = Ok () | Err e \<Rightarrow> out2 = Err (Flatstream (error_of_io e)) | Panic \<Rightarrow> out2 = Panic" by blast
  show ?thesis
  proof (cases "fst (fl (sw_writer (sk_writer s)))")
    case (Ok u)
    with one two show ?thesis
      by (cases "fst (fl (sw_writer (sk_writer t)))")
        (auto simp: bindp_def on_fst_def on_snd_def ret_def flush_failed_def intro: exI [of _ "sw_writer (sk_writer t)"])
  next
    case (Err e)
    with one show ?thesis
      by (auto simp: bindp_def on_fst_def flush_failed_def intro: exI [of _ "sw_writer (sk_writer s)"])
  next
    case Panic
    with one show ?thesis
      by (auto simp: bindp_def on_fst_def flush_failed_def intro: exI [of _ "sw_writer (sk_writer s)"])
  qed
qed

text \<open>The whole of a run on two fresh files.\<close>

lemma pair_streams_exact:
  assumes "reliable_sink wr written wpatience open_sink" and "builds lob ops depth enc_m enc_b"
    and "open_sink mf" and "written mf = []" and "open_sink bf" and "written bf = []"
    and "\<And>w. written (snd (fl w)) = written w" and "narrow depth os"
  shows "\<exists>out s t rows books.
    write_pair_streams lob ops wr fl ms os (Ok mf) (Ok bf) = Some (out, Some (s, t)) \<and>
    written (sw_writer (sk_writer s)) = encode_stream (\<lambda>_. []) (map enc_m rows) \<and>
    written (sw_writer (sk_writer t)) = encode_stream (\<lambda>_. []) (map2 (\<lambda>row. enc_b (mr_timestamp row)) rows books) \<and>
    first_rows (parse_message_row (lob_parse_f64 lob)) ms rows \<and> first_rows parse_levels os books \<and>
    (verdict (parse_message_row (lob_parse_f64 lob)) ms os (length rows) (length books) 0 0 out \<or>
     length rows = length ms \<and> length books = length os \<and> length rows = length books \<and> flush_failed fl out)"
proof -
  let ?w = "\<lambda>s. written (sw_writer (sk_writer s))"
  let ?books = "map2 (\<lambda>row. enc_b (mr_timestamp row))"
  have "sink_has wr written open_sink [] (sink_new ops wr mf)" "sink_has wr written open_sink [] (sink_new ops wr bf)"
    using assms(3-6) by (simp_all add: sink_has_def sink_new_def writer_new_def)
  from reliable_sink.pair_loop_exact [OF assms(1,2) this assms(8), of 0 0 ms] obtain out s t rows books where
    run: "pair_loop lob ops 0 0 ms os (sink_new ops wr mf, sink_new ops wr bf) = Some (out, (s, t))" and
    has: "?w s = encode_stream (\<lambda>_. []) (map enc_m rows)" "?w t = encode_stream (\<lambda>_. []) (?books rows books)"
    "first_rows (parse_message_row (lob_parse_f64 lob)) ms rows" "first_rows parse_levels os books" and
    v: "verdict (parse_message_row (lob_parse_f64 lob)) ms os (length rows) (length books) 0 0 out"
    by (auto simp: sink_has_def)
  show ?thesis
  proof (cases out)
    case (Ok mn)
    from flush_both [of written fl mn s t, OF assms(7)] obtain out' s' t' where
      "bindp (on_fst (flush_sink fl)) (\<lambda>_. bindp (on_snd (flush_sink fl)) (\<lambda>_. ret mn)) (s, t) = Some (out', (s', t'))"
      "?w s' = ?w s" "?w t' = ?w t" "out' = Ok mn \<or> flush_failed fl out'" by blast
    with run has v Ok show ?thesis
      by (intro exI [of _ out'] exI [of _ s'] exI [of _ t'] exI [of _ rows] exI [of _ books], cases mn)
        (auto simp: write_pair_streams_def bindp_Ok)
  next
    case (Err e)
    with run has v show ?thesis
      by (intro exI [of _ out] exI [of _ s] exI [of _ t] exI [of _ rows] exI [of _ books])
        (simp add: write_pair_streams_def bindp_Err)
  next
    case Panic
    with run has v show ?thesis
      by (intro exI [of _ out] exI [of _ s] exI [of _ t] exI [of _ rows] exI [of _ books])
        (simp add: write_pair_streams_def bindp_Panic)
  qed
qed

section \<open>Properties\<close>

text \<open>C21: The two streams stay in step: on reliable files the message stream holds exactly the frames
  of the first message records, the book stream those of the first book records, each under the timestamp
  of its message, and the result says how far they got and why they stopped there: at the end of both
  files, at the end of one of them, or at a rejected record, unless a flush failed.\<close>

theorem pair_streams_stay_in_step:
  assumes "reliable_sink wr written wpatience open_sink" and "builds lob ops depth enc_m enc_b"
    and "open_sink mf" and "written mf = []" and "open_sink bf" and "written bf = []"
    and "\<And>w. written (snd (fl w)) = written w" and "narrow depth os"
  shows "\<exists>out s t rows books.
    write_pair_streams lob ops wr fl ms os (Ok mf) (Ok bf) = Some (out, Some (s, t)) \<and>
    written (sw_writer (sk_writer s)) = encode_stream (\<lambda>_. []) (map enc_m rows) \<and>
    written (sw_writer (sk_writer t)) = encode_stream (\<lambda>_. []) (map2 (\<lambda>row. enc_b (mr_timestamp row)) rows books) \<and>
    first_rows (parse_message_row (lob_parse_f64 lob)) ms rows \<and> first_rows parse_levels os books \<and>
    (verdict (parse_message_row (lob_parse_f64 lob)) ms os (length rows) (length books) 0 0 out \<or>
     length rows = length ms \<and> length books = length os \<and> length rows = length books \<and> flush_failed fl out)"
  by (rule pair_streams_exact [OF assms])

text \<open>C30: A message row survives its printing: the columns of a row, in the order of the file, parse to that
  row whatever columns follow, at every value of every integer width.\<close>

theorem message_row_round_trip:
  assumes "parse_f64 time = Ok (mr_timestamp row)"
  shows "parse_message_row parse_f64
     ([time, dec (unat (mr_event_type row)), dec (unat (mr_order_id row)), dec (unat (mr_size row)),
       int_text (sint (mr_price row)), int_text (sint (mr_direction row))] @ rest) = Ok row"
  using assms
  by (simp add: parse_message_row_def get_field_def and_then_def parse_unsigned_word parse_signed_word)

theorem message_row_round_trip_witness:
  "parse_message_row (\<lambda>t. Ok t)
     ([''34200.0'', dec (unat (1 :: u8)), dec (unat (7 :: u64)), dec (unat (100 :: u32)),
       int_text (sint (5853300 :: u64)), int_text (sint (- 1 :: u8))] @ [''x'']) =
   Ok \<lparr>mr_timestamp = ''34200.0'', mr_event_type = 1, mr_order_id = 7, mr_size = 100, mr_price = 5853300,
     mr_direction = - 1\<rparr>"
  using message_row_round_trip [of "\<lambda>t. Ok t" "''34200.0''" "\<lparr>mr_timestamp = ''34200.0'', mr_event_type = 1,
     mr_order_id = 7, mr_size = 100, mr_price = 5853300, mr_direction = - 1\<rparr>" "[''x'']"] by simp

text \<open>The columns of one price level: the ask and the bid side by side.\<close>

definition level_columns :: "level \<times> level \<Rightarrow> string list" where
  "level_columns = (\<lambda>(ask, bid).
     [int_text (sint (lv_price ask)), dec (unat (lv_size ask)), int_text (sint (lv_price bid)), dec (unat (lv_size bid))])"

text \<open>An order book survives its printing: interleaved asks and bids are told apart again, and an
  incomplete group of columns at the end of the record is dropped.\<close>

lemma order_book_round_trip:
  assumes "length rest < 4"
  shows "parse_levels (concat (map level_columns levels) @ rest) = Ok (map fst levels, map snd levels)"
proof (induction levels)
  case Nil
  from assms show ?case by (cases rest rule: parse_levels.cases) auto
next
  case (Cons l levels)
  then show ?case
    by (cases l) (simp add: level_columns_def and_then_def parse_unsigned_word parse_signed_word)
qed

lemma order_book_round_trip_witness:
  "parse_levels (concat (map level_columns
      [(\<lparr>lv_price = 5859400, lv_size = 200\<rparr>, \<lparr>lv_price = - 1, lv_size = 18\<rparr>)]) @ [''9999999999'', ''0'']) =
   Ok ([\<lparr>lv_price = 5859400, lv_size = 200\<rparr>], [\<lparr>lv_price = - 1, lv_size = 18\<rparr>])"
  using order_book_round_trip [of "[''9999999999'', ''0'']"
      "[(\<lparr>lv_price = 5859400, lv_size = 200\<rparr>, \<lparr>lv_price = - 1, lv_size = 18\<rparr>)]"] by simp

section \<open>A sample\<close>

text \<open>Timestamps are texts, and the generated code lays out the type of an event, the numbers of levels.\<close>

definition sample_lobster :: "(string, nat \<times> bytes option, level list, bytes) lobster" where
  "sample_lobster = \<lparr>lob_parse_f64 = (\<lambda>t. Ok t), lob_zero = [],
     lob_message_create = (\<lambda>row b. ([mr_event_type row], b)),
     lob_create_vector = (\<lambda>levels b. (levels, b)),
     lob_snapshot_create = (\<lambda>ts asks bids b. ([of_nat (length ts), of_nat (length asks), of_nat (length bids)], b)),
     lob_finish = (\<lambda>off b. (fst b, Some off))\<rparr>"

lemma sample_builds:
  "builds sample_lobster sample_builder 2 (\<lambda>row. [mr_event_type row])
     (\<lambda>ts levels. [of_nat (length ts), of_nat (length (fst levels)), of_nat (length (snd levels))])"
  by (simp add: builds_def sample_lobster_def sample_builder_def u32_max_def)

text \<open>Two messages, one book.\<close>

definition sample_messages :: csv_records where
  "sample_messages = [Ok [''34200.0'', ''1'', ''7'', ''100'', ''5853300'', ''-1''], Ok [''34200.1'', ''4'', ''8'', ''1'', ''1'', ''1'']]"

definition sample_books :: csv_records where
  "sample_books = [Ok [''5859400'', ''200'', ''5853300'', ''18'']]"

lemma sample_narrow: "narrow 2 sample_messages" "narrow 2 sample_books"
  by (simp_all add: narrow_def sample_messages_def sample_books_def)

lemma sample_parses:
  "parse_message_row (\<lambda>t. Ok t) [''34200.0'', ''1'', ''7'', ''100'', ''5853300'', ''-1''] =
     Ok \<lparr>mr_timestamp = ''34200.0'', mr_event_type = 1, mr_order_id = 7, mr_size = 100, mr_price = 5853300, mr_direction = - 1\<rparr>"
  "parse_message_row (\<lambda>t. Ok t) [''34200.1'', ''4'', ''8'', ''1'', ''1'', ''1''] =
     Ok \<lparr>mr_timestamp = ''34200.1'', mr_event_type = 4, mr_order_id = 8, mr_size = 1, mr_price = 1, mr_direction = 1\<rparr>"
  "parse_levels [''5859400'', ''200'', ''5853300'', ''18''] =
     Ok ([\<lparr>lv_price = 5859400, lv_size = 200\<rparr>], [\<lparr>lv_price = 5853300, lv_size = 18\<rparr>])"
  by (simp_all add: parse_message_row_def get_field_def and_then_def parse_u8_def parse_u64_def parse_u32_def
    parse_i64_def parse_i8_def parse_unsigned_def parse_signed_def to_digit_def)

lemma no_flush_failure: "flush_failed (\<lambda>w. (Ok (), w)) out \<longleftrightarrow> False"
  by (simp add: flush_failed_def)

lemma sample_records_sound:
  "i < 2 \<Longrightarrow> \<not> fails_with (parse_message_row (\<lambda>t. Ok t)) (sample_messages ! i) out"
  "\<not> fails_with parse_levels (sample_books ! 0) out" "\<not> fails_with (\<lambda>_. Ok ()) (sample_books ! 0) out'"
  by (auto simp: less_2_cases_iff sample_messages_def sample_books_def sample_parses simp del: parse_levels.simps)

theorem pair_streams_stay_in_step_witness:
  "\<exists>s t (row :: string message_row) (lv :: level list \<times> level list).
     write_pair_streams sample_lobster sample_builder vec_write (\<lambda>w. (Ok (), w)) sample_messages sample_books (Ok []) (Ok []) =
       Some (Err (LengthMismatch 2 1), Some (s, t)) \<and>
     sw_writer (sk_writer s) = encode_stream (\<lambda>_. []) [[mr_event_type row]] \<and>
     sw_writer (sk_writer t) = encode_stream (\<lambda>_. [])
       [[of_nat (length (mr_timestamp row)), of_nat (length (fst lv)), of_nat (length (snd lv))]]"
proof -
  let ?parse = "parse_message_row (lob_parse_f64 sample_lobster)"
  have f: "lob_parse_f64 sample_lobster = (\<lambda>t. Ok t)" by (simp add: sample_lobster_def)
  from pair_streams_stay_in_step [where fl = "\<lambda>w. (Ok (), w)" and ms = sample_messages and os = sample_books,
      OF vec_sink.reliable_sink_axioms sample_builds TrueI refl TrueI refl snd_conv sample_narrow(2)]
  obtain out s t and rows :: "string message_row list" and books :: "(level list \<times> level list) list" where
    run: "write_pair_streams sample_lobster sample_builder vec_write (\<lambda>w. (Ok (), w)) sample_messages sample_books (Ok []) (Ok []) =
       Some (out, Some (s, t))" and
    w: "sw_writer (sk_writer s) = encode_stream (\<lambda>_. []) (map (\<lambda>row. [mr_event_type row]) rows)"
    "sw_writer (sk_writer t) = encode_stream (\<lambda>_. []) (map2 (\<lambda>row levels.
       [of_nat (length (mr_timestamp row)), of_nat (length (fst levels)), of_nat (length (snd levels))]) rows books)" and
    v: "verdict ?parse sample_messages sample_books (length rows) (length books) 0 0 out"
    unfolding no_flush_failure simp_thms by blast
  have len: "length sample_messages = 2" "length sample_books = 1"
    by (simp_all add: sample_messages_def sample_books_def)
  from v have "length rows = 1 \<and> length books = 1 \<and> out = Err (LengthMismatch 2 1)"
    unfolding f
    by (cases "(?parse, sample_messages, sample_books, length rows, length books, 0 :: nat, 0 :: nat, out)"
        rule: verdict.cases) (auto simp: len f sample_records_sound)
  then obtain row lv where "rows = [row]" "books = [lv]" "out = Err (LengthMismatch 2 1)"
    by (auto simp: length_Suc_conv)
  with run w show ?thesis by auto
qed

end
