(* ===== verification/FS_Examples.thy ===== *)
theory FS_Examples
  imports FS_Reader FS_Writer
begin

text \<open>
  Clients of the crate under \<^verbatim>\<open>examples/\<close>: the writer with an adaptive policy and a policy that
  logs (\<^verbatim>\<open>adaptive_policy.rs\<close>). The FlatBuffers calls of an item are arguments.
\<close>

section \<open>Items that are byte vectors\<close>

text \<open>\<^verbatim>\<open>Blob\<close>: \<^verbatim>\<open>create_vector\<close> and \<^verbatim>\<open>finish\<close>.\<close>

type_synonym ('b, 'offset) vector_builder = "(bytes \<Rightarrow> 'b \<Rightarrow> 'offset \<times> 'b) \<times> ('offset \<Rightarrow> 'b \<Rightarrow> 'b)"

definition blob_serialize :: "('b, 'offset) vector_builder \<Rightarrow> bytes \<Rightarrow> 'b serialize" where
  "blob_serialize vb data b = (let (off, b1) = fst vb data b in Some (Ok (), snd vb off b1))"

section \<open>A policy that logs\<close>

text \<open>\<^verbatim>\<open>LoggingPolicy\<close> has the policy it wraps as its state, and here what it has printed.\<close>

definition logging_should_reset ::
  "'p memory_policy \<Rightarrow> 'p \<times> reclamation_info list \<Rightarrow> nat \<Rightarrow> nat \<Rightarrow>
   reclamation_reason option \<times> 'p \<times> reclamation_info list" where
  "logging_should_reset pops = (\<lambda>(p, log) last_message_size current_capacity.
     (let (v, p') = should_reset pops p last_message_size current_capacity in (v, p', log)))"

definition logging_on_reclaim ::
  "'p memory_policy \<Rightarrow> 'p \<times> reclamation_info list \<Rightarrow> reclamation_info \<Rightarrow> 'p \<times> reclamation_info list" where
  "logging_on_reclaim pops = (\<lambda>(p, log) info. (on_reclaim pops p info, log @ [info]))"

definition LoggingPolicy :: "'p memory_policy \<Rightarrow> ('p \<times> reclamation_info list) memory_policy" where
  "LoggingPolicy pops =
     \<lparr>should_reset = logging_should_reset pops, on_reclaim = logging_on_reclaim pops,
      baseline_capacity = (\<lambda>(p, log). baseline_capacity pops p)\<rparr>"

text \<open>The sink that the example writes to (\<^verbatim>\<open>std::io::sink()\<close>, or a file) is an argument.\<close>

definition adaptive_policy_main ::
  "'b builder_ops \<Rightarrow> ('b, 'offset) vector_builder \<Rightarrow> machine \<Rightarrow> 'w write_op \<Rightarrow> 'w \<Rightarrow>
   ((error, unit) outcome \<times>
    ('w, unit, 'b, monotonic_clock adaptive \<times> reclamation_info list, unit) stream_writer) option" where
  "adaptive_policy_main ops vb m wr sink =
     (let base_policy = adaptive_with_baseline (adaptive_new 4 10 m) (16 * 1024);
          policy = LoggingPolicy (AdaptiveWatermarkPolicy monotonic_clock_now);
          writer = writer_with_memory_policy ops (writer_new ops sink (DefaultFramer wr) ())
            policy (base_policy, []);
          large_blob = blob_serialize vb (replicate (1024 * 1024) 0);
          small_blob = blob_serialize vb (replicate 100 0)
      in bindp (writer_write ops large_blob) (\<lambda>_. write_items ops (replicate 15 small_blob)) writer)"

section \<open>A burst and its end\<close>

text \<open>
  Items whose builder has grown: from a builder with room an item encodes as \<open>p\<close>, and the builder then
  reports at least \<open>room\<close> bytes of backing buffer and still has room. This is how a builder that keeps
  its buffer through \<^verbatim>\<open>reset\<close> behaves.
\<close>

definition grown :: "'b builder_ops \<Rightarrow> nat \<Rightarrow> ('b \<Rightarrow> bool) \<Rightarrow> 'b serialize \<Rightarrow> bytes \<Rightarrow> bool" where
  "grown ops room roomy item p \<longleftrightarrow> (\<forall>b. roomy b \<longrightarrow>
     (\<exists>b' n. item (b_reset ops b) = Some (Ok (), b') \<and> roomy b' \<and>
        b_finished_data ops b' = Some p \<and> b_mut_finished_buffer ops b' = Some n \<and> room \<le> n))"

text \<open>A slot of the example: the adaptive policy inside the logging one.\<close>

definition logged_slot :: "'c clock \<Rightarrow> nat \<Rightarrow> ('m \<Rightarrow> nat \<Rightarrow> 'b \<times> 'm) \<Rightarrow> 'c adaptive \<Rightarrow> reclamation_info list \<Rightarrow> 'm \<Rightarrow>
    ('b, 'c adaptive \<times> reclamation_info list, 'm) writer_slot" where
  "logged_slot now base mk p log m =
     \<lparr>ws_policy_ops = LoggingPolicy (AdaptiveWatermarkPolicy now), ws_policy = (p, log),
      ws_baseline_capacity = base, ws_make_builder = mk, ws_factory = m\<rparr>"

context exact_frame_writer
begin

text \<open>One write under an overprovisioned builder: the streak grows, or the builder is replaced.\<close>

lemma write_grown:
  assumes g: "grown ops room roomy item p" "roomy (sw_builder s)"
    and s: "sw_framer s = fr" "open_sink (sw_writer s)" "sw_policy s = Some (logged_slot now base mk q log m)"
    and q: "aw_cooldown q = None" "aw_messages_since_over q < aw_messages_to_wait q" "aw_messages_to_wait q \<le> u32_max"
    and p: "accept p" "p \<noteq> []" "usize_saturating_mul (length p) (aw_size_ratio_threshold q) \<le> room" and base: "base < room"
  shows "\<exists>s' q' n. writer_write ops item s = Some (Ok (), s') \<and> sw_framer s' = fr \<and> open_sink (sw_writer s') \<and>
    written (sw_writer s') = written (sw_writer s) @ encode_frame field p \<and> room \<le> n \<and>
    aw_cooldown q' = None \<and> aw_messages_to_wait q' = aw_messages_to_wait q \<and>
    aw_size_ratio_threshold q' = aw_size_ratio_threshold q \<and>
    (if Suc (aw_messages_since_over q) = aw_messages_to_wait q
     then aw_messages_since_over q' = 0 \<and> sw_builder s' = fst (mk m base) \<and>
       sw_policy s' = Some (logged_slot now base mk q'
         (log @ [\<lparr>ri_reason = MessageCount, ri_last_message_size = length p, ri_capacity_before = n,
                  ri_capacity_after = base\<rparr>]) (snd (mk m base)))
     else aw_messages_since_over q' = Suc (aw_messages_since_over q) \<and> roomy (sw_builder s') \<and>
       sw_policy s' = Some (logged_slot now base mk q' log m))"
proof -
  from g obtain b' n where item: "item (b_reset ops (sw_builder s)) = Some (Ok (), b')" "roomy b'"
    "b_finished_data ops b' = Some p" "b_mut_finished_buffer ops b' = Some n" "room \<le> n"
    by (auto simp: grown_def)
  from frame_exact [of "\<lparr>tx_sink = sw_writer s, tx_world = sw_world s\<rparr>" p] s(2) p(1) obtain t where
    t: "fr p \<lparr>tx_sink = sw_writer s, tx_world = sw_world s\<rparr> = Some (Ok (), t)" "open_sink (tx_sink t)"
    "written (tx_sink t) = written (sw_writer s) @ encode_frame field p" by auto
  let ?s2 = "s\<lparr>sw_builder := b', sw_writer := tx_sink t, sw_world := tx_world t\<rparr>"
  have run: "writer_write ops item s = writer_evaluate_memory_policy ops (length p) ?s2"
    using item t(1) s by (simp add: writer_write_def frame_and_write_def bindp_def)
  have over: "overprovisioned q (length p, n)" using p item(5) by (simp add: overprovisioned_def)
  have sat: "u32_saturating_add (aw_messages_since_over q) 1 = Suc (aw_messages_since_over q)"
    using q by (simp add: u32_saturating_add_def)
  show ?thesis
    using run item t s q over sat base
    by (cases "mk m base") (auto simp: writer_evaluate_memory_policy_def logged_slot_def LoggingPolicy_def logging_should_reset_def
        logging_on_reclaim_def AdaptiveWatermarkPolicy_def on_reclaim_default_def adaptive_count_only_step Let_def)
qed

lemma write_burst:
  assumes "list_all2 (grown ops room roomy) items ps" and "roomy (sw_builder s)"
    and "sw_framer s = fr" and "open_sink (sw_writer s)" and "sw_policy s = Some (logged_slot now base mk q log m)"
    and "aw_cooldown q = None" and "aw_messages_to_wait q \<le> u32_max" and "base < room"
    and "list_all (\<lambda>p. accept p \<and> p \<noteq> [] \<and> usize_saturating_mul (length p) (aw_size_ratio_threshold q) \<le> room) ps"
    and "items \<noteq> []" and "aw_messages_since_over q + length items = aw_messages_to_wait q"
  shows "\<exists>s' q' n. write_items ops items s = Some (Ok (), s') \<and>
    written (sw_writer s') = written (sw_writer s) @ encode_stream field ps \<and> room \<le> n \<and>
    sw_framer s' = fr \<and> open_sink (sw_writer s') \<and> aw_messages_since_over q' = 0 \<and> sw_builder s' = fst (mk m base) \<and>
    sw_policy s' = Some (logged_slot now base mk q'
      (log @ [\<lparr>ri_reason = MessageCount, ri_last_message_size = length (last ps), ri_capacity_before = n,
               ri_capacity_after = base\<rparr>]) (snd (mk m base)))"
  using assms
proof (induction items ps arbitrary: s q rule: list_all2_induct)
  case (Cons item items p ps)
  from Cons.prems(8) have p: "accept p" "p \<noteq> []" "usize_saturating_mul (length p) (aw_size_ratio_threshold q) \<le> room"
    by simp_all
  from Cons.prems(10) have k: "aw_messages_since_over q < aw_messages_to_wait q" by simp
  from write_grown [OF Cons.hyps(1) Cons.prems(1-5) k Cons.prems(6) p Cons.prems(7)]
  obtain s1 q1 n where run: "writer_write ops item s = Some (Ok (), s1)"
    "sw_framer s1 = fr" "open_sink (sw_writer s1)"
    "written (sw_writer s1) = written (sw_writer s) @ encode_frame field p" "room \<le> n" and
    q1: "aw_cooldown q1 = None" "aw_messages_to_wait q1 = aw_messages_to_wait q"
    "aw_size_ratio_threshold q1 = aw_size_ratio_threshold q" and
    res: "if Suc (aw_messages_since_over q) = aw_messages_to_wait q
     then aw_messages_since_over q1 = 0 \<and> sw_builder s1 = fst (mk m base) \<and>
       sw_policy s1 = Some (logged_slot now base mk q1
         (log @ [\<lparr>ri_reason = MessageCount, ri_last_message_size = length p, ri_capacity_before = n,
                  ri_capacity_after = base\<rparr>]) (snd (mk m base)))
     else aw_messages_since_over q1 = Suc (aw_messages_since_over q) \<and> roomy (sw_builder s1) \<and>
       sw_policy s1 = Some (logged_slot now base mk q1 log m)" by blast
  show ?case
  proof (cases "items = []")
    case True
    with Cons.hyps(2) have "ps = []" by simp
    with True run res Cons.prems(10) show ?thesis
      by (intro exI [of _ s1] exI [of _ q1] exI [of _ n]) (simp add: prog_simps)
  next
    case False
    with Cons.hyps(2) have "ps \<noteq> []" by auto
    have "Suc (aw_messages_since_over q) \<noteq> aw_messages_to_wait q" using False Cons.prems(10) by (cases items) simp_all
    with res have s1: "aw_messages_since_over q1 = Suc (aw_messages_since_over q)" "roomy (sw_builder s1)"
      "sw_policy s1 = Some (logged_slot now base mk q1 log m)" by simp_all
    from Cons.IH [OF s1(2) run(2,3) s1(3) q1(1)] Cons.prems(6-10) q1 s1(1) False
    obtain s' q' n' where "write_items ops items s1 = Some (Ok (), s')"
      "written (sw_writer s') = written (sw_writer s1) @ encode_stream field ps" "room \<le> n'"
      "sw_framer s' = fr" "open_sink (sw_writer s')"
      "aw_messages_since_over q' = 0" "sw_builder s' = fst (mk m base)"
      "sw_policy s' = Some (logged_slot now base mk q'
        (log @ [\<lparr>ri_reason = MessageCount, ri_last_message_size = length (last ps), ri_capacity_before = n',
                 ri_capacity_after = base\<rparr>]) (snd (mk m base)))" by auto
    with run \<open>ps \<noteq> []\<close> show ?thesis
      by (intro exI [of _ s'] exI [of _ q'] exI [of _ n']) (simp add: prog_simps)
  qed
qed simp

end

section \<open>The run of the example\<close>

text \<open>
  A builder whose buffer only grows: it fits what is finished in it, is kept by \<^verbatim>\<open>reset\<close>, and a growth
  is at most a doubling of what is needed.
\<close>

definition growing_vectors :: "'b builder_ops \<Rightarrow> ('b, 'offset) vector_builder \<Rightarrow> ('b \<Rightarrow> nat) \<Rightarrow> (bytes \<Rightarrow> bytes) \<Rightarrow> bool" where
  "growing_vectors ops vb cap enc \<longleftrightarrow> cap (b_new ops) = 0 \<and> (\<forall>n. cap (b_with_capacity ops n) = n) \<and>
     (\<forall>data b. \<exists>b'. blob_serialize vb data (b_reset ops b) = Some (Ok (), b') \<and>
        b_finished_data ops b' = Some (enc data) \<and> b_mut_finished_buffer ops b' = Some (cap b') \<and>
        (if length (enc data) \<le> cap b then cap b' = cap b
         else length (enc data) \<le> cap b' \<and> cap b' \<le> 2 * length (enc data)))"

lemma growing_grown:
  assumes "growing_vectors ops vb cap enc" and "length (enc data) \<le> room"
  shows "grown ops room (\<lambda>b. room \<le> cap b) (blob_serialize vb data) (enc data)"
  unfolding grown_def
proof (intro allI impI)
  fix b assume "room \<le> cap b"
  with assms(2) have fits: "length (enc data) \<le> cap b" by simp
  from assms(1) obtain b' where "blob_serialize vb data (b_reset ops b) = Some (Ok (), b')"
    "b_finished_data ops b' = Some (enc data)" "b_mut_finished_buffer ops b' = Some (cap b')"
    "if length (enc data) \<le> cap b then cap b' = cap b
     else length (enc data) \<le> cap b' \<and> cap b' \<le> 2 * length (enc data)"
    unfolding growing_vectors_def by blast
  with fits \<open>room \<le> cap b\<close> show "\<exists>b' n. blob_serialize vb data (b_reset ops b) = Some (Ok (), b') \<and> room \<le> cap b' \<and>
      b_finished_data ops b' = Some (enc data) \<and> b_mut_finished_buffer ops b' = Some n \<and> room \<le> n"
    by (intro exI [of _ b'] exI [of _ "cap b'"]) simp
qed

lemma write_items_append:
  "write_items ops (xs @ ys) = bindp (write_items ops xs) (\<lambda>_. write_items ops ys)"
proof (induction xs)
  case (Cons x xs)
  then show ?case by (auto simp: bindp_def fun_eq_iff split: option.split prod.split outcome.split)
qed (simp add: fun_eq_iff prog_simps)

context exact_frame_writer
begin

text \<open>A write whose builder does not outgrow the baseline does not consult the policy.\<close>

lemma write_under_baseline:
  assumes "growing_vectors ops vb cap enc" and "cap (sw_builder s) = base" and "length (enc data) \<le> base"
    and "sw_framer s = fr" "open_sink (sw_writer s)" "sw_policy s = Some (logged_slot now base mk q log m)"
    and "accept (enc data)"
  shows "\<exists>s'. writer_write ops (blob_serialize vb data) s = Some (Ok (), s') \<and> cap (sw_builder s') = base \<and>
    sw_framer s' = fr \<and> open_sink (sw_writer s') \<and> sw_policy s' = sw_policy s"
proof -
  from assms(1) obtain b' where b': "blob_serialize vb data (b_reset ops (sw_builder s)) = Some (Ok (), b')"
    "b_finished_data ops b' = Some (enc data)" "b_mut_finished_buffer ops b' = Some (cap b')"
    "if length (enc data) \<le> cap (sw_builder s) then cap b' = cap (sw_builder s)
     else length (enc data) \<le> cap b' \<and> cap b' \<le> 2 * length (enc data)"
    unfolding growing_vectors_def by blast
  from frame_exact [of "\<lparr>tx_sink = sw_writer s, tx_world = sw_world s\<rparr>" "enc data"] assms(5,7) obtain t where
    "fr (enc data) \<lparr>tx_sink = sw_writer s, tx_world = sw_world s\<rparr> = Some (Ok (), t)" "open_sink (tx_sink t)" by auto
  with b' assms(2-6) show ?thesis
    by (simp add: writer_write_def frame_and_write_def bindp_def writer_evaluate_memory_policy_def logged_slot_def)
qed

lemma writes_under_baseline:
  assumes "growing_vectors ops vb cap enc" and "length (enc data) \<le> base" and "accept (enc data)"
  shows "cap (sw_builder s) = base \<Longrightarrow> sw_framer s = fr \<Longrightarrow> open_sink (sw_writer s) \<Longrightarrow>
    sw_policy s = Some (logged_slot now base mk q log m) \<Longrightarrow>
    \<exists>s'. write_items ops (replicate k (blob_serialize vb data)) s = Some (Ok (), s') \<and> sw_policy s' = sw_policy s"
proof (induction k arbitrary: s)
  case (Suc k)
  from write_under_baseline [OF assms(1) Suc.prems(1) assms(2) Suc.prems(2-4) assms(3)] obtain s1 where
    "writer_write ops (blob_serialize vb data) s = Some (Ok (), s1)" "cap (sw_builder s1) = base"
    "sw_framer s1 = fr" "open_sink (sw_writer s1)" "sw_policy s1 = sw_policy s" by blast
  with Suc.IH [of s1] Suc.prems show ?case by (auto simp: bindp_Ok)
qed (simp add: prog_simps)

text \<open>The burst itself: the builder grows, and is not overprovisioned for this message.\<close>

lemma write_large:
  assumes "growing_vectors ops vb cap enc" and "cap (sw_builder s) < length (enc data)"
    and "sw_framer s = fr" "open_sink (sw_writer s)" "sw_policy s = Some (logged_slot now base mk q log m)"
    and "aw_cooldown q = None" and "2 * length (enc data) < usize_saturating_mul (length (enc data)) (aw_size_ratio_threshold q)"
    and "accept (enc data)" and "base < length (enc data)"
  shows "\<exists>s' q'. writer_write ops (blob_serialize vb data) s = Some (Ok (), s') \<and>
    length (enc data) \<le> cap (sw_builder s') \<and> sw_framer s' = fr \<and> open_sink (sw_writer s') \<and>
    sw_policy s' = Some (logged_slot now base mk q' log m) \<and> aw_cooldown q' = None \<and> aw_messages_since_over q' = 0 \<and>
    aw_messages_to_wait q' = aw_messages_to_wait q \<and> aw_size_ratio_threshold q' = aw_size_ratio_threshold q"
proof -
  from assms(1) obtain b' where b': "blob_serialize vb data (b_reset ops (sw_builder s)) = Some (Ok (), b')"
    "b_finished_data ops b' = Some (enc data)" "b_mut_finished_buffer ops b' = Some (cap b')"
    "if length (enc data) \<le> cap (sw_builder s) then cap b' = cap (sw_builder s)
     else length (enc data) \<le> cap b' \<and> cap b' \<le> 2 * length (enc data)"
    unfolding growing_vectors_def by blast
  with assms(2) have c: "length (enc data) \<le> cap b'" "cap b' \<le> 2 * length (enc data)" by simp_all
  from frame_exact [of "\<lparr>tx_sink = sw_writer s, tx_world = sw_world s\<rparr>" "enc data"] assms(4,8) obtain t where
    t: "fr (enc data) \<lparr>tx_sink = sw_writer s, tx_world = sw_world s\<rparr> = Some (Ok (), t)" "open_sink (tx_sink t)" by auto
  have run: "writer_write ops (blob_serialize vb data) s = writer_evaluate_memory_policy ops (length (enc data))
      (s\<lparr>sw_builder := b', sw_writer := tx_sink t, sw_world := tx_world t\<rparr>)"
    using b' t(1) assms(3,5) by (simp add: writer_write_def frame_and_write_def bindp_def)
  have "\<not> overprovisioned q (length (enc data), cap b')" using assms(7) c by (simp add: overprovisioned_def)
  with run b'(3) c t(2) assms(3,5,6,9) show ?thesis
    by (simp add: writer_evaluate_memory_policy_def logged_slot_def LoggingPolicy_def logging_should_reset_def
        AdaptiveWatermarkPolicy_def adaptive_count_only_step)
qed

text \<open>A burst and its end, with messages that fit under the baseline.\<close>

lemma burst_then_quiet:
  assumes g: "growing_vectors ops vb cap enc" and s: "cap (sw_builder s) < length (enc large)" "sw_framer s = fr"
    "open_sink (sw_writer s)" "sw_policy s = Some (logged_slot now base (\<lambda>m n. (b_with_capacity ops n, m)) q log m)"
    and q: "aw_cooldown q = None" "0 < aw_messages_to_wait q" "aw_messages_to_wait q \<le> u32_max"
    "2 * length (enc large) < usize_saturating_mul (length (enc large)) (aw_size_ratio_threshold q)"
    and l: "accept (enc large)" "base < length (enc large)"
    and d: "accept (enc small)" "enc small \<noteq> []" "length (enc small) \<le> base"
    "usize_saturating_mul (length (enc small)) (aw_size_ratio_threshold q) \<le> length (enc large)"
  shows "\<exists>s' q' n. bindp (writer_write ops (blob_serialize vb large))
      (\<lambda>_. write_items ops (replicate (aw_messages_to_wait q + k) (blob_serialize vb small))) s = Some (Ok (), s') \<and>
    sw_policy s' = Some (logged_slot now base (\<lambda>m n. (b_with_capacity ops n, m)) q'
      (log @ [\<lparr>ri_reason = MessageCount, ri_last_message_size = length (enc small), ri_capacity_before = n,
               ri_capacity_after = base\<rparr>]) m)"
proof -
  let ?mk = "\<lambda>m n. (b_with_capacity ops n, m)" and ?small = "blob_serialize vb small" and ?w = "aw_messages_to_wait q"
  from write_large [OF g s q(1,4) l] obtain s1 q1 where
    one: "writer_write ops (blob_serialize vb large) s = Some (Ok (), s1)" "length (enc large) \<le> cap (sw_builder s1)"
    "sw_framer s1 = fr" "open_sink (sw_writer s1)" "sw_policy s1 = Some (logged_slot now base ?mk q1 log m)" and
    q1: "aw_cooldown q1 = None" "aw_messages_since_over q1 = 0" "aw_messages_to_wait q1 = ?w"
    "aw_size_ratio_threshold q1 = aw_size_ratio_threshold q" by blast
  have "list_all2 (grown ops (length (enc large)) (\<lambda>b. length (enc large) \<le> cap b)) (replicate ?w ?small) (replicate ?w (enc small))"
    using growing_grown [OF g, of small "length (enc large)"] d(3) l(2) by (simp add: list_all2_conv_all_nth)
  from write_burst [OF this one(2-5) q1(1) _ l(2)] q q1 d obtain s2 q2 n where
    two: "write_items ops (replicate ?w ?small) s1 = Some (Ok (), s2)" and
    s2f: "sw_framer s2 = fr" "open_sink (sw_writer s2)" and two': "sw_builder s2 = b_with_capacity ops base"
    "sw_policy s2 = Some (logged_slot now base ?mk q2
      (log @ [\<lparr>ri_reason = MessageCount, ri_last_message_size = length (last (replicate ?w (enc small))),
               ri_capacity_before = n, ri_capacity_after = base\<rparr>]) m)"
    by (auto simp: list_all_length)
  have "cap (sw_builder s2) = base" using two'(1) g by (simp add: growing_vectors_def)
  from writes_under_baseline [OF g d(3,1) this s2f two'(2)] obtain s3 where
    "write_items ops (replicate k ?small) s2 = Some (Ok (), s3)" "sw_policy s3 = sw_policy s2" by blast
  with one(1) two two' q(2) show ?thesis
    by (intro exI [of _ s3] exI [of _ q2] exI [of _ n])
      (simp add: bindp_Ok replicate_add write_items_append)
qed

end

text \<open>The run of the example ends well, with one reclamation in its log.\<close>

lemma adaptive_example_reclaims_once:
  fixes large small :: bytes
  defines "large \<equiv> replicate (1024 * 1024) 0" and "small \<equiv> replicate 100 0"
  assumes "reliable_sink wr written wpatience open_sink" and "open_sink sink" and g: "growing_vectors ops vb cap enc"
    and l: "16 * 1024 < length (enc large)" "length (enc large) \<le> u32_max"
    and d: "enc small \<noteq> []" "length (enc small) \<le> 16 * 1024" "4 * length (enc small) \<le> length (enc large)"
  shows "\<exists>s' q' n. adaptive_policy_main ops vb m wr sink = Some (Ok (), s') \<and>
    sw_policy s' = Some (logged_slot monotonic_clock_now (16 * 1024) (\<lambda>m n. (b_with_capacity ops n, m)) q'
      [\<lparr>ri_reason = MessageCount, ri_last_message_size = length (enc small), ri_capacity_before = n,
        ri_capacity_after = 16 * 1024\<rparr>] ())"
proof -
  let ?q = "adaptive_with_baseline (adaptive_new 4 10 m) (16 * 1024)"
  let ?s = "writer_with_memory_policy ops (writer_new ops sink (DefaultFramer wr) ())
    (LoggingPolicy (AdaptiveWatermarkPolicy monotonic_clock_now)) (?q, [])"
  have q: "aw_cooldown ?q = None" "aw_messages_to_wait ?q = 10" "aw_size_ratio_threshold ?q = 4"
    "aw_baseline_capacity ?q = 16 * 1024"
    by (simp_all add: adaptive_with_baseline_def adaptive_new_def adaptive_with_clock_def)
  have pol: "sw_policy ?s = Some (logged_slot monotonic_clock_now (16 * 1024) (\<lambda>m n. (b_with_capacity ops n, m)) ?q [] ())"
    by (simp add: writer_with_memory_policy_def logged_slot_def LoggingPolicy_def AdaptiveWatermarkPolicy_def
        adaptive_with_baseline_def)
  have s: "cap (sw_builder ?s) < length (enc large)" "sw_framer ?s = DefaultFramer wr" "open_sink (sw_writer ?s)"
    using g l(1) assms(4) by (auto simp: writer_with_memory_policy_def writer_new_def growing_vectors_def)
  have lib: "library_framer wr (\<lambda>_. []) (\<lambda>p. length p \<le> u32_max) (DefaultFramer wr)" by (rule plain_framer)
  have "adaptive_policy_main ops vb m wr sink = bindp (writer_write ops (blob_serialize vb large))
      (\<lambda>_. write_items ops (replicate (aw_messages_to_wait ?q + 5) (blob_serialize vb small))) ?s"
    by (simp only: adaptive_policy_main_def Let_def large_def small_def q) simp
  moreover have "2 * length (enc large) < usize_saturating_mul (length (enc large)) (aw_size_ratio_threshold ?q)"
    unfolding q usize_saturating_mul_def usize_max_def using l by (auto simp: u32_max_def)
  moreover have "usize_saturating_mul (length (enc small)) (aw_size_ratio_threshold ?q) \<le> length (enc large)"
    unfolding q usize_saturating_mul_def using d(3) by simp
  moreover have "length (enc small) \<le> u32_max" using d(2) by (simp add: u32_max_def)
  moreover note exact_frame_writer.burst_then_quiet [OF library_framer_exact [OF lib assms(3)] g s pol q(1),
      of small 5, unfolded q(2)]
  ultimately show ?thesis using l d unfolding q(2) append_Nil by simp
qed

section \<open>Properties\<close>

text \<open>C11: A burst is followed by exactly one reclamation: if the builder has grown to at least \<open>room\<close> bytes
  and the messages are so small that this is overprovisioned, the write that completes the configured run
  of them, and none before it, replaces the builder by the factory's at the baseline and reports it once.\<close>

theorem burst_is_reclaimed_once:
  assumes "library_framer wr field accept (sw_framer s)" and "reliable_sink wr written wpatience open_sink"
    and "open_sink (sw_writer s)" and "sw_policy s = Some (logged_slot now base mk q log m)"
    and "list_all2 (grown ops room roomy) items ps" and "roomy (sw_builder s)" and "base < room"
    and "aw_cooldown q = None" and "aw_messages_to_wait q \<le> u32_max"
    and "list_all (\<lambda>p. accept p \<and> p \<noteq> [] \<and> usize_saturating_mul (length p) (aw_size_ratio_threshold q) \<le> room) ps"
    and "items \<noteq> []" and "aw_messages_since_over q + length items = aw_messages_to_wait q"
  shows "\<exists>s' q' n. write_items ops items s = Some (Ok (), s') \<and>
    written (sw_writer s') = written (sw_writer s) @ encode_stream field ps \<and> room \<le> n \<and>
    aw_messages_since_over q' = 0 \<and> sw_builder s' = fst (mk m base) \<and>
    sw_policy s' = Some (logged_slot now base mk q'
      (log @ [\<lparr>ri_reason = MessageCount, ri_last_message_size = length (last ps), ri_capacity_before = n,
               ri_capacity_after = base\<rparr>]) (snd (mk m base)))"
  using exact_frame_writer.write_burst [OF library_framer_exact [OF assms(1,2)] assms(5,6) refl assms(3,4,8,9,7,10-12)]
  by blast

theorem burst_is_reclaimed_once_witness:
  "\<exists>s' n. write_items sample_builder [sample_item [1], sample_item [2]]
      ((writer_new sample_builder [] (DefaultFramer vec_write) ())\<lparr>sw_builder := (64, None),
         sw_policy := Some (logged_slot (\<lambda>c. (0, c)) 8 (\<lambda>m n. ((n, None), m)) (adaptive_with_clock 4 2 ()) [] ())\<rparr>)
      = Some (Ok (), s') \<and> sw_builder s' = (8, None) \<and> 64 \<le> n \<and>
     (\<exists>q'. sw_policy s' = Some (logged_slot (\<lambda>c. (0, c)) 8 (\<lambda>m n. ((n, None), m)) q'
        [\<lparr>ri_reason = MessageCount, ri_last_message_size = 1, ri_capacity_before = n, ri_capacity_after = 8\<rparr>] ()))"
proof -
  let ?q = "adaptive_with_clock 4 2 ()" and ?mk = "\<lambda>m n. ((n, None), m)"
  let ?s = "(writer_new sample_builder [] (DefaultFramer vec_write) ())\<lparr>sw_builder := (64, None),
    sw_policy := Some (logged_slot (\<lambda>c. (0, c)) 8 ?mk ?q [] ())\<rparr>"
  have lib: "library_framer vec_write (\<lambda>_. []) (\<lambda>p. length p \<le> u32_max) (sw_framer ?s)"
    by (simp add: writer_new_def plain_framer)
  have items: "list_all2 (grown sample_builder 64 (\<lambda>b. 64 \<le> fst b)) [sample_item [1], sample_item [2]] [[1], [2]]"
    by (simp add: grown_def sample_item_def sample_builder_def)
  have pol: "sw_policy ?s = Some (logged_slot (\<lambda>c. (0, c)) 8 ?mk ?q [] ())" by simp
  from burst_is_reclaimed_once [OF lib vec_sink.reliable_sink_axioms TrueI pol items]
  show ?thesis
    by (auto simp: adaptive_with_clock_def u32_max_def usize_saturating_mul_def usize_max_def)
qed

end
