(* ===== verification/FS_Demos.thy ===== *)
theory FS_Demos
  imports FS_Examples FS_Unit_Tests
begin

text \<open>
  Clients of the crate under \<^verbatim>\<open>examples/\<close> that check themselves: \<^verbatim>\<open>sized_checksums_example.rs\<close>,
  \<^verbatim>\<open>bounded_adapters_example.rs\<close>, \<^verbatim>\<open>multiple_builders_example.rs\<close> and \<^verbatim>\<open>typed_reading_example.rs\<close>.
  A failing assertion, and an \<^verbatim>\<open>unwrap\<close> of the wrong case, is the outcome \<open>Panic\<close>. What they print
  is not modelled. The calls of the FlatBuffers builder are arguments.
\<close>

section \<open>Shared\<close>

definition cursor_flush :: "cursor flush_op" where
  "cursor_flush c = (Ok (), c)"

definition assert_that :: "bool \<Rightarrow> ('s, 'e, unit) prog" where
  "assert_that b = (if b then ret () else panic)"

text \<open>
  A demonstration is a sequence of fallible steps, each of which may not return. What a run on a writer
  leaves in the vector under its cursor, and what a loop over a reader makes of the state of its closure:
\<close>

definition demo_bind :: "('e, 'a) outcome option \<Rightarrow> ('a \<Rightarrow> ('e, 'b) outcome option) \<Rightarrow> ('e, 'b) outcome option" where
  "demo_bind x f =
     (case x of None \<Rightarrow> None | Some (Ok a) \<Rightarrow> f a | Some (Err e) \<Rightarrow> Some (Err e) | Some Panic \<Rightarrow> Some Panic)"

lemma demo_bind_simps [simp]:
  "demo_bind (Some (Ok a)) f = f a" "demo_bind (Some (Err e)) f = Some (Err e)" "demo_bind (Some Panic) f = Some Panic"
  by (simp_all add: demo_bind_def)

definition assert_then :: "bool \<Rightarrow> ('e, 'a) outcome option \<Rightarrow> ('e, 'a) outcome option" where
  "assert_then b x = (if b then x else Some Panic)"

definition run_writer :: "((cursor, unit, 'b, unit, unit) stream_writer, error, 'a) prog \<Rightarrow>
    (cursor, unit, 'b, unit, unit) stream_writer \<Rightarrow> (error, 'a \<times> bytes) outcome option" where
  "run_writer m w = map_option (\<lambda>(out, w'). map_ok (\<lambda>a. (a, cursor_data (sw_writer w'))) out) (m w)"

definition run_reader :: "(bytes \<Rightarrow> ('u, error, unit) prog) \<Rightarrow> (cursor, unit) deframer \<Rightarrow> bytes \<Rightarrow> 'u \<Rightarrow>
    (error, 'u) outcome option" where
  "run_reader f dfr wire u =
     map_option (\<lambda>(out, s, u'). map_ok (\<lambda>_. u') out) (process_all f (test_reader wire dfr, u))"

definition count_frames :: "bytes \<Rightarrow> (nat, error, unit) prog" where
  "count_frames payload frames = Some (Ok (), frames + 1)"

section \<open>Sized checksums\<close>

definition SIZES :: "nat list" where
  "SIZES = [16, 1024, 64 * 1024]"

text \<open>The payload of a blob in a builder of its own.\<close>

definition blob_payload :: "'b builder_ops \<Rightarrow> ('b, 'offset) vector_builder \<Rightarrow> bytes \<Rightarrow> bytes option" where
  "blob_payload ops vb data =
     (let (off, b1) = fst vb data (b_new ops) in b_finished_data ops (snd vb off b1))"

fun write_sizes :: "'b builder_ops \<Rightarrow> ('b, 'offset) vector_builder \<Rightarrow> nat list \<Rightarrow> nat list \<Rightarrow>
    ((cursor, unit, 'b, unit, unit) stream_writer, error, nat list) prog" where
  "write_sizes ops vb [] payload_lens = bindp (writer_flush cursor_flush) (\<lambda>_. ret payload_lens)"
| "write_sizes ops vb (n # sizes) payload_lens =
     (let data = replicate n 0xA5
      in case blob_payload ops vb data of
           None \<Rightarrow> panic
         | Some payload \<Rightarrow>
             bindp (writer_write ops (blob_serialize vb data)) (\<lambda>_.
             write_sizes ops vb sizes (payload_lens @ [length payload])))"

definition overhead_per_frame :: "bytes \<Rightarrow> nat list \<Rightarrow> nat" where
  "overhead_per_frame wire payload_lens = (length wire - sum_list payload_lens) div length SIZES"

definition measure_overhead :: "nat \<Rightarrow> 'b builder_ops \<Rightarrow> ('b, 'offset) vector_builder \<Rightarrow> checksum \<Rightarrow>
    (error, nat) outcome option" where
  "measure_overhead fb_max ops vb alg =
     (case (checksum_framer_new alg, checksum_deframer_new fb_max alg) of
        (Some framer_alg, Some d) \<Rightarrow>
          demo_bind (run_writer (write_sizes ops vb SIZES [])
              (writer_new ops (cursor_new []) (ChecksumFramer framer_alg cursor_write) ())) (\<lambda>(payload_lens, wire).
          demo_bind (run_reader count_frames (ChecksumDeframer cursor_read d) wire 0) (\<lambda>frames.
          assert_then (frames = length SIZES \<and> sum_list payload_lens \<le> length wire)
         (assert_then (overhead_per_frame wire payload_lens = 4 + cs_SIZE alg)
         (Some (Ok (overhead_per_frame wire payload_lens))))))
      | _ \<Rightarrow> Some Panic)"

definition baseline_overhead :: "'b builder_ops \<Rightarrow> ('b, 'offset) vector_builder \<Rightarrow> (error, nat) outcome option" where
  "baseline_overhead ops vb =
     demo_bind (run_writer (write_sizes ops vb SIZES []) (writer_new ops (cursor_new []) (DefaultFramer cursor_write) ()))
       (\<lambda>(payload_lens, wire).
     assert_then (sum_list payload_lens \<le> length wire)
    (assert_then (overhead_per_frame wire payload_lens = 4)
    (Some (Ok (overhead_per_frame wire payload_lens)))))"

section \<open>Bounds\<close>

definition hello_writer :: "'b builder_ops \<Rightarrow> (cursor, unit) framer \<Rightarrow> bytes \<Rightarrow>
    (cursor, unit, 'b, unit, unit) stream_writer" where
  "hello_writer ops framer bytes = writer_new ops (cursor_new bytes) framer ()"

definition write_hello :: "'b builder_ops \<Rightarrow> ('b, 'offset) string_builder \<Rightarrow>
    ((cursor, unit, 'b, unit, unit) stream_writer, error, unit) prog" where
  "write_hello ops sb = writer_write ops (str_serialize (fst sb) (snd sb) ''hello'')"

definition write_under_limit :: "'b builder_ops \<Rightarrow> ('b, 'offset) string_builder \<Rightarrow> bytes \<Rightarrow> (error, bytes) outcome option" where
  "write_under_limit ops sb bytes =
     demo_bind (run_writer (bindp (write_hello ops sb) (\<lambda>_. writer_flush cursor_flush))
       (hello_writer ops (BoundedFramer (DefaultFramer cursor_write) 64) bytes)) (\<lambda>(_, wire). Some (Ok wire))"

text \<open>\<^verbatim>\<open>unwrap_err\<close>, and a match that panics on every other kind.\<close>

definition expect_invalid_frame :: "(error, 'a) outcome option \<Rightarrow> (error, unit) outcome option" where
  "expect_invalid_frame x =
     map_option (\<lambda>out. case out of
        Err err \<Rightarrow> (case into_kind err of InvalidFrame _ _ _ _ \<Rightarrow> Ok () | _ \<Rightarrow> Panic)
      | _ \<Rightarrow> Panic) x"

definition write_over_limit_should_fail :: "'b builder_ops \<Rightarrow> ('b, 'offset) string_builder \<Rightarrow> bytes \<Rightarrow>
    (error, unit) outcome option" where
  "write_over_limit_should_fail ops sb bytes =
     expect_invalid_frame (run_writer (write_hello ops sb)
       (hello_writer ops (framer_bounded (DefaultFramer cursor_write) 4) bytes))"

definition sum_lengths :: "bytes \<Rightarrow> (nat, error, unit) prog" where
  "sum_lengths payload seen = Some (Ok (), seen + length payload)"

definition round_trip_with_tight_bound :: "nat \<Rightarrow> bytes \<Rightarrow> (error, nat) outcome option" where
  "round_trip_with_tight_bound fb_max bytes =
     run_reader sum_lengths
       (DefaultDeframer cursor_read (default_with_max_frame_len (default_deframer_new fb_max) 64)) bytes 0"

definition read_over_limit_should_fail :: "nat \<Rightarrow> bytes \<Rightarrow> (error, unit) outcome option" where
  "read_over_limit_should_fail fb_max bytes =
     expect_invalid_frame (run_reader (\<lambda>_ u. Some (Ok (), u))
       (DefaultDeframer cursor_read (default_with_max_frame_len (default_deframer_new fb_max) 4)) bytes ())"

definition bounded_adapters_main :: "nat \<Rightarrow> 'b builder_ops \<Rightarrow> ('b, 'offset) string_builder \<Rightarrow>
    (error, unit) outcome option" where
  "bounded_adapters_main fb_max ops sb =
     demo_bind (write_under_limit ops sb []) (\<lambda>bytes.
     demo_bind (round_trip_with_tight_bound fb_max bytes) (\<lambda>_.
     demo_bind (write_over_limit_should_fail ops sb []) (\<lambda>_.
     read_over_limit_should_fail fb_max bytes)))"

section \<open>A builder for each kind of message\<close>

record control_message =
  cm_command :: string
  cm_timestamp :: u64

record 'f telemetry_batch =
  tb_device_id :: string
  tb_readings :: "'f list"

record file_chunk =
  fc_file_id :: string
  fc_chunk_number :: u32
  fc_data :: bytes

datatype 'f message = Control control_message | Telemetry "'f telemetry_batch" | FileTransfer file_chunk

text \<open>The builder's calls, with one type of offset.\<close>

record ('b, 'f, 'offset) fb_calls =
  fb_create_string :: "string \<Rightarrow> 'b \<Rightarrow> 'offset \<times> 'b"
  fb_create_readings :: "'f list \<Rightarrow> 'b \<Rightarrow> 'offset \<times> 'b"
  fb_create_bytes :: "bytes \<Rightarrow> 'b \<Rightarrow> 'offset \<times> 'b"
  fb_finish :: "'offset \<Rightarrow> 'b \<Rightarrow> 'b"

definition control_serialize :: "('b, 'f, 'offset) fb_calls \<Rightarrow> control_message \<Rightarrow> 'b serialize" where
  "control_serialize calls msg b =
     (let (cmd, b1) = fb_create_string calls (cm_command msg) b in Some (Ok (), fb_finish calls cmd b1))"

definition telemetry_serialize :: "('b, 'f, 'offset) fb_calls \<Rightarrow> 'f telemetry_batch \<Rightarrow> 'b serialize" where
  "telemetry_serialize calls msg b =
     (let (_, b1) = fb_create_string calls (tb_device_id msg) b;
          (readings, b2) = fb_create_readings calls (tb_readings msg) b1
      in Some (Ok (), fb_finish calls readings b2))"

definition file_chunk_serialize :: "('b, 'f, 'offset) fb_calls \<Rightarrow> file_chunk \<Rightarrow> 'b serialize" where
  "file_chunk_serialize calls msg b =
     (let (_, b1) = fb_create_string calls (fc_file_id msg) b;
          (data, b2) = fb_create_bytes calls (fc_data msg) b1
      in Some (Ok (), fb_finish calls data b2))"

record 'b builders =
  control_builder :: 'b
  telemetry_builder :: 'b
  file_builder :: 'b

text \<open>\<^verbatim>\<open>builder.reset(); msg.serialize(&mut builder)?; writer.write_finished(&mut builder)?\<close>.\<close>

definition serialize_and_write :: "'b builder_ops \<Rightarrow> 'b serialize \<Rightarrow> 'b \<Rightarrow>
    (cursor, unit, 'b, unit, unit) stream_writer \<Rightarrow>
    ((error, unit) outcome \<times> 'b \<times> (cursor, unit, 'b, unit, unit) stream_writer) option" where
  "serialize_and_write ops item b w =
     (case item (b_reset ops b) of
        None \<Rightarrow> None
      | Some (Err e, b') \<Rightarrow> Some (Err e, b', w)
      | Some (Panic, b') \<Rightarrow> Some (Panic, b', w)
      | Some (Ok _, b') \<Rightarrow> map_option (\<lambda>(out, w'). (out, b', w')) (write_finished ops b' w))"

fun write_message :: "'b builder_ops \<Rightarrow> ('b, 'f, 'offset) fb_calls \<Rightarrow> 'f message \<Rightarrow>
    ('b builders \<times> (cursor, unit, 'b, unit, unit) stream_writer, error, unit) prog" where
  "write_message ops calls (Control msg) (bs, w) =
     map_option (\<lambda>(out, b, w'). (out, bs\<lparr>control_builder := b\<rparr>, w'))
       (serialize_and_write ops (control_serialize calls msg) (control_builder bs) w)"
| "write_message ops calls (Telemetry msg) (bs, w) =
     map_option (\<lambda>(out, b, w'). (out, bs\<lparr>telemetry_builder := b\<rparr>, w'))
       (serialize_and_write ops (telemetry_serialize calls msg) (telemetry_builder bs) w)"
| "write_message ops calls (FileTransfer msg) (bs, w) =
     map_option (\<lambda>(out, b, w'). (out, bs\<lparr>file_builder := b\<rparr>, w'))
       (serialize_and_write ops (file_chunk_serialize calls msg) (file_builder bs) w)"

fun write_messages :: "'b builder_ops \<Rightarrow> ('b, 'f, 'offset) fb_calls \<Rightarrow> 'f message list \<Rightarrow>
    ('b builders \<times> (cursor, unit, 'b, unit, unit) stream_writer, error, unit) prog" where
  "write_messages ops calls [] = (\<lambda>(bs, w). map_option (\<lambda>(out, w'). (out, bs, w')) (writer_flush cursor_flush w))"
| "write_messages ops calls (msg # messages) =
     bindp (write_message ops calls msg) (\<lambda>_. write_messages ops calls messages)"

text \<open>The wire, and the self-check of the example; the workload is an argument.\<close>

definition multiple_builders_wire :: "'b builder_ops \<Rightarrow> ('b, 'f, 'offset) fb_calls \<Rightarrow> 'f message list \<Rightarrow>
    (error, bytes) outcome option" where
  "multiple_builders_wire ops calls messages =
     map_option (\<lambda>(out, _, w). map_ok (\<lambda>_. cursor_data (writer_into_inner w)) out)
       (write_messages ops calls messages
         (\<lparr>control_builder = b_new ops, telemetry_builder = b_new ops, file_builder = b_new ops\<rparr>,
          writer_new ops (cursor_new []) (DefaultFramer cursor_write) ()))"

definition multiple_builders_main :: "nat \<Rightarrow> 'b builder_ops \<Rightarrow> ('b, 'f, 'offset) fb_calls \<Rightarrow> 'f message list \<Rightarrow>
    (error, unit) outcome option" where
  "multiple_builders_main fb_max ops calls messages =
     demo_bind (multiple_builders_wire ops calls messages) (\<lambda>out.
     demo_bind (run_reader count_frames (DefaultDeframer cursor_read (default_deframer_new fb_max)) out 0) (\<lambda>frame_count.
     assert_then (frame_count = length messages) (Some (Ok ()))))"

section \<open>Typed reading\<close>

text \<open>\<^verbatim>\<open>StrRoot::from_payload\<close> over the root function of the other crate.\<close>

definition str_root_from_payload :: "(bytes \<Rightarrow> (string, string) outcome) \<Rightarrow> string from_payload" where
  "str_root_from_payload root payload = map_err error_of_flatbuffer (root payload)"

fun write_numbered :: "'b builder_ops \<Rightarrow> ('b, 'offset) string_builder \<Rightarrow> nat list \<Rightarrow> 'b \<Rightarrow>
    ((cursor, unit, 'b, unit, unit) stream_writer, error, unit) prog" where
  "write_numbered ops sb [] builder = ret ()"
| "write_numbered ops sb (i # is) builder =
     (let builder' = string_root ops sb (''msg-'' @ dec i) builder
      in bindp (write_finished ops builder') (\<lambda>_. write_numbered ops sb is builder'))"

definition push_root :: "string \<Rightarrow> (string list, error, unit) prog" where
  "push_root root messages = Some (Ok (), messages @ [root])"

definition typed_reading_main :: "nat \<Rightarrow> 'b builder_ops \<Rightarrow> ('b, 'offset) string_builder \<Rightarrow>
    (bytes \<Rightarrow> (string, string) outcome) \<Rightarrow> (error, unit) outcome option" where
  "typed_reading_main fb_max ops sb root =
     demo_bind (run_writer (write_numbered ops sb [0, 1, 2] (b_new ops))
       (writer_new ops (cursor_new []) (DefaultFramer cursor_write) ())) (\<lambda>(_, storage).
     demo_bind (map_option (\<lambda>(out, s, messages). map_ok (\<lambda>_. messages) out)
       (process_typed (str_root_from_payload root) push_root
         (test_reader storage (DefaultDeframer cursor_read (default_deframer_new fb_max)), []))) (\<lambda>messages.
     assert_then (messages = [''msg-0'', ''msg-1'', ''msg-2'']) (Some (Ok ()))))"

section \<open>What they rely on\<close>

text \<open>
  Blobs finish as the payload \<open>enc\<close> in a new or reset builder, whatever it was used for.
\<close>

definition vector_roots :: "'b builder_ops \<Rightarrow> ('b, 'offset) vector_builder \<Rightarrow> (bytes \<Rightarrow> bytes) \<Rightarrow> bool" where
  "vector_roots ops vb enc \<longleftrightarrow> (\<forall>data b.
     (let (off, b1) = fst vb data (b_reset ops b) in
        b_finished_data ops (snd vb off b1) = Some (enc data) \<and> b_mut_finished_buffer ops (snd vb off b1) \<noteq> None) \<and>
     blob_payload ops vb data = Some (enc data))"

lemma blob_encodes:
  assumes "vector_roots ops vb enc"
  shows "encodes ops (\<lambda>_. True) (blob_serialize vb data) (enc data)"
  using assms by (auto simp: encodes_def blob_serialize_def vector_roots_def split_beta Let_def)

lemma string_encodes:
  assumes "string_roots ops sb enc"
  shows "encodes ops (\<lambda>_. True) (str_serialize (fst sb) (snd sb) s) (enc s)"
  using assms by (auto simp: encodes_def str_serialize_def string_roots_def string_root_def split_beta Let_def)

lemma length_stream: "length (encode_stream field ps) = sum_list (map (\<lambda>p. length (encode_frame field p)) ps)"
  by (induction ps) auto

lemma writer_flush_cursor [simp]: "writer_flush cursor_flush w = Some (Ok (), w)"
  by (simp add: writer_flush_def cursor_flush_def)

lemma write_at_end:
  assumes "library_framer cursor_write field accept (sw_framer w)" and "encodes ops (\<lambda>_. True) item p"
    and "cursor_pos (sw_writer w) = length (cursor_data (sw_writer w))" and "sw_policy w = None"
  shows "\<exists>out w'. writer_write ops item w = Some (out, w') \<and> sw_framer w' = sw_framer w \<and> sw_policy w' = None \<and>
    (if accept p
     then out = Ok () \<and> cursor_pos (sw_writer w') = length (cursor_data (sw_writer w')) \<and>
       cursor_data (sw_writer w') = cursor_data (sw_writer w) @ encode_frame field p
     else (\<exists>e. out = Err e) \<and> sw_writer w' = sw_writer w)"
proof -
  have "writer_ok (\<lambda>_. True) w" by (simp add: writer_ok_def)
  from exact_frame_writer.writer_write_exact [OF library_framer_exact [OF assms(1) cursor_sink.reliable_sink_axioms]
      this assms(2) refl assms(3)] obtain out w' where w': "writer_write ops item w = Some (out, w')"
    "sw_framer w' = sw_framer w" "if accept p
     then out = Ok () \<and> cursor_pos (sw_writer w') = length (cursor_data (sw_writer w')) \<and>
       cursor_data (sw_writer w') = cursor_data (sw_writer w) @ encode_frame field p
     else (\<exists>e. out = Err e) \<and> sw_writer w' = sw_writer w" by blast
  moreover from w'(1) assms(4) have "sw_policy w' = None"
    by (auto simp: writer_write_def Let_def bindp_def dest: frame_and_write_keeps(2)
        split: option.splits prod.splits outcome.splits)
  ultimately show ?thesis by blast
qed

lemma write_sizes_exact:
  assumes "library_framer cursor_write field accept (sw_framer w)" and "vector_roots ops vb enc"
    and "\<forall>n \<in> set sizes. accept (enc (replicate n 0xA5))"
    and "cursor_pos (sw_writer w) = length (cursor_data (sw_writer w))" and "sw_policy w = None"
  shows "\<exists>w'. write_sizes ops vb sizes lens w =
      Some (Ok (lens @ map (\<lambda>n. length (enc (replicate n 0xA5))) sizes), w') \<and>
    cursor_data (sw_writer w') = cursor_data (sw_writer w) @ encode_stream field (map (\<lambda>n. enc (replicate n 0xA5)) sizes)"
  using assms(1,3,4,5)
proof (induction sizes arbitrary: lens w)
  case Nil
  then show ?case by (simp add: prog_simps)
next
  case (Cons n sizes)
  have data: "blob_payload ops vb (replicate n 0xA5) = Some (enc (replicate n 0xA5))"
    using assms(2) by (simp add: vector_roots_def)
  from write_at_end [OF Cons.prems(1) blob_encodes [OF assms(2), of "replicate n 0xA5"] Cons.prems(3,4)] Cons.prems(2)
  obtain w1 where w1: "writer_write ops (blob_serialize vb (replicate n 0xA5)) w = Some (Ok (), w1)"
    "sw_framer w1 = sw_framer w" "sw_policy w1 = None" "cursor_pos (sw_writer w1) = length (cursor_data (sw_writer w1))"
    "cursor_data (sw_writer w1) = cursor_data (sw_writer w) @ encode_frame field (enc (replicate n 0xA5))" by auto
  from Cons.IH [of w1 "lens @ [length (enc (replicate n 0xA5))]"] Cons.prems(1,2) w1 data show ?case
    by (auto simp: prog_simps Let_def)
qed

text \<open>A reader of the format sees the payloads.\<close>

lemma run_reader_frames:
  assumes "library_deframer cursor_read fmt dfr" and "speaks field fmt ok" and "list_all (\<lambda>p. fits fmt p \<and> ok p) ps"
    and "feed f ps u = Some (Ok (), left, u')"
  shows "run_reader f dfr (encode_stream field ps) u = Some (Ok u')"
proof -
  have scanned: "scan fmt (encode_stream field ps) = (ps, Clean)"
    using wire_codec.scan_encode [OF speaks_wire_codec [OF assms(2)] assms(3), of "[]"] by simp
  from frame_reader.process_all_scan [OF library_deframer_contract [OF assms(1) cursor_source.reliable_source_axioms]
      test_reader_simps(1) TrueI, of f "encode_stream field ps" u] scanned assms(4)
  show ?thesis by (auto simp: processed_def run_reader_def)
qed

lemma feed_count: "feed count_frames ps k = Some (Ok (), [], k + length ps)"
  by (induction ps arbitrary: k) (auto simp: count_frames_def)

lemma feed_sum: "feed sum_lengths ps k = Some (Ok (), [], k + sum_list (map length ps))"
  by (induction ps arbitrary: k) (auto simp: sum_lengths_def)

section \<open>Sized checksums: what is measured\<close>

lemma overhead_exact:
  assumes "\<And>p. length (encode_frame field p) = k + length p"
  shows "sum_list (map (\<lambda>n. length (g n)) SIZES) \<le> length (encode_stream field (map g SIZES)) \<and>
    overhead_per_frame (encode_stream field (map g SIZES)) (map (\<lambda>n. length (g n)) SIZES) = k"
  using assms by (simp add: SIZES_def overhead_per_frame_def)

lemma baseline_overhead_measured:
  assumes "vector_roots ops vb enc" and "\<forall>n \<in> set SIZES. length (enc (replicate n 0xA5)) \<le> u32_max"
  shows "baseline_overhead ops vb = Some (Ok 4)"
proof -
  let ?w = "writer_new ops (cursor_new []) (DefaultFramer cursor_write) ()"
  have lib: "library_framer cursor_write (\<lambda>_. []) (\<lambda>p. length p \<le> u32_max) (sw_framer ?w)"
    by (simp add: writer_new_def plain_framer)
  from write_sizes_exact [OF lib assms, of "[]"] obtain w' where
    "write_sizes ops vb SIZES [] ?w = Some (Ok (map (\<lambda>n. length (enc (replicate n 0xA5))) SIZES), w')"
    "cursor_data (sw_writer w') = encode_stream (\<lambda>_. []) (map (\<lambda>n. enc (replicate n 0xA5)) SIZES)"
    by (auto simp: writer_new_def cursor_new_def)
  moreover have "length (encode_frame (\<lambda>_. []) p) = 4 + length p" for p :: bytes
    by (simp add: encode_frame_def)
  note overhead_exact [OF this, of "\<lambda>n. enc (replicate n 0xA5)"]
  ultimately show ?thesis
    by (simp add: baseline_overhead_def run_writer_def assert_then_def)
qed

section \<open>Bounds: what is rejected\<close>

lemma expect_invalid_frame_simps [simp]:
  "expect_invalid_frame (Some (Err (invalid_frame_with msg len cap lim))) = Some (Ok ())"
  by (simp add: expect_invalid_frame_def into_kind_def error_defs)

lemma overlong_frame:
  assumes "limit < length p" and "length p \<le> u32_max"
  shows "\<exists>msg len cap lim. next_frame (plain_format limit) (encode_frame (\<lambda>_. []) p @ rest) = Bad (invalid_frame_with msg len cap lim)"
proof -
  have "declared_len (encode_frame (\<lambda>_. []) p @ rest) = length p"
    by (rule wire_codec.declared_len_encode [OF speaks_wire_codec [OF speaks_plain] assms(2)])
  then show ?thesis using assms by (auto simp: next_frame_def plain_format_def frame_too_long_def Let_def)
      (auto simp: encode_frame_def)
qed

lemma write_hello_exact:
  assumes "library_framer cursor_write field accept fr" and "string_roots ops sb enc" and "accept (enc ''hello'')"
  shows "\<exists>w'. write_hello ops sb (hello_writer ops fr []) = Some (Ok (), w') \<and>
    cursor_data (sw_writer w') = encode_stream field [enc ''hello'']"
  using write_at_end [of field accept "hello_writer ops fr []" ops, OF _ string_encodes [OF assms(2)], of "''hello''"] assms(1,3)
  by (auto simp: hello_writer_def writer_new_def cursor_new_def write_hello_def)

lemma write_hello_rejected:
  assumes "string_roots ops sb enc" and "limit < length (enc ''hello'')"
  shows "expect_invalid_frame (run_writer (write_hello ops sb)
     (hello_writer ops (framer_bounded (DefaultFramer cursor_write) limit) [])) = Some (Ok ())"
proof -
  from string_encodes [OF assms(1), of "''hello''"] obtain b' n where
    "str_serialize (fst sb) (snd sb) ''hello'' (b_reset ops (b_new ops)) = Some (Ok (), b')"
    "b_finished_data ops b' = Some (enc ''hello'')" by (auto simp: encodes_def)
  with assms(2) show ?thesis
    by (simp add: write_hello_def hello_writer_def writer_new_def writer_write_def frame_and_write_def
        framer_bounded_def BoundedFramer_def prog_simps run_writer_def)
qed

lemma bounded_adapters_succeed:
  assumes "string_roots ops sb enc" and "4 < length (enc ''hello'')" and "length (enc ''hello'') \<le> 64"
  shows "bounded_adapters_main fb_max ops sb = Some (Ok ())"
proof -
  let ?p = "enc ''hello''" and ?plain = "\<lambda>_ :: bytes. [] :: bytes"
  let ?d = "\<lambda>n. DefaultDeframer cursor_read (default_with_max_frame_len (default_deframer_new fb_max) n)"
  have small: "length ?p \<le> u32_max" using assms(3) by (simp add: u32_max_def)
  have "library_framer cursor_write ?plain (\<lambda>p. length p \<le> u32_max \<and> length p \<le> 64)
      (BoundedFramer (DefaultFramer cursor_write) 64)"
    by (rule bounded_framer [OF plain_framer])
  from write_hello_exact [OF this assms(1)] small assms(3)
  have one: "write_under_limit ops sb [] = Some (Ok (encode_stream ?plain [?p]))"
    by (auto simp: write_under_limit_def run_writer_def prog_simps)
  have lib: "library_deframer cursor_read (plain_format n) (?d n)" for n
    using plain_deframer [where d = "default_with_max_frame_len (default_deframer_new fb_max) n"]
    by (simp add: default_with_max_frame_len_def)
  have two: "round_trip_with_tight_bound fb_max (encode_stream ?plain [?p]) = Some (Ok (length ?p))"
    using run_reader_frames [where ps = "[?p]" and u = 0, OF lib [of 64] speaks_plain _ feed_sum] small assms(3)
    by (simp add: round_trip_with_tight_bound_def fits_def plain_format_def)
  have three: "write_over_limit_should_fail ops sb [] = Some (Ok ())"
    unfolding write_over_limit_should_fail_def by (rule write_hello_rejected [OF assms(1,2)])
  from overlong_frame [OF assms(2) small, of "[]"] obtain msg len cap lim where
    "next_frame (plain_format 4) (encode_stream ?plain [?p]) = Bad (invalid_frame_with msg len cap lim)" by auto
  with frame_reader.process_all_scan [OF library_deframer_contract [OF lib [of 4] cursor_source.reliable_source_axioms]
      test_reader_simps(1) TrueI, of "\<lambda>_ u. Some (Ok (), u)" "encode_stream ?plain [?p]" "()"]
  have four: "read_over_limit_should_fail fb_max (encode_stream ?plain [?p]) = Some (Ok ())"
    by (auto simp: processed_def scan_Bad run_reader_def read_over_limit_should_fail_def simp del: encode_stream_simps)
  from one two three four show ?thesis by (simp add: bounded_adapters_main_def del: encode_stream_simps)
qed

section \<open>Messages of several kinds\<close>

fun message_serialize :: "('b, 'f, 'offset) fb_calls \<Rightarrow> 'f message \<Rightarrow> 'b serialize" where
  "message_serialize calls (Control msg) = control_serialize calls msg"
| "message_serialize calls (Telemetry msg) = telemetry_serialize calls msg"
| "message_serialize calls (FileTransfer msg) = file_chunk_serialize calls msg"

lemma write_finished_at_end:
  assumes "library_framer cursor_write field accept (sw_framer w)" and "b_finished_data ops b = Some p" and "accept p"
    and "cursor_pos (sw_writer w) = length (cursor_data (sw_writer w))"
  shows "\<exists>w'. write_finished ops b w = Some (Ok (), w') \<and> sw_framer w' = sw_framer w \<and>
    cursor_pos (sw_writer w') = length (cursor_data (sw_writer w')) \<and>
    cursor_data (sw_writer w') = cursor_data (sw_writer w) @ encode_frame field p"
proof -
  from write_finished_exact [OF library_framer_exact [OF assms(1) cursor_sink.reliable_sink_axioms] assms(4,2)] assms(3)
  obtain w' where w': "write_finished ops b w = Some (Ok (), w')"
    "cursor_pos (sw_writer w') = length (cursor_data (sw_writer w'))"
    "cursor_data (sw_writer w') = cursor_data (sw_writer w) @ encode_frame field p" by auto
  with write_finished_keeps(3) [OF w'(1)] show ?thesis by blast
qed

lemma serialize_and_write_exact:
  assumes "library_framer cursor_write field accept (sw_framer w)" and "encodes ops (\<lambda>_. True) item p" and "accept p"
    and "cursor_pos (sw_writer w) = length (cursor_data (sw_writer w))"
  shows "\<exists>b' w'. serialize_and_write ops item b w = Some (Ok (), b', w') \<and> sw_framer w' = sw_framer w \<and>
    cursor_pos (sw_writer w') = length (cursor_data (sw_writer w')) \<and>
    cursor_data (sw_writer w') = cursor_data (sw_writer w) @ encode_frame field p"
proof -
  from assms(2) obtain b' n where b': "item (b_reset ops b) = Some (Ok (), b')" "b_finished_data ops b' = Some p"
    unfolding encodes_def by blast
  from write_finished_at_end [OF assms(1) b'(2) assms(3,4)] obtain w' where "write_finished ops b' w = Some (Ok (), w')"
    "sw_framer w' = sw_framer w" "cursor_pos (sw_writer w') = length (cursor_data (sw_writer w'))"
    "cursor_data (sw_writer w') = cursor_data (sw_writer w) @ encode_frame field p" by blast
  with b'(1) show ?thesis
    by (intro exI [of _ b'] exI [of _ w']) (simp add: serialize_and_write_def)
qed

lemma write_messages_exact:
  assumes "library_framer cursor_write field accept (sw_framer w)"
    and "cursor_pos (sw_writer w) = length (cursor_data (sw_writer w))"
    and "list_all (\<lambda>msg. encodes ops (\<lambda>_. True) (message_serialize calls msg) (enc msg) \<and> accept (enc msg)) messages"
  shows "\<exists>bs' w'. write_messages ops calls messages (bs, w) = Some (Ok (), bs', w') \<and>
    cursor_data (sw_writer w') = cursor_data (sw_writer w) @ encode_stream field (map enc messages)"
  using assms
proof (induction messages arbitrary: bs w)
  case (Cons msg messages)
  from Cons.prems(3) have msg: "encodes ops (\<lambda>_. True) (message_serialize calls msg) (enc msg)" "accept (enc msg)" by simp_all
  have "\<exists>bs1 w1. write_message ops calls msg (bs, w) = Some (Ok (), bs1, w1) \<and> sw_framer w1 = sw_framer w \<and>
    cursor_pos (sw_writer w1) = length (cursor_data (sw_writer w1)) \<and>
    cursor_data (sw_writer w1) = cursor_data (sw_writer w) @ encode_frame field (enc msg)"
  proof (cases msg)
    case (Control m)
    with serialize_and_write_exact [OF Cons.prems(1) msg Cons.prems(2), of "control_builder bs"] show ?thesis by auto
  next
    case (Telemetry m)
    with serialize_and_write_exact [OF Cons.prems(1) msg Cons.prems(2), of "telemetry_builder bs"] show ?thesis by auto
  next
    case (FileTransfer m)
    with serialize_and_write_exact [OF Cons.prems(1) msg Cons.prems(2), of "file_builder bs"] show ?thesis by auto
  qed
  then obtain bs1 w1 where one: "write_message ops calls msg (bs, w) = Some (Ok (), bs1, w1)" "sw_framer w1 = sw_framer w"
    "cursor_pos (sw_writer w1) = length (cursor_data (sw_writer w1))"
    "cursor_data (sw_writer w1) = cursor_data (sw_writer w) @ encode_frame field (enc msg)" by blast
  with Cons.IH [of w1 bs1] Cons.prems(1,3) show ?case by (auto simp: bindp_Ok)
qed simp

lemma write_numbered_exact:
  assumes "library_framer cursor_write field accept (sw_framer w)" and "string_roots ops sb enc"
    and "list_all (\<lambda>i. accept (enc (''msg-'' @ dec i))) is"
    and "cursor_pos (sw_writer w) = length (cursor_data (sw_writer w))"
  shows "\<exists>w'. write_numbered ops sb is b w = Some (Ok (), w') \<and>
    cursor_data (sw_writer w') = cursor_data (sw_writer w) @ encode_stream field (map (\<lambda>i. enc (''msg-'' @ dec i)) is)"
  using assms(1,3,4)
proof (induction "is" arbitrary: b w)
  case Nil
  then show ?case by (simp add: prog_simps)
next
  case (Cons i "is")
  let ?b = "string_root ops sb (''msg-'' @ dec i) b"
  have "b_finished_data ops ?b = Some (enc (''msg-'' @ dec i))" using assms(2) by (simp add: string_roots_def)
  from write_finished_at_end [OF Cons.prems(1) this _ Cons.prems(3)] Cons.prems(2) obtain w1 where
    "write_finished ops ?b w = Some (Ok (), w1)" "sw_framer w1 = sw_framer w"
    "cursor_pos (sw_writer w1) = length (cursor_data (sw_writer w1))"
    "cursor_data (sw_writer w1) = cursor_data (sw_writer w) @ encode_frame field (enc (''msg-'' @ dec i))" by auto
  with Cons.IH [of w1 ?b] Cons.prems(1,2) show ?case by (auto simp: Let_def bindp_Ok)
qed

section \<open>Properties\<close>

text \<open>Builders can be mixed: whatever the kinds of the messages and however often each builder has been used,
  the wire holds one frame per message in the order of the messages, and the example's own count agrees.\<close>

lemma builders_share_one_stream:
  assumes "list_all (\<lambda>msg. encodes ops (\<lambda>_. True) (message_serialize calls msg) (enc msg) \<and> length (enc msg) \<le> fb_max) messages"
    and "fb_max \<le> u32_max"
  shows "multiple_builders_wire ops calls messages = Some (Ok (encode_stream (\<lambda>_. []) (map enc messages))) \<and>
    multiple_builders_main fb_max ops calls messages = Some (Ok ())"
proof -
  let ?bs = "\<lparr>control_builder = b_new ops, telemetry_builder = b_new ops, file_builder = b_new ops\<rparr>"
  let ?w = "writer_new ops (cursor_new []) (DefaultFramer cursor_write) ()"
  have lib: "library_framer cursor_write (\<lambda>_. []) (\<lambda>p. length p \<le> u32_max) (sw_framer ?w)"
    by (simp add: writer_new_def plain_framer)
  have enc: "list_all (\<lambda>msg. encodes ops (\<lambda>_. True) (message_serialize calls msg) (enc msg) \<and> length (enc msg) \<le> u32_max) messages"
    using assms by (auto simp: list_all_iff)
  from write_messages_exact [OF lib _ enc, of ?bs] have wire:
    "multiple_builders_wire ops calls messages = Some (Ok (encode_stream (\<lambda>_. []) (map enc messages)))"
    by (auto simp: multiple_builders_wire_def writer_new_def cursor_new_def writer_into_inner_def)
  have lib: "library_deframer cursor_read (plain_format fb_max) (DefaultDeframer cursor_read (default_deframer_new fb_max))"
    using plain_deframer [where d = "default_deframer_new fb_max"]
    by (simp add: default_deframer_new_def DEFAULT_MAX_FRAME_LEN_def)
  have "list_all (\<lambda>p. fits (plain_format fb_max) p \<and> True) (map enc messages)"
    using assms by (auto simp: list_all_iff fits_def plain_format_def)
  from wire run_reader_frames [OF lib speaks_plain this feed_count] show ?thesis
    by (simp add: multiple_builders_main_def assert_then_def)
qed

lemma builders_share_one_stream_witness:
  "multiple_builders_wire sample_builder
      \<lparr>fb_create_string = (\<lambda>s b. (map (\<lambda>c. of_char c) s, b)), fb_create_readings = (\<lambda>rs b. (rs, b)),
       fb_create_bytes = (\<lambda>bs b. (bs, b)), fb_finish = (\<lambda>off b. (fst b, Some off))\<rparr>
      [Control \<lparr>cm_command = ''GO'', cm_timestamp = 1000\<rparr>,
       FileTransfer \<lparr>fc_file_id = ''f'', fc_chunk_number = 1, fc_data = [0xAB]\<rparr>,
       Telemetry \<lparr>tb_device_id = ''s'', tb_readings = [7, 8, 9]\<rparr>] =
   Some (Ok [2, 0, 0, 0, 71, 79, 1, 0, 0, 0, 0xAB, 3, 0, 0, 0, 7, 8, 9])"
proof -
  let ?calls = "\<lparr>fb_create_string = (\<lambda>s (b :: nat \<times> bytes option). (map (\<lambda>c. of_char c) s, b)),
     fb_create_readings = (\<lambda>rs b. (rs, b)), fb_create_bytes = (\<lambda>bs b. (bs, b)), fb_finish = (\<lambda>off b. (fst b, Some off))\<rparr>"
  let ?enc = "\<lambda>msg. case msg of Control m \<Rightarrow> map (\<lambda>c. of_char c) (cm_command m)
     | Telemetry m \<Rightarrow> tb_readings m | FileTransfer m \<Rightarrow> fc_data m"
  let ?messages = "[Control \<lparr>cm_command = ''GO'', cm_timestamp = 1000\<rparr>,
     FileTransfer \<lparr>fc_file_id = ''f'', fc_chunk_number = 1, fc_data = [0xAB]\<rparr>,
     Telemetry \<lparr>tb_device_id = ''s'', tb_readings = [7, 8, 9]\<rparr>]"
  have "list_all (\<lambda>msg. encodes sample_builder (\<lambda>_. True) (message_serialize ?calls msg) (?enc msg) \<and> length (?enc msg) \<le> 16) ?messages"
    by (simp add: encodes_def sample_builder_def control_serialize_def telemetry_serialize_def file_chunk_serialize_def)
  from builders_share_one_stream [OF this] have
    "multiple_builders_wire sample_builder ?calls ?messages = Some (Ok (encode_stream (\<lambda>_. []) (map ?enc ?messages)))"
    by (simp add: u32_max_def)
  also have "encode_stream (\<lambda>_. []) (map ?enc ?messages) = [2, 0, 0, 0, 71, 79, 1, 0, 0, 0, 0xAB, 3, 0, 0, 0, 7, 8, 9]"
    by (simp add: encode_frame_def) code_simp
  finally show ?thesis .
qed

lemma typed_example_reads_back:
  assumes "string_roots ops sb enc" and "\<And>s. root (enc s) = Ok s"
    and "list_all (\<lambda>s. length (enc s) \<le> fb_max) [''msg-0'', ''msg-1'', ''msg-2'']" and "fb_max \<le> u32_max"
  shows "typed_reading_main fb_max ops sb root = Some (Ok ())"
proof -
  let ?w = "writer_new ops (cursor_new []) (DefaultFramer cursor_write) ()"
  let ?ps = "map enc [''msg-0'', ''msg-1'', ''msg-2'']"
  have names: "''msg-'' @ dec 0 = ''msg-0''" "''msg-'' @ dec 1 = ''msg-1''" "''msg-'' @ dec 2 = ''msg-2''"
    by code_simp+
  have lib: "library_framer cursor_write (\<lambda>_. []) (\<lambda>p. length p \<le> u32_max) (sw_framer ?w)"
    by (simp add: writer_new_def plain_framer)
  from write_numbered_exact [OF lib assms(1), of "[0, 1, 2]" "b_new ops"] assms(3,4)
  have wrote: "run_writer (write_numbered ops sb [0, 1, 2] (b_new ops)) ?w = Some (Ok ((), encode_stream (\<lambda>_. []) ?ps))"
    using names by (auto simp: run_writer_def writer_new_def cursor_new_def)
  have lib: "library_deframer cursor_read (plain_format fb_max) (DefaultDeframer cursor_read (default_deframer_new fb_max))"
    using plain_deframer [where d = "default_deframer_new fb_max"]
    by (simp add: default_deframer_new_def DEFAULT_MAX_FRAME_LEN_def)
  have fits: "list_all (\<lambda>p. fits (plain_format fb_max) p \<and> True) ?ps"
    using assms(3,4) by (auto simp: fits_def plain_format_def)
  have "feed (\<lambda>payload. bindp (lift_outcome (str_root_from_payload root payload)) push_root) ?ps [] =
      Some (Ok (), [], [''msg-0'', ''msg-1'', ''msg-2''])"
    by (simp add: str_root_from_payload_def assms(2) prog_simps push_root_def)
  note read = run_reader_frames [OF lib speaks_plain fits this, unfolded run_reader_def]
  show ?thesis
    unfolding typed_reading_main_def wrote demo_bind_simps prod.case process_typed_def read
    by (simp add: assert_then_def)
qed

text \<open>The overhead of a checksummed frame is its header: the measurement of the example returns, with no
  assertion failing, four bytes and the declared width, for every lawful algorithm and every layout of payloads.\<close>

lemma measured_overhead_is_header:
  assumes "lawful_checksum alg" and "vector_roots ops vb enc"
    and "\<forall>n \<in> set SIZES. length (enc (replicate n 0xA5)) \<le> fb_max" and "fb_max \<le> u32_max"
  shows "measure_overhead fb_max ops vb alg = Some (Ok (4 + cs_SIZE alg))"
proof -
  let ?w = "writer_new ops (cursor_new []) (ChecksumFramer alg cursor_write) ()"
  let ?ps = "map (\<lambda>n. enc (replicate n 0xA5)) SIZES"
  let ?d = "\<lparr>cd_checksum_alg = alg, cd_max_frame_len = fb_max\<rparr>"
  have small: "\<forall>n \<in> set SIZES. length (enc (replicate n 0xA5)) \<le> u32_max" using assms(3,4) by auto
  have lib: "library_framer cursor_write (checksum_field alg) (\<lambda>p. length p \<le> u32_max) (sw_framer ?w)"
    by (simp add: writer_new_def checksummed_framer assms(1))
  from write_sizes_exact [OF lib assms(2) small, of "[]"]
  have wrote: "run_writer (write_sizes ops vb SIZES []) ?w =
      Some (Ok (map (\<lambda>n. length (enc (replicate n 0xA5))) SIZES, encode_stream (checksum_field alg) ?ps))"
    by (auto simp: writer_new_def cursor_new_def run_writer_def)
  have dfr: "library_deframer cursor_read (checksum_format alg fb_max) (ChecksumDeframer cursor_read ?d)"
    using checksummed_deframer [where d = ?d] assms(1) by simp
  have "list_all (\<lambda>p. fits (checksum_format alg fb_max) p \<and> True) ?ps"
    using assms(3) small by (simp add: list_all_iff fits_def checksum_format_fields)
  from run_reader_frames [OF dfr speaks_checksum [OF assms(1)] this feed_count]
  have counted: "run_reader count_frames (ChecksumDeframer cursor_read ?d) (encode_stream (checksum_field alg) ?ps) 0 =
      Some (Ok (length SIZES))" by simp
  have frame: "length (encode_frame (checksum_field alg) p) = 4 + cs_SIZE alg + length p" for p
    using wire_codec.length_encode_frame [OF speaks_wire_codec [OF speaks_checksum [OF assms(1), of fb_max]], of p]
    by (simp add: frame_size_def checksum_format_fields)
  note overhead_exact [OF frame, of "\<lambda>n. enc (replicate n 0xA5)"]
  with lawful_checksum.size_le_8 [OF assms(1)] wrote counted show ?thesis
    by (simp add: measure_overhead_def checksum_framer_new_def checksum_deframer_new_def DEFAULT_MAX_FRAME_LEN_def
        assert_then_def)
qed

text \<open>A builder whose payload is the blob.\<close>

definition sample_vectors :: "(nat \<times> bytes option, bytes) vector_builder" where
  "sample_vectors = (\<lambda>data b. (data, b), \<lambda>data b. (max (fst b) (length data), Some data))"

lemma sample_vector_roots: "vector_roots sample_builder sample_vectors (\<lambda>data. data)"
  by (simp add: vector_roots_def sample_vectors_def sample_builder_def blob_payload_def)

lemma measured_overhead_is_header_witness:
  "measure_overhead (2 ^ 20) sample_builder sample_vectors (Crc16 (\<lambda>_. 7)) = Some (Ok 6)"
  using measured_overhead_is_header [OF crc16.lawful_checksum_axioms [of "\<lambda>_. 7"] sample_vector_roots, of "2 ^ 20"]
  by (simp add: SIZES_def u32_max_def Crc16_def checksum_default_def)

end
