(* ===== verification/FS_Observers.thy ===== *)
theory FS_Observers
  imports FS_Demos
begin

text \<open>
  What observers see. A stack without observers leaves their world alone, so an observer around one is
  called on exactly the payloads that are framed, or handed out, in order, on every writer and reader.
  \<^verbatim>\<open>examples/observer_adapters_example.rs\<close> and \<^verbatim>\<open>examples/validation_example.rs\<close> are the clients;
  their generated items and the verifier are arguments.
\<close>

section \<open>Stacks without observers\<close>

inductive unobserved_framer :: "'w write_op \<Rightarrow> ('w, 'o) framer \<Rightarrow> bool" for wr where
  "unobserved_framer wr (DefaultFramer wr)"
| "unobserved_framer wr (ChecksumFramer alg wr)"
| "unobserved_framer wr f \<Longrightarrow> unobserved_framer wr (BoundedFramer f limit)"
| "unobserved_framer wr f \<Longrightarrow> unobserved_framer wr (ValidatingFramer f v)"

inductive unobserved_deframer :: "'r read_op \<Rightarrow> ('r, 'o) deframer \<Rightarrow> bool" for rd where
  "unobserved_deframer rd (DefaultDeframer rd d)"
| "unobserved_deframer rd (ChecksumDeframer rd c)"
| "unobserved_deframer rd f \<Longrightarrow> unobserved_deframer rd (ValidatingDeframer f v)"

inductive_simps unobserved_validating: "unobserved_framer wr (ValidatingFramer f v)"

text \<open>A program that keeps a part of the state it runs on.\<close>

definition keeps :: "('s \<Rightarrow> 'x) \<Rightarrow> ('s, 'e, 'a) prog \<Rightarrow> bool" where
  "keeps part m \<longleftrightarrow> (\<forall>s out s'. m s = Some (out, s') \<longrightarrow> part s' = part s)"

named_theorems keeps_rules "programs that keep a part of the state"

lemma keeps_bindp [keeps_rules]: "keeps part m \<Longrightarrow> (\<And>a. keeps part (f a)) \<Longrightarrow> keeps part (bindp m f)"
  by (force simp: keeps_def bindp_def split: option.splits prod.splits outcome.splits)

lemma keeps_pure [keeps_rules]:
  "keeps part (ret a)" "keeps part (fail e)" "keeps part panic" "keeps part (lift_outcome out)"
  by (simp_all add: keeps_def prog_simps)

lemma keeps_cases [keeps_rules]:
  "(x = None \<Longrightarrow> keeps part m) \<Longrightarrow> (\<And>a. x = Some a \<Longrightarrow> keeps part (f a)) \<Longrightarrow>
     keeps part (case x of None \<Rightarrow> m | Some a \<Rightarrow> f a)"
  "keeps part m \<Longrightarrow> keeps part m' \<Longrightarrow> keeps part (if b then m else m')"
  by (cases x) simp_all

lemma keeps_with_payload [keeps_rules]: "(\<And>p. keeps part (f p)) \<Longrightarrow> keeps part (with_payload n f)"
  by (simp add: keeps_def with_payload_def)

lemma keeps_writes [keeps_rules]: "keeps tx_world (write_all_tx wr bs)"
  by (auto simp: keeps_def write_all_tx_def split: option.splits)

lemma read_exact_rx_world: "read_exact_rx rd n s = Some (out, s') \<Longrightarrow> rx_world s' = rx_world s"
  by (auto simp: read_exact_rx_def split: option.splits)

lemma keeps_reads [keeps_rules]:
  "keeps rx_world (read_header rd k)" "keeps rx_world (read_in_frame rd n)" "keeps rx_world (read_payload rd n)"
proof -
  show "keeps rx_world (read_header rd k)"
    by (auto simp: keeps_def read_header_def split: option.splits prod.splits outcome.splits if_splits
        dest!: read_exact_rx_world)
  show "keeps rx_world (read_in_frame rd n)"
    by (auto simp: keeps_def read_in_frame_def split: option.splits dest!: read_exact_rx_world)
  show "keeps rx_world (read_payload rd n)"
    by (auto simp: keeps_def read_payload_def Let_def split: option.splits)
qed

lemma unobserved_framer_keeps: "unobserved_framer wr f \<Longrightarrow> keeps tx_world (f p)"
proof (induction rule: unobserved_framer.induct)
  case 1
  show ?case unfolding DefaultFramer_def Let_def by (intro keeps_rules)
next
  case (2 alg)
  show ?case unfolding ChecksumFramer_def Let_def by (intro keeps_rules)
next
  case (3 f limit)
  then show ?case unfolding BoundedFramer_def by (intro keeps_rules)
next
  case (4 f v)
  then show ?case unfolding ValidatingFramer_def by (intro keeps_rules)
qed

lemma unobserved_deframer_keeps: "unobserved_deframer rd f \<Longrightarrow> keeps rx_world (read_and_deframe f)"
proof (induction rule: unobserved_deframer.induct)
  case (1 d)
  show ?case
    unfolding DefaultDeframer_def read_and_deframe_default_def default_read_after_length_def
    by (simp, intro keeps_rules)
next
  case (2 c)
  show ?case unfolding ChecksumDeframer_def checksum_read_and_deframe_def Let_def
    by (simp, intro keeps_rules)
next
  case (3 f v)
  then show ?case unfolding ValidatingDeframer_def validate_deframed_def by (simp, intro keeps_rules)
qed

section \<open>What an observer sees\<close>

lemma observed_framing:
  assumes "unobserved_framer wr f" and "ObserverFramer f cb p s = Some (out, s')"
  shows "tx_world s' = cb p (tx_world s)"
  using unobserved_framer_keeps [OF assms(1), of p] assms(2) by (auto simp: keeps_def ObserverFramer_def)

text \<open>A read that hands out a payload has shown it to the observer; any other read has shown nothing.\<close>

lemma observed_read:
  assumes "unobserved_deframer rd f" and "sr_deframer s = ObserverDeframer f cb" and "read_message s = Some (out, s')"
  shows "sr_deframer s' = ObserverDeframer f cb \<and>
    sr_world s' = (case out of Ok (Some p) \<Rightarrow> cb p (sr_world s) | _ \<Rightarrow> sr_world s)"
proof -
  note keep = unobserved_deframer_keeps [OF assms(1), unfolded keeps_def, rule_format]
  show ?thesis
    using assms(2,3) keep
    by (fastforce simp: read_message_cases ObserverDeframer_def observe_deframed_def bindp_def with_payload_def ret_def
        split: option.splits prod.splits outcome.splits if_splits)
qed

text \<open>A closure that also records its payloads.\<close>

definition recording :: "(bytes \<Rightarrow> ('u, error, unit) prog) \<Rightarrow> bytes \<Rightarrow> (bytes list \<times> 'u, error, unit) prog" where
  "recording f p = (\<lambda>(seen, u). map_option (\<lambda>(out, u'). (out, (seen @ [p], u'))) (f p u))"

lemma recording_eval: "recording f p (seen, u) = map_option (\<lambda>(out, u'). (out, (seen @ [p], u'))) (f p u)"
  by (simp add: recording_def)

lemma observed_loop:
  assumes u: "unobserved_deframer rd d"
  shows "process_all g su = Some y \<Longrightarrow> g = recording f \<longrightarrow> sr_deframer (fst su) = ObserverDeframer d cb \<longrightarrow>
    sr_world (fst su) = fold cb (fst (snd su)) w0 \<longrightarrow> sr_world (fst (snd y)) = fold cb (fst (snd (snd y))) w0"
proof (induction rule: process_all.raw_induct [rotated, consumes 1, case_names step])
  case (step rec g su y)
  show ?case
  proof (intro impI)
    assume g: "g = recording f" and dfr: "sr_deframer (fst su) = ObserverDeframer d cb"
      and w: "sr_world (fst su) = fold cb (fst (snd su)) w0"
    obtain out s1 where run: "read_message (fst su) = Some (out, s1)"
      using step.hyps by (cases "read_message (fst su)") auto
    note s1 = observed_read [OF u dfr run]
    obtain s seen v where su: "su = (s, seen, v)" by (cases su)
    show "sr_world (fst (snd y)) = fold cb (fst (snd (snd y))) w0"
    proof (cases "\<exists>p. out = Ok (Some p)")
      case False
      with step.hyps run s1 w show ?thesis
        by (cases out) (auto simp: su split: option.splits)
    next
      case True
      then obtain p where out: "out = Ok (Some p)" by blast
      obtain out' v' where fp: "f p v = Some (out', v')"
        using step.hyps run out g su by (cases "f p v") (auto simp: recording_eval)
      have world: "sr_world s1 = fold cb (seen @ [p]) w0" using s1 w su out by simp
      show ?thesis
      proof (cases out')
        case (Ok a)
        with step.hyps run out g su fp have "rec g (s1, seen @ [p], v') = Some y" by (simp add: recording_eval)
        from step.IH [OF this] g s1 world show ?thesis by simp
      qed (use step.hyps run out g su fp world in \<open>auto simp: recording_eval\<close>)
    qed
  qed
qed

text \<open>Recording changes nothing else.\<close>

lemma recording_runs:
  "process_all f su = Some y \<Longrightarrow>
     \<exists>seen'. process_all (recording f) (fst su, (seen, snd su)) = Some (fst y, fst (snd y), (seen', snd (snd y)))"
proof (induction arbitrary: seen rule: process_all.raw_induct [rotated, consumes 1, case_names step])
  case (step rec f su y)
  obtain out s1 where run: "read_message (fst su) = Some (out, s1)"
    using step.hyps by (cases "read_message (fst su)") auto
  show ?case
  proof (cases "\<exists>p. out = Ok (Some p)")
    case False
    with step.hyps run show ?thesis
      by (cases out) (auto simp: process_all.simps [of "recording f"] split: option.splits)
  next
    case True
    then obtain p where out: "out = Ok (Some p)" by blast
    obtain out' v' where fp: "f p (snd su) = Some (out', v')"
      using step.hyps run out by (cases "f p (snd su)") auto
    show ?thesis
    proof (cases out')
      case (Ok a)
      with step.hyps run out fp have "rec f (s1, v') = Some y" by simp
      from step.IH [OF this, of "seen @ [p]"] run out fp Ok show ?thesis
        by (simp add: process_all.simps [of "recording f" "(fst su, seen, snd su)"] recording_eval)
    qed (use step.hyps run out fp in
        \<open>auto simp: process_all.simps [of "recording f" "(fst su, seen, snd su)"] recording_eval\<close>)
  qed
qed

lemma recording_returns:
  "process_all g su = Some y \<Longrightarrow> g = recording f \<longrightarrow>
     process_all f (fst su, snd (snd su)) = Some (fst y, fst (snd y), snd (snd (snd y)))"
proof (induction rule: process_all.raw_induct [rotated, consumes 1, case_names step])
  case (step rec g su y)
  show ?case
  proof
    assume g: "g = recording f"
    obtain s seen v where su: "su = (s, seen, v)" by (cases su)
    obtain out s1 where run: "read_message s = Some (out, s1)"
      using step.hyps by (cases "read_message s") (auto simp: su)
    show "process_all f (fst su, snd (snd su)) = Some (fst y, fst (snd y), snd (snd (snd y)))"
    proof (cases "\<exists>p. out = Ok (Some p)")
      case False
      with step.hyps run show ?thesis
        by (cases out) (auto simp: su process_all.simps [of f] split: option.splits)
    next
      case True
      then obtain p where out: "out = Ok (Some p)" by blast
      obtain out' v' where fp: "f p v = Some (out', v')"
        using step.hyps run out by (cases "f p v") (auto simp: su g recording_eval)
      show ?thesis
      proof (cases out')
        case (Ok a)
        with step.hyps run out fp have "rec g (s1, seen @ [p], v') = Some y" by (simp add: su g recording_eval)
        from step.IH [OF this] run out fp Ok show ?thesis
          by (simp add: su g process_all.simps [of f "(s, v)"])
      qed (use step.hyps run out fp in \<open>auto simp: su g recording_eval process_all.simps [of f "(s, v)"]\<close>)
    qed
  qed
qed

lemma recording_transparent:
  "process_all f (s, u) = map_option (\<lambda>(out, s', _, u'). (out, s', u')) (process_all (recording f) (s, (seen, u)))"
proof (cases "process_all f (s, u)")
  case None
  show ?thesis
  proof (cases "process_all (recording f) (s, (seen, u))")
    case (Some y)
    from recording_returns [OF this, of f] None show ?thesis by simp
  qed (use None in simp)
next
  case (Some y)
  from recording_runs [OF this, of seen] Some show ?thesis by auto
qed

lemma observed_write:
  assumes "unobserved_framer wr f" and "sw_framer w = ObserverFramer f cb" and "writer_ok good w"
    and "encodes ops good item p" and "writer_write ops item w = Some (out, w')"
  shows "sw_world w' = cb p (sw_world w)"
proof (cases "sw_framer w p \<lparr>tx_sink = sw_writer w, tx_world = sw_world w\<rparr>")
  case None
  from assms(3,4) obtain b' n where "good b'" "b_mut_finished_buffer ops b' = Some n"
    "writer_write ops item w = bindp (frame_and_write p) (\<lambda>_ s2.
       if sw_policy s2 \<noteq> None then writer_evaluate_memory_policy ops (length p) s2
       else Some (Ok (), s2)) (w\<lparr>sw_builder := b'\<rparr>)" by (rule writer_write_cases)
  with None assms(5) show ?thesis by (simp add: frame_and_write_def bindp_def)
next
  case (Some r)
  then obtain out' t where t: "sw_framer w p \<lparr>tx_sink = sw_writer w, tx_world = sw_world w\<rparr> = Some (out', t)" by force
  from observed_framing [OF assms(1)] t assms(2) have "tx_world t = cb p (sw_world w)" by fastforce
  with writer_write_after [OF assms(3,4) t] assms(5) show ?thesis by auto
qed

section \<open>The example\<close>

definition observer_writes :: "'b builder_ops \<Rightarrow> ('b, 'offset) string_builder \<Rightarrow>
    ((error, unit) outcome \<times> (cursor, nat, 'b, unit, unit) stream_writer) option" where
  "observer_writes ops sb =
     (bindp (writer_write ops (str_serialize (fst sb) (snd sb) ''alpha'')) (\<lambda>_.
      bindp (writer_write ops (str_serialize (fst sb) (snd sb) ''beta'')) (\<lambda>_.
      writer_flush cursor_flush)))
     (writer_new ops (cursor_new []) (ObserverFramer (DefaultFramer cursor_write) (\<lambda>p seen. seen + length p)) 0)"

definition observer_reads :: "nat \<Rightarrow> bytes \<Rightarrow>
    ((error, unit) outcome \<times> (cursor, nat \<times> nat, unit) stream_reader \<times> unit) option" where
  "observer_reads fb_max wire =
     process_all (\<lambda>_ u. Some (Ok (), u))
       (reader_new (cursor_new wire)
          (ObserverDeframer (DefaultDeframer cursor_read (default_deframer_new fb_max))
            (\<lambda>p (msgs, seen). (msgs + 1, seen + length p))) (0, 0), ())"

definition observer_main :: "nat \<Rightarrow> 'b builder_ops \<Rightarrow> ('b, 'offset) string_builder \<Rightarrow> (error, unit) outcome option" where
  "observer_main fb_max ops sb =
     demo_bind (map_option (\<lambda>(out, w). map_ok (\<lambda>_. (cursor_data (sw_writer w), sw_world w)) out) (observer_writes ops sb))
       (\<lambda>(wire, write_seen).
     demo_bind (map_option (\<lambda>(out, s, _). map_ok (\<lambda>_. sr_world s) out) (observer_reads fb_max wire)) (\<lambda>(read_msgs, read_bytes).
     assert_then (read_msgs = 2 \<and> read_bytes = write_seen) (Some (Ok ()))))"

text \<open>The checksum variants: the framer is called directly, and the observers count.\<close>

definition observed_checksum_demo :: "nat \<Rightarrow> checksum \<Rightarrow> bytes \<Rightarrow> (error, unit) outcome option" where
  "observed_checksum_demo fb_max alg payload =
     (case (checksum_framer_new alg, checksum_deframer_new fb_max alg) of
        (Some framer_alg, Some d) \<Rightarrow>
          (case ObserverFramer (ChecksumFramer framer_alg vec_write) (\<lambda>p seen. seen + length p) payload
              \<lparr>tx_sink = [], tx_world = 0\<rparr> of
             None \<Rightarrow> None
           | Some (Err e, _) \<Rightarrow> Some Panic
           | Some (Panic, _) \<Rightarrow> Some Panic
           | Some (Ok _, t) \<Rightarrow>
               demo_bind (map_option (\<lambda>(out, s, _). map_ok (\<lambda>_. sr_world s) out)
                 (process_all (\<lambda>_ u. Some (Ok (), u))
                   ((reader_new (cursor_new (tx_sink t))
                      (ObserverDeframer (ChecksumDeframer cursor_read d) (\<lambda>_ count. count + 1)) 0
                      :: (cursor, nat, unit) stream_reader), ()))) (\<lambda>count.
               assert_then (tx_world t = length payload \<and> count = (1 :: nat)) (Some (Ok ()))))
      | _ \<Rightarrow> Some Panic)"

definition observed_crc32_demo :: "nat \<Rightarrow> (bytes \<Rightarrow> u32) \<Rightarrow> (error, unit) outcome option" where
  "observed_crc32_demo fb_max crc32fast_hash = observed_checksum_demo fb_max (Crc32 crc32fast_hash) (byte_string ''crc32 payload'')"

definition observed_crc16_demo :: "nat \<Rightarrow> (bytes \<Rightarrow> 16 word) \<Rightarrow> (error, unit) outcome option" where
  "observed_crc16_demo fb_max crc16_xmodem = observed_checksum_demo fb_max (Crc16 crc16_xmodem) (byte_string ''crc16 payload'')"

text \<open>On a stream of good frames an observer has seen them all when the loop ends.\<close>

lemma observed_stream:
  assumes "unobserved_deframer cursor_read d" and "library_deframer cursor_read fmt d" and "speaks field fmt ok"
    and "list_all (\<lambda>p. fits fmt p \<and> ok p) ps"
  shows "\<exists>s'. process_all (\<lambda>_ u. Some (Ok (), u))
      ((reader_new (cursor_new (encode_stream field ps)) (ObserverDeframer d cb) w0 :: (cursor, 'o, 'p) stream_reader), ()) =
      Some (Ok (), s', ()) \<and> sr_world s' = fold cb ps w0"
proof -
  let ?s = "reader_new (cursor_new (encode_stream field ps)) (ObserverDeframer d cb) w0 :: (cursor, 'o, 'p) stream_reader"
  let ?f = "\<lambda>(_ :: bytes) (u :: unit). Some (Ok () :: (error, unit) outcome, u)"
  have scanned: "scan fmt (encode_stream field ps) = (ps, Clean)"
    using wire_codec.scan_encode [OF speaks_wire_codec [OF assms(3)] assms(4), of "[]"] by simp
  have s: "sr_deframer ?s = ObserverDeframer d cb" "cursor_rest (sr_reader ?s) = encode_stream field ps" "sr_world ?s = w0"
    by (simp_all add: reader_new_def)
  have fed: "feed (recording ?f) ps (seen, ()) = Some (Ok (), [], seen @ ps, ())" for seen
    by (induction ps arbitrary: seen) (simp_all add: recording_eval)
  from frame_reader.process_all_scan [OF library_deframer_contract [OF observer_deframer [OF assms(2), of cb]
      cursor_source.reliable_source_axioms] s(1) TrueI, of "recording ?f" "([], ())"] fed [of "[]"]
  obtain s' where run: "process_all (recording ?f) (?s, [], ()) = Some (Ok (), s', ps, ())"
    by (auto simp: processed_def scanned s(2))
  from observed_loop [OF assms(1) run, of ?f cb w0] s have "sr_world s' = fold cb ps w0" by simp
  moreover from recording_transparent [of ?f ?s "()" "[]"] run have "process_all ?f (?s, ()) = Some (Ok (), s', ())" by simp
  ultimately show ?thesis by blast
qed

lemma observed_checksum_demo_passes:
  assumes "lawful_checksum alg" and "length payload \<le> fb_max" and "fb_max \<le> u32_max"
  shows "observed_checksum_demo fb_max alg payload = Some (Ok ())"
proof -
  let ?d = "\<lparr>cd_checksum_alg = alg, cd_max_frame_len = fb_max\<rparr>" and ?cb = "\<lambda>p seen. seen + length p"
  let ?t = "\<lparr>tx_sink = [], tx_world = 0\<rparr> :: (bytes, nat) tx"
  have lib: "library_framer vec_write (checksum_field alg) (\<lambda>p. length p \<le> u32_max) (ObserverFramer (ChecksumFramer alg vec_write) ?cb)"
    by (intro observer_framer checksummed_framer assms(1))
  from exact_frame_writer.frame_exact [OF library_framer_exact [OF lib vec_sink.reliable_sink_axioms], of payload ?t] assms(2,3)
  obtain t where t: "ObserverFramer (ChecksumFramer alg vec_write) ?cb payload ?t = Some (Ok (), t)"
    "tx_sink t = encode_stream (checksum_field alg) [payload]" by auto
  have world: "tx_world t = length payload"
    using observed_framing [OF unobserved_framer.intros(2) t(1)] by simp
  have dfr: "library_deframer cursor_read (checksum_format alg fb_max) (ChecksumDeframer cursor_read ?d)"
    using checksummed_deframer [where d = ?d] assms(1) by simp
  have "list_all (\<lambda>p. fits (checksum_format alg fb_max) p \<and> True) [payload]"
    using assms(2,3) by (simp add: fits_def checksum_format_fields)
  from observed_stream [OF unobserved_deframer.intros(2) dfr speaks_checksum [OF assms(1)] this, of "\<lambda>_ count. count + (1 :: nat)" 0]
  have "\<exists>s'. process_all (\<lambda>_ u. Some (Ok (), u))
      ((reader_new (cursor_new (tx_sink t)) (ObserverDeframer (ChecksumDeframer cursor_read ?d) (\<lambda>_ count. count + 1)) 0
         :: (cursor, nat, unit) stream_reader), ()) = Some (Ok (), s', ()) \<and> sr_world s' = 1" by (simp add: t(2))
  with t(1) world lawful_checksum.size_le_8 [OF assms(1)] show ?thesis
    by (auto simp: observed_checksum_demo_def checksum_framer_new_def checksum_deframer_new_def DEFAULT_MAX_FRAME_LEN_def
        assert_then_def)
qed

lemma observed_crc_demos_pass:
  assumes "13 \<le> fb_max" and "fb_max \<le> u32_max"
  shows "observed_crc32_demo fb_max crc32fast_hash = Some (Ok ())" and "observed_crc16_demo fb_max crc16_xmodem = Some (Ok ())"
  using observed_checksum_demo_passes [OF crc32.lawful_checksum_axioms _ assms(2), of "byte_string ''crc32 payload''"]
    observed_checksum_demo_passes [OF crc16.lawful_checksum_axioms _ assms(2), of "byte_string ''crc16 payload''"] assms(1)
  by (simp_all add: observed_crc32_demo_def observed_crc16_demo_def byte_string_def)

lemma observer_example_passes:
  assumes "string_roots ops sb enc" and "length (enc ''alpha'') \<le> fb_max" and "length (enc ''beta'') \<le> fb_max"
    and "fb_max \<le> u32_max"
  shows "observer_main fb_max ops sb = Some (Ok ())"
proof -
  let ?fr = "ObserverFramer (DefaultFramer cursor_write) (\<lambda>p seen. seen + length p) :: (cursor, nat) framer"
  let ?w = "writer_new ops (cursor_new []) ?fr 0 :: (cursor, nat, 'a, unit, unit) stream_writer"
  let ?item = "\<lambda>s. str_serialize (fst sb) (snd sb) s"
  have lib: "library_framer cursor_write (\<lambda>_. []) (\<lambda>p. length p \<le> u32_max) ?fr"
    by (intro observer_framer plain_framer)
  note wrote_item = exact_frame_writer.writer_write_exact [OF library_framer_exact [OF lib cursor_sink.reliable_sink_axioms],
      where good = "\<lambda>_. True", OF _ string_encodes [OF assms(1)]]
  note seen = observed_write [OF unobserved_framer.intros(1), where good = "\<lambda>_. True", OF _ _ string_encodes [OF assms(1)]]
  have ok: "writer_ok (\<lambda>_. True) w" for w :: "(cursor, nat, 'a, unit, unit) stream_writer" by (simp add: writer_ok_def)
  have w: "sw_framer ?w = ?fr" "sw_world ?w = 0" "cursor_pos (sw_writer ?w) = length (cursor_data (sw_writer ?w))"
    "cursor_data (sw_writer ?w) = []" by (simp_all add: writer_new_def cursor_new_def)
  from wrote_item [OF ok w(1,3), of "''alpha''"] assms(2,4) obtain w1 where
    one: "writer_write ops (?item ''alpha'') ?w = Some (Ok (), w1)" "sw_framer w1 = ?fr"
    "cursor_pos (sw_writer w1) = length (cursor_data (sw_writer w1))"
    "cursor_data (sw_writer w1) = encode_frame (\<lambda>_. []) (enc ''alpha'')" using w(4) by auto
  from seen [OF w(1) ok one(1)] w(2) have v1: "sw_world w1 = length (enc ''alpha'')" by simp
  from wrote_item [OF ok one(2,3), of "''beta''"] assms(3,4) obtain w2 where
    two: "writer_write ops (?item ''beta'') w1 = Some (Ok (), w2)"
    "cursor_data (sw_writer w2) = encode_stream (\<lambda>_. []) [enc ''alpha'', enc ''beta'']" using one(4) by auto
  from seen [OF one(2) ok two(1)] v1 have v2: "sw_world w2 = length (enc ''alpha'') + length (enc ''beta'')" by simp
  have wrote: "observer_writes ops sb = Some (Ok (), w2)"
    using one(1) two(1) by (simp add: observer_writes_def bindp_Ok)
  have dfr: "library_deframer cursor_read (plain_format fb_max) (DefaultDeframer cursor_read (default_deframer_new fb_max))"
    using plain_deframer [where d = "default_deframer_new fb_max"]
    by (simp add: default_deframer_new_def DEFAULT_MAX_FRAME_LEN_def)
  have "list_all (\<lambda>p. fits (plain_format fb_max) p \<and> True) [enc ''alpha'', enc ''beta'']"
    using assms(2-4) by (simp add: fits_def plain_format_def)
  from observed_stream [OF unobserved_deframer.intros(1) dfr speaks_plain this,
      of "\<lambda>p (msgs :: nat, seen). (msgs + 1, seen + length p)" "(0, 0)"]
  have "\<exists>s'. observer_reads fb_max (cursor_data (sw_writer w2)) = Some (Ok (), s', ()) \<and>
      sr_world s' = (2, length (enc ''alpha'') + length (enc ''beta''))"
    unfolding observer_reads_def two(2) by (simp add: numeral_2_eq_2)
  then obtain s' where "observer_reads fb_max (cursor_data (sw_writer w2)) = Some (Ok (), s', ())"
    "sr_world s' = (2, length (enc ''alpha'') + length (enc ''beta''))" by blast
  with wrote v2 show ?thesis by (simp add: observer_main_def assert_then_def)
qed

section \<open>Validation on both paths\<close>

definition write_framed :: "bytes \<Rightarrow> (error, bytes) outcome option" where
  "write_framed payload =
     map_option (\<lambda>(out, t). map_ok (\<lambda>_. tx_sink t) out)
       (DefaultFramer vec_write payload \<lparr>tx_sink = [], tx_world = ()\<rparr>)"

text \<open>The buffered reader of the standard library over a byte slice is an argument.\<close>

definition process_with :: "(bytes \<Rightarrow> 'r) \<Rightarrow> ('r, unit) deframer \<Rightarrow> bytes \<Rightarrow> (error, unit) outcome option" where
  "process_with buf_reader dfr framed_bytes =
     map_option (\<lambda>(out, _). out)
       (process_all (\<lambda>_ u. Some (Ok (), u)) (reader_new (buf_reader framed_bytes) dfr () :: ('r, unit, unit) stream_reader, ()))"

definition expect_validation_failed :: "(error, unit) outcome option \<Rightarrow> (error, unit) outcome option" where
  "expect_validation_failed x =
     map_option (\<lambda>out. case out of
        Err err \<Rightarrow> (case into_kind err of ValidationFailed _ _ \<Rightarrow> Ok () | _ \<Rightarrow> Panic)
      | _ \<Rightarrow> Panic) x"

definition validation_main :: "nat \<Rightarrow> visit_table \<Rightarrow> 'r read_op \<Rightarrow> (bytes \<Rightarrow> 'r) \<Rightarrow> bytes \<Rightarrow> (error, unit) outcome option" where
  "validation_main fb_max visit rd buf_reader telemetry =
     (let dfr = \<lambda>v. deframer_with_validator (DefaultDeframer rd (default_deframer_new fb_max)) v;
          root_validator = TableRootValidator visit table_root_new;
          composite = CompositeValidator (composite_add (composite_add composite_new
            (SizeValidator (size_validator_new 1 (1024 * 1024)))) root_validator);
          invalid_payload = byte_string ''not a flatbuffer table''
      in demo_bind (write_framed telemetry) (\<lambda>framed_bytes.
         demo_bind (process_with buf_reader (dfr NoValidator) framed_bytes) (\<lambda>_.
         demo_bind (process_with buf_reader (dfr root_validator) framed_bytes) (\<lambda>_.
         demo_bind (process_with buf_reader (dfr composite) framed_bytes) (\<lambda>_.
         demo_bind (write_framed invalid_payload) (\<lambda>invalid_bytes.
         demo_bind (expect_validation_failed (process_with buf_reader (dfr root_validator) invalid_bytes)) (\<lambda>_.
         map_option fst (framer_with_validator (DefaultFramer vec_write) root_validator telemetry
           \<lparr>tx_sink = [], tx_world = ()\<rparr>))))))))"

lemma write_framed_exact: "length p \<le> u32_max \<Longrightarrow> write_framed p = Some (Ok (encode_stream (\<lambda>_. []) [p]))"
  by (simp add: write_framed_def DefaultFramer_def write_all_tx_def prog_simps encode_frame_def)

text \<open>The outcome of processing a single good frame is the verdict of the validator.\<close>

lemma process_with_verdict:
  assumes "reliable_source rd content patience healthy" and "content (buf_reader bs) = bs" and "healthy (buf_reader bs)"
    and "lawful_validator v" and "length p \<le> fb_max" and "fb_max \<le> u32_max" and "bs = encode_stream (\<lambda>_. []) [p]"
  shows "process_with buf_reader (deframer_with_validator (DefaultDeframer rd (default_deframer_new fb_max)) v) bs =
    Some (v_validate v p)"
proof -
  let ?fmt = "validated_format v (plain_format fb_max)"
  let ?dfr = "ValidatingDeframer (DefaultDeframer rd (default_deframer_new fb_max)) v :: ('a, unit) deframer"
  have lib: "library_deframer rd ?fmt ?dfr"
    using validating_deframer [OF plain_deframer [where d = "default_deframer_new fb_max"] assms(4)]
    by (simp add: default_deframer_new_def DEFAULT_MAX_FRAME_LEN_def)
  have "declared_len (encode_frame (\<lambda>_. []) p @ []) = length p"
    using assms(5,6) by (intro wire_codec.declared_len_encode [OF speaks_wire_codec [OF speaks_plain]]) simp
  then have nf: "next_frame ?fmt bs = (case error_of (v_validate v p) of None \<Rightarrow> Frame p [] | Some e \<Rightarrow> Bad e)"
    using assms(5) unfolding assms(7)
    by (simp add: next_frame_def validated_format_def plain_format_def Let_def split: option.split)
      (simp add: encode_frame_def)
  have s: "sr_deframer (reader_new r d x) = d" "sr_reader (reader_new r d x) = r" for r d x
    by (simp_all add: reader_new_def)
  note run = frame_reader.process_all_scan [OF library_deframer_contract [OF lib assms(1)] s(1),
      where u = "()" and f = "\<lambda>_ u. Some (Ok (), u)", unfolded s(2), OF assms(3), unfolded assms(2)]
  from lawful_validator.validate_result [OF assms(4), of p] show ?thesis
  proof (elim disjE exE)
    assume "v_validate v p = Ok ()"
    with nf have "scan ?fmt bs = ([p], Clean)" by (simp add: error_of_def scan_Frame)
    with run \<open>v_validate v p = Ok ()\<close> show ?thesis
      by (auto simp: processed_def process_with_def deframer_with_validator_def)
  next
    fix name reason assume "v_validate v p = Err (validation_failed name reason)"
    with nf have "scan ?fmt bs = ([], Stopped (validation_failed name reason))" by (simp add: error_of_def scan_Bad)
    with run \<open>v_validate v p = Err _\<close> show ?thesis
      by (auto simp: processed_def process_with_def deframer_with_validator_def)
  qed
qed

lemma validation_example_passes:
  assumes rd: "reliable_source rd content patience healthy" "\<And>bs. content (buf_reader bs) = bs" "\<And>bs. healthy (buf_reader bs)"
    and max: "22 \<le> fb_max" "fb_max \<le> u32_max" and size: "length telemetry \<le> fb_max" "length telemetry \<le> 1024 * 1024"
    and ok: "table_root_validate visit table_root_new telemetry = Ok ()"
    and bad: "table_root_validate visit table_root_new (byte_string ''not a flatbuffer table'') \<noteq> Ok ()"
  shows "validation_main fb_max visit rd buf_reader telemetry = Some (Ok ())"
proof -
  let ?root = "TableRootValidator visit table_root_new" and ?bad = "byte_string ''not a flatbuffer table''"
  let ?composite = "CompositeValidator (composite_add (composite_add composite_new
    (SizeValidator (size_validator_new 1 (1024 * 1024)))) ?root)"
  have lawful: "lawful_validator ?root" "lawful_validator NoValidator" "lawful_validator ?composite"
    by (rule table_root.lawful_validator_axioms, rule no_validator.lawful_validator_axioms,
        rule CompositeValidator_lawful, simp add: composite_add_def composite_new_def
        size_bounds.lawful_validator_axioms table_root.lawful_validator_axioms)
  have len: "length ?bad \<le> fb_max" using max(1) by (simp add: byte_string_def)
  have framed: "write_framed telemetry = Some (Ok (encode_stream (\<lambda>_. []) [telemetry]))"
    "write_framed ?bad = Some (Ok (encode_stream (\<lambda>_. []) [?bad]))"
    by (rule write_framed_exact, use size max len in simp)+
  have verdict: "process_with buf_reader (deframer_with_validator (DefaultDeframer rd (default_deframer_new fb_max)) v)
      (encode_stream (\<lambda>_. []) [p]) = Some (v_validate v p)" if "lawful_validator v" "length p \<le> fb_max" for v p
    by (rule process_with_verdict [where buf_reader = buf_reader, OF rd that max(2) refl])
  have "telemetry \<noteq> []" using ok by (auto simp: table_root_validate_def)
  then have good: "v_validate NoValidator telemetry = Ok ()" "v_validate ?root telemetry = Ok ()" "v_validate ?composite telemetry = Ok ()"
    using ok size(2) by (simp_all add: NoValidator_def TableRootValidator_def CompositeValidator_def composite_validate_def
        composite_add_def composite_new_def SizeValidator_def size_validate_def size_validator_new_def Let_def)
  have "v_validate ?root ?bad \<noteq> Ok ()" using bad by (simp add: TableRootValidator_def)
  with lawful_validator.validate_result [OF lawful(1), of ?bad] obtain name reason where
    rejected: "v_validate ?root ?bad = Err (validation_failed name reason)" by auto
  then have "expect_validation_failed (Some (v_validate ?root ?bad)) = Some (Ok ())"
    by (simp add: expect_validation_failed_def into_kind_def error_defs)
  moreover have "map_option fst (framer_with_validator (DefaultFramer vec_write) ?root telemetry \<lparr>tx_sink = [], tx_world = ()\<rparr>)
      = Some (Ok ())"
    using good(2) size(1) max(2)
    by (simp add: framer_with_validator_def ValidatingFramer_def prog_simps DefaultFramer_def write_all_tx_def)
  ultimately show ?thesis
    unfolding validation_main_def Let_def framed demo_bind_simps verdict [OF lawful(1) size(1)] verdict [OF lawful(2) size(1)]
      verdict [OF lawful(3) size(1)] verdict [OF lawful(1) len] good by simp
qed

section \<open>Properties\<close>

text \<open>C36: Observers see exactly what passes: whatever the writer and the reader do and whatever stack is
  inside, the observer of a framer has been called with the payload of a write, once, also when the write
  fails, and the observer of a deframer has been called with the payloads that reached the closure, in
  order and with nothing else, also when the loop ends in an error.\<close>

theorem observers_see_what_passes:
  assumes "unobserved_framer wr fr" and "sw_framer w = ObserverFramer fr cb" and "writer_ok good w"
    and "encodes ops good item p" and "writer_write ops item w = Some (out, w')"
    and "unobserved_deframer rd dfr" and "sr_deframer s = ObserverDeframer dfr cb'"
    and "process_all (recording f) (s, ([], u)) = Some (out', s', (seen, u'))"
  shows "sw_world w' = cb p (sw_world w) \<and> sr_world s' = fold cb' seen (sr_world s) \<and>
    process_all f (s, u) = Some (out', s', u')"
proof (intro conjI)
  show "sw_world w' = cb p (sw_world w)" by (rule observed_write [OF assms(1-5)])
  show "sr_world s' = fold cb' seen (sr_world s)"
    using observed_loop [OF assms(6,8), of f cb' "sr_world s"] assms(7) by simp
  show "process_all f (s, u) = Some (out', s', u')"
    using recording_transparent [of f s u "[]"] assms(8) by simp
qed

text \<open>A write over the limit, and a stream whose second frame is torn.\<close>

theorem observers_see_what_passes_witness:
  "\<exists>w' e e' s'. writer_write sample_builder (sample_item [1, 2, 3])
      (writer_new sample_builder [] (ObserverFramer (BoundedFramer (DefaultFramer vec_write) 2) (\<lambda>p ps. ps @ [p])) []
        :: (bytes, bytes list, nat \<times> bytes option, unit, unit) stream_writer) = Some (Err e, w') \<and> sw_world w' = [[1, 2, 3]] \<and>
     process_all (\<lambda>_ u. Some (Ok (), u))
      (reader_new (cursor_new [1, 0, 0, 0, 9, 2, 0, 0, 0, 8])
        (ObserverDeframer (DefaultDeframer cursor_read \<lparr>dd_max_frame_len = 16\<rparr>) (\<lambda>p ps. ps @ [p])) []
        :: (cursor, bytes list, unit) stream_reader, ()) = Some (Err e', s', ()) \<and> sr_world s' = [[9]]"
proof -
  let ?cb = "\<lambda>p ps. ps @ [p] :: bytes list" and ?f = "\<lambda>(_ :: bytes) (u :: unit). Some (Ok () :: (error, unit) outcome, u)"
  let ?fr = "BoundedFramer (DefaultFramer vec_write) 2 :: (bytes, bytes list) framer"
  let ?w = "writer_new sample_builder [] (ObserverFramer ?fr ?cb) [] :: (bytes, bytes list, nat \<times> bytes option, unit, unit) stream_writer"
  let ?d = "DefaultDeframer cursor_read \<lparr>dd_max_frame_len = 16\<rparr> :: (cursor, bytes list) deframer"
  let ?s = "reader_new (cursor_new [1, 0, 0, 0, 9, 2, 0, 0, 0, 8]) (ObserverDeframer ?d ?cb) [] :: (cursor, bytes list, unit) stream_reader"
  have fr: "unobserved_framer vec_write ?fr" by (intro unobserved_framer.intros)
  have w: "sw_framer ?w = ObserverFramer ?fr ?cb" "writer_ok (\<lambda>_. True) ?w" "sw_world ?w = []"
    by (simp_all add: writer_new_def writer_ok_def)
  obtain e w' where run: "writer_write sample_builder (sample_item [1, 2, 3]) ?w = Some (Err e, w')"
    by (simp add: writer_new_def writer_write_def sample_builder_def sample_item_def frame_and_write_def ObserverFramer_def
        BoundedFramer_def prog_simps)
  have d: "unobserved_deframer cursor_read ?d" by (intro unobserved_deframer.intros)
  have s: "sr_deframer ?s = ObserverDeframer ?d ?cb" "sr_world ?s = []" "cursor_rest (sr_reader ?s) = [1, 0, 0, 0, 9, 2, 0, 0, 0, 8]"
    by (simp_all add: reader_new_def)
  have lib: "library_deframer cursor_read (plain_format 16) (ObserverDeframer ?d ?cb)"
    using observer_deframer [OF plain_deframer [where d = "\<lparr>dd_max_frame_len = 16\<rparr>"]] by simp
  have scanned: "scan (plain_format 16) [1, 0, 0, 0, 9, 2, 0, 0, 0, 8] = ([[9]], Stopped unexpected_eof)"
    by code_simp
  from frame_reader.process_all_scan [OF library_deframer_contract [OF lib cursor_source.reliable_source_axioms] s(1) TrueI,
      of "recording ?f" "([], ())"] obtain s' where
    loop: "process_all (recording ?f) (?s, ([], ())) = Some (Err unexpected_eof, s', ([[9]], ()))"
    by (auto simp: processed_def s(3) scanned recording_eval)
  from observers_see_what_passes [OF fr w(1,2) sample_encodes run d s(1) loop] w(3) s(2) run show ?thesis by auto
qed

end
