(* ===== verification/FS_Flatc.thy ===== *)
theory FS_Flatc
  imports FS_Prelude
begin

text \<open>
  The accessors and builders that the FlatBuffers compiler generated for the schemas of the examples:
  \<^verbatim>\<open>examples/generated/lobster_message_generated.rs\<close>, \<^verbatim>\<open>lobster_orderbook_generated.rs\<close> and
  \<^verbatim>\<open>telemetry_generated.rs\<close>. The crate they call, with its tables, builder and verifier, is outside the
  repository: its operations are the records \<open>fb_builder\<close> and \<open>fb_access\<close>, an argument of every
  definition, and its documented behaviour are the predicates \<open>builder_contract\<close> and
  \<open>access_contract\<close>. The generated types differ in nothing but their name, so that one record stands for
  the table structs and one for the builder structs. Offsets of the crate are numbers that
  \<^verbatim>\<open>WIPOffset::new(o.value())\<close> passes on.
\<close>

section \<open>The interface of the crate\<close>

type_synonym voffset = "16 word"

text \<open>The types the generated code passes to the generic operations, and their values.\<close>

datatype field_type = F64T | U8T | U32T | U64T | I64T | I8T | StrT | LevelsT

datatype 'f field_value = F64 'f | U8 u8 | U32 u32 | U64 u64 | I64 u64 | I8 u8 | Str string | Levels "bytes list"

fun type_of :: "'f field_value \<Rightarrow> field_type" where
  "type_of (F64 _) = F64T"
| "type_of (U8 _) = U8T"
| "type_of (U32 _) = U32T"
| "type_of (U64 _) = U64T"
| "type_of (I64 _) = I64T"
| "type_of (I8 _) = I8T"
| "type_of (Str _) = StrT"
| "type_of (Levels _) = LevelsT"

record ('f, 'b, 's, 'o) fb_builder =
  fb_zero :: 'f
  fb_start_table :: "'b \<Rightarrow> 's \<times> 'b"
  fb_push_slot :: "voffset \<Rightarrow> 'f field_value \<Rightarrow> 'f field_value \<Rightarrow> 'b \<Rightarrow> 'b"
  fb_push_slot_always :: "voffset \<Rightarrow> 'o \<Rightarrow> 'b \<Rightarrow> 'b"
  fb_end_table :: "'s \<Rightarrow> 'b \<Rightarrow> 'o \<times> 'b"
  fb_finish :: "'o \<Rightarrow> 'b \<Rightarrow> 'b"
  fb_finish_size_prefixed :: "'o \<Rightarrow> 'b \<Rightarrow> 'b"

text \<open>\<^verbatim>\<open>pub struct X<'a> { pub _tab: flatbuffers::Table<'a> }\<close>\<close>

record 'tab table_struct =
  tab_of :: 'tab

text \<open>
  A read of a slot has no defined result (\<open>None\<close>) where the safety condition of \<^verbatim>\<open>Table::get\<close> fails.
  The entry points of the crate are generic over a table type, whose verifier and \<^verbatim>\<open>follow\<close> they are given.
\<close>

record ('f, 'buf, 'tab, 'v, 'tv, 'e, 'opts) fb_access =
  acc_zero :: 'f
  acc_table_new :: "'buf \<Rightarrow> nat \<Rightarrow> 'tab"
  acc_get :: "'tab \<Rightarrow> field_type \<Rightarrow> voffset \<Rightarrow> 'f field_value option \<Rightarrow> 'f field_value option option"
  acc_visit_table :: "'v \<Rightarrow> nat \<Rightarrow> ('e, 'tv) outcome"
  acc_visit_field :: "field_type \<Rightarrow> string \<Rightarrow> voffset \<Rightarrow> bool \<Rightarrow> 'tv \<Rightarrow> ('e, 'tv) outcome"
  acc_finish :: "'tv \<Rightarrow> 'v"
  acc_in_buffer :: "nat \<Rightarrow> nat \<Rightarrow> 'v \<Rightarrow> ('e, 'v) outcome"
  acc_root :: "('v \<Rightarrow> nat \<Rightarrow> ('e, 'v) outcome) \<Rightarrow> ('buf \<Rightarrow> nat \<Rightarrow> 'tab table_struct) \<Rightarrow> 'buf \<Rightarrow>
      ('e, 'tab table_struct) outcome"
  acc_size_prefixed_root :: "('v \<Rightarrow> nat \<Rightarrow> ('e, 'v) outcome) \<Rightarrow> ('buf \<Rightarrow> nat \<Rightarrow> 'tab table_struct) \<Rightarrow> 'buf \<Rightarrow>
      ('e, 'tab table_struct) outcome"
  acc_root_with_opts :: "('v \<Rightarrow> nat \<Rightarrow> ('e, 'v) outcome) \<Rightarrow> ('buf \<Rightarrow> nat \<Rightarrow> 'tab table_struct) \<Rightarrow> 'opts \<Rightarrow> 'buf \<Rightarrow>
      ('e, 'tab table_struct) outcome"
  acc_size_prefixed_root_with_opts :: "('v \<Rightarrow> nat \<Rightarrow> ('e, 'v) outcome) \<Rightarrow> ('buf \<Rightarrow> nat \<Rightarrow> 'tab table_struct) \<Rightarrow>
      'opts \<Rightarrow> 'buf \<Rightarrow> ('e, 'tab table_struct) outcome"
  acc_root_unchecked :: "('buf \<Rightarrow> nat \<Rightarrow> 'tab table_struct) \<Rightarrow> 'buf \<Rightarrow> 'tab table_struct"
  acc_size_prefixed_root_unchecked :: "('buf \<Rightarrow> nat \<Rightarrow> 'tab table_struct) \<Rightarrow> 'buf \<Rightarrow> 'tab table_struct"

text \<open>
  \<open>get_or\<close> is \<^verbatim>\<open>get::<T>(vt, Some(default)).unwrap()\<close>, and \<open>get_opt\<close> is \<^verbatim>\<open>get::<T>(vt, None)\<close>; \<open>proj\<close>
  reads a value of the type \<^verbatim>\<open>T\<close>.
\<close>

definition get_or :: "('f, 'buf, 'tab, 'v, 'tv, 'e, 'opts) fb_access \<Rightarrow> field_type \<Rightarrow> ('f field_value \<Rightarrow> 'a) \<Rightarrow>
    voffset \<Rightarrow> 'f field_value \<Rightarrow> 'tab table_struct \<Rightarrow> (unit, 'a) outcome option" where
  "get_or acc ty proj vt dflt t =
     (case acc_get acc (tab_of t) ty vt (Some dflt) of
        None \<Rightarrow> None
      | Some None \<Rightarrow> Some Panic
      | Some (Some x) \<Rightarrow> if type_of x = ty then Some (Ok (proj x)) else None)"

definition get_opt :: "('f, 'buf, 'tab, 'v, 'tv, 'e, 'opts) fb_access \<Rightarrow> field_type \<Rightarrow> ('f field_value \<Rightarrow> 'a) \<Rightarrow>
    voffset \<Rightarrow> 'tab table_struct \<Rightarrow> (unit, 'a option) outcome option" where
  "get_opt acc ty proj vt t =
     (case acc_get acc (tab_of t) ty vt None of
        None \<Rightarrow> None
      | Some None \<Rightarrow> Some (Ok None)
      | Some (Some x) \<Rightarrow> if type_of x = ty then Some (Ok (Some (proj x))) else None)"

text \<open>The arms without a right-hand side are not reached at the type.\<close>

primrec of_F64 :: "'f field_value \<Rightarrow> 'f" where "of_F64 (F64 x) = x"
primrec of_U8 :: "'f field_value \<Rightarrow> u8" where "of_U8 (U8 x) = x"
primrec of_U32 :: "'f field_value \<Rightarrow> u32" where "of_U32 (U32 x) = x"
primrec of_U64 :: "'f field_value \<Rightarrow> u64" where "of_U64 (U64 x) = x"
primrec of_I64 :: "'f field_value \<Rightarrow> u64" where "of_I64 (I64 x) = x"
primrec of_I8 :: "'f field_value \<Rightarrow> u8" where "of_I8 (I8 x) = x"
primrec of_Str :: "'f field_value \<Rightarrow> string" where "of_Str (Str x) = x"
primrec of_Levels :: "'f field_value \<Rightarrow> bytes list" where "of_Levels (Levels x) = x"

text \<open>A builder struct: the builder it borrows and the table under construction.\<close>

record ('b, 's) table_builder =
  tb_fbb :: 'b
  tb_start :: 's

definition builder_new :: "('f, 'b, 's, 'o) fb_builder \<Rightarrow> 'b \<Rightarrow> ('b, 's) table_builder" where
  "builder_new fb fbb = (let (start, fbb') = fb_start_table fb fbb in \<lparr>tb_fbb = fbb', tb_start = start\<rparr>)"

definition builder_finish :: "('f, 'b, 's, 'o) fb_builder \<Rightarrow> ('b, 's) table_builder \<Rightarrow> 'o \<times> 'b" where
  "builder_finish fb tb = fb_end_table fb (tb_start tb) (tb_fbb tb)"

section \<open>Message events\<close>

definition me_VT_TIMESTAMP :: voffset where "me_VT_TIMESTAMP = 4"
definition me_VT_EVENT_TYPE :: voffset where "me_VT_EVENT_TYPE = 6"
definition me_VT_ORDER_ID :: voffset where "me_VT_ORDER_ID = 8"
definition me_VT_SIZE :: voffset where "me_VT_SIZE = 10"
definition me_VT_PRICE :: voffset where "me_VT_PRICE = 12"
definition me_VT_DIRECTION :: voffset where "me_VT_DIRECTION = 14"

lemmas me_slots = me_VT_TIMESTAMP_def me_VT_EVENT_TYPE_def me_VT_ORDER_ID_def me_VT_SIZE_def me_VT_PRICE_def
  me_VT_DIRECTION_def

definition me_follow :: "('f, 'buf, 'tab, 'v, 'tv, 'e, 'opts) fb_access \<Rightarrow> 'buf \<Rightarrow> nat \<Rightarrow> 'tab table_struct" where
  "me_follow acc buf loc = \<lparr>tab_of = acc_table_new acc buf loc\<rparr>"

definition me_init_from_table :: "'tab \<Rightarrow> 'tab table_struct" where
  "me_init_from_table table = \<lparr>tab_of = table\<rparr>"

definition me_timestamp :: "('f, 'buf, 'tab, 'v, 'tv, 'e, 'opts) fb_access \<Rightarrow> 'tab table_struct \<Rightarrow> (unit, 'f) outcome option" where
  "me_timestamp acc = get_or acc F64T of_F64 me_VT_TIMESTAMP (F64 (acc_zero acc))"

definition me_event_type :: "('f, 'buf, 'tab, 'v, 'tv, 'e, 'opts) fb_access \<Rightarrow> 'tab table_struct \<Rightarrow> (unit, u8) outcome option" where
  "me_event_type acc = get_or acc U8T of_U8 me_VT_EVENT_TYPE (U8 0)"

definition me_order_id :: "('f, 'buf, 'tab, 'v, 'tv, 'e, 'opts) fb_access \<Rightarrow> 'tab table_struct \<Rightarrow> (unit, u64) outcome option" where
  "me_order_id acc = get_or acc U64T of_U64 me_VT_ORDER_ID (U64 0)"

definition me_size :: "('f, 'buf, 'tab, 'v, 'tv, 'e, 'opts) fb_access \<Rightarrow> 'tab table_struct \<Rightarrow> (unit, u32) outcome option" where
  "me_size acc = get_or acc U32T of_U32 me_VT_SIZE (U32 0)"

definition me_price :: "('f, 'buf, 'tab, 'v, 'tv, 'e, 'opts) fb_access \<Rightarrow> 'tab table_struct \<Rightarrow> (unit, u64) outcome option" where
  "me_price acc = get_or acc I64T of_I64 me_VT_PRICE (I64 0)"

definition me_direction :: "('f, 'buf, 'tab, 'v, 'tv, 'e, 'opts) fb_access \<Rightarrow> 'tab table_struct \<Rightarrow> (unit, u8) outcome option" where
  "me_direction acc = get_or acc I8T of_I8 me_VT_DIRECTION (I8 0)"

definition me_run_verifier :: "('f, 'buf, 'tab, 'v, 'tv, 'e, 'opts) fb_access \<Rightarrow> 'v \<Rightarrow> nat \<Rightarrow> ('e, 'v) outcome" where
  "me_run_verifier acc v pos =
     and_then (acc_visit_table acc v pos) (\<lambda>t.
     and_then (acc_visit_field acc F64T ''timestamp'' me_VT_TIMESTAMP False t) (\<lambda>t.
     and_then (acc_visit_field acc U8T ''event_type'' me_VT_EVENT_TYPE False t) (\<lambda>t.
     and_then (acc_visit_field acc U64T ''order_id'' me_VT_ORDER_ID False t) (\<lambda>t.
     and_then (acc_visit_field acc U32T ''size'' me_VT_SIZE False t) (\<lambda>t.
     and_then (acc_visit_field acc I64T ''price'' me_VT_PRICE False t) (\<lambda>t.
     and_then (acc_visit_field acc I8T ''direction'' me_VT_DIRECTION False t) (\<lambda>t.
     Ok (acc_finish acc t))))))))"

record 'f message_event_args =
  mea_timestamp :: 'f
  mea_event_type :: u8
  mea_order_id :: u64
  mea_size :: u32
  mea_price :: u64
  mea_direction :: u8

definition message_event_args_default :: "'f \<Rightarrow> 'f message_event_args" where
  "message_event_args_default zero = \<lparr>mea_timestamp = zero, mea_event_type = 0, mea_order_id = 0, mea_size = 0,
     mea_price = 0, mea_direction = 0\<rparr>"

definition me_add_timestamp :: "('f, 'b, 's, 'o) fb_builder \<Rightarrow> 'f \<Rightarrow> ('b, 's) table_builder \<Rightarrow> ('b, 's) table_builder" where
  "me_add_timestamp fb x tb = tb\<lparr>tb_fbb := fb_push_slot fb me_VT_TIMESTAMP (F64 x) (F64 (fb_zero fb)) (tb_fbb tb)\<rparr>"

definition me_add_event_type :: "('f, 'b, 's, 'o) fb_builder \<Rightarrow> u8 \<Rightarrow> ('b, 's) table_builder \<Rightarrow> ('b, 's) table_builder" where
  "me_add_event_type fb x tb = tb\<lparr>tb_fbb := fb_push_slot fb me_VT_EVENT_TYPE (U8 x) (U8 0) (tb_fbb tb)\<rparr>"

definition me_add_order_id :: "('f, 'b, 's, 'o) fb_builder \<Rightarrow> u64 \<Rightarrow> ('b, 's) table_builder \<Rightarrow> ('b, 's) table_builder" where
  "me_add_order_id fb x tb = tb\<lparr>tb_fbb := fb_push_slot fb me_VT_ORDER_ID (U64 x) (U64 0) (tb_fbb tb)\<rparr>"

definition me_add_size :: "('f, 'b, 's, 'o) fb_builder \<Rightarrow> u32 \<Rightarrow> ('b, 's) table_builder \<Rightarrow> ('b, 's) table_builder" where
  "me_add_size fb x tb = tb\<lparr>tb_fbb := fb_push_slot fb me_VT_SIZE (U32 x) (U32 0) (tb_fbb tb)\<rparr>"

definition me_add_price :: "('f, 'b, 's, 'o) fb_builder \<Rightarrow> u64 \<Rightarrow> ('b, 's) table_builder \<Rightarrow> ('b, 's) table_builder" where
  "me_add_price fb x tb = tb\<lparr>tb_fbb := fb_push_slot fb me_VT_PRICE (I64 x) (I64 0) (tb_fbb tb)\<rparr>"

definition me_add_direction :: "('f, 'b, 's, 'o) fb_builder \<Rightarrow> u8 \<Rightarrow> ('b, 's) table_builder \<Rightarrow> ('b, 's) table_builder" where
  "me_add_direction fb x tb = tb\<lparr>tb_fbb := fb_push_slot fb me_VT_DIRECTION (I8 x) (I8 0) (tb_fbb tb)\<rparr>"

definition message_event_create :: "('f, 'b, 's, 'o) fb_builder \<Rightarrow> 'f message_event_args \<Rightarrow> 'b \<Rightarrow> 'o \<times> 'b" where
  "message_event_create fb args fbb =
     (let b = builder_new fb fbb;
          b = me_add_price fb (mea_price args) b;
          b = me_add_order_id fb (mea_order_id args) b;
          b = me_add_timestamp fb (mea_timestamp args) b;
          b = me_add_size fb (mea_size args) b;
          b = me_add_direction fb (mea_direction args) b;
          b = me_add_event_type fb (mea_event_type args) b
      in builder_finish fb b)"

text \<open>The entry points, and the ends of a buffer.\<close>

definition root_as_message_event :: "('f, 'buf, 'tab, 'v, 'tv, 'e, 'opts) fb_access \<Rightarrow> 'buf \<Rightarrow> ('e, 'tab table_struct) outcome" where
  "root_as_message_event acc buf = acc_root acc (me_run_verifier acc) (me_follow acc) buf"

definition size_prefixed_root_as_message_event ::
  "('f, 'buf, 'tab, 'v, 'tv, 'e, 'opts) fb_access \<Rightarrow> 'buf \<Rightarrow> ('e, 'tab table_struct) outcome" where
  "size_prefixed_root_as_message_event acc buf = acc_size_prefixed_root acc (me_run_verifier acc) (me_follow acc) buf"

definition root_as_message_event_with_opts ::
  "('f, 'buf, 'tab, 'v, 'tv, 'e, 'opts) fb_access \<Rightarrow> 'opts \<Rightarrow> 'buf \<Rightarrow> ('e, 'tab table_struct) outcome" where
  "root_as_message_event_with_opts acc opts buf = acc_root_with_opts acc (me_run_verifier acc) (me_follow acc) opts buf"

definition size_prefixed_root_as_message_event_with_opts ::
  "('f, 'buf, 'tab, 'v, 'tv, 'e, 'opts) fb_access \<Rightarrow> 'opts \<Rightarrow> 'buf \<Rightarrow> ('e, 'tab table_struct) outcome" where
  "size_prefixed_root_as_message_event_with_opts acc opts buf =
     acc_size_prefixed_root_with_opts acc (me_run_verifier acc) (me_follow acc) opts buf"

definition root_as_message_event_unchecked :: "('f, 'buf, 'tab, 'v, 'tv, 'e, 'opts) fb_access \<Rightarrow> 'buf \<Rightarrow> 'tab table_struct" where
  "root_as_message_event_unchecked acc buf = acc_root_unchecked acc (me_follow acc) buf"

definition size_prefixed_root_as_message_event_unchecked ::
  "('f, 'buf, 'tab, 'v, 'tv, 'e, 'opts) fb_access \<Rightarrow> 'buf \<Rightarrow> 'tab table_struct" where
  "size_prefixed_root_as_message_event_unchecked acc buf = acc_size_prefixed_root_unchecked acc (me_follow acc) buf"

definition finish_message_event_buffer :: "('f, 'b, 's, 'o) fb_builder \<Rightarrow> 'o \<Rightarrow> 'b \<Rightarrow> 'b" where
  "finish_message_event_buffer fb root fbb = fb_finish fb root fbb"

definition finish_size_prefixed_message_event_buffer :: "('f, 'b, 's, 'o) fb_builder \<Rightarrow> 'o \<Rightarrow> 'b \<Rightarrow> 'b" where
  "finish_size_prefixed_message_event_buffer fb root fbb = fb_finish_size_prefixed fb root fbb"

section \<open>Price levels\<close>

text \<open>
  \<^verbatim>\<open>Level([u8; 16])\<close>: two little-endian numbers in place. \<open>copy_to\<close> is
  \<^verbatim>\<open>copy_nonoverlapping\<close> of a source into a destination at an index.
\<close>

definition copy_to :: "bytes \<Rightarrow> nat \<Rightarrow> bytes \<Rightarrow> bytes" where
  "copy_to dst i src = take i dst @ src @ drop (i + length src) dst"

definition level_default :: bytes where
  "level_default = replicate 16 0"

definition level_set_price :: "u64 \<Rightarrow> bytes \<Rightarrow> bytes" where
  "level_set_price x s = copy_to s 0 (le_bytes 8 x)"

definition level_set_size :: "u64 \<Rightarrow> bytes \<Rightarrow> bytes" where
  "level_set_size x s = copy_to s 8 (le_bytes 8 x)"

definition level_new :: "u64 \<Rightarrow> u64 \<Rightarrow> bytes" where
  "level_new price sz = level_set_size sz (level_set_price price (replicate 16 0))"

definition level_price :: "bytes \<Rightarrow> u64" where
  "level_price s = from_le (take 8 (drop 0 s))"

definition level_size :: "bytes \<Rightarrow> u64" where
  "level_size s = from_le (take 8 (drop 8 s))"

text \<open>\<^verbatim>\<open>dst.copy_from_slice(src)\<close> panics unless the lengths agree.\<close>

definition level_push :: "bytes \<Rightarrow> bytes \<Rightarrow> (unit, bytes) outcome" where
  "level_push s dst = (if length dst = length s then Ok s else Panic)"

definition level_alignment :: nat where
  "level_alignment = 8"

text \<open>\<^verbatim>\<open>v.in_buffer::<Self>(pos)\<close>: the crate checks the size and the alignment of the type.\<close>

definition level_run_verifier :: "('f, 'buf, 'tab, 'v, 'tv, 'e, 'opts) fb_access \<Rightarrow> 'v \<Rightarrow> nat \<Rightarrow> ('e, 'v) outcome" where
  "level_run_verifier acc v pos = acc_in_buffer acc 16 pos v"

section \<open>Order book snapshots\<close>

definition ob_VT_TIMESTAMP :: voffset where "ob_VT_TIMESTAMP = 4"
definition ob_VT_ASKS :: voffset where "ob_VT_ASKS = 6"
definition ob_VT_BIDS :: voffset where "ob_VT_BIDS = 8"

lemmas ob_slots = ob_VT_TIMESTAMP_def ob_VT_ASKS_def ob_VT_BIDS_def

definition ob_follow :: "('f, 'buf, 'tab, 'v, 'tv, 'e, 'opts) fb_access \<Rightarrow> 'buf \<Rightarrow> nat \<Rightarrow> 'tab table_struct" where
  "ob_follow acc buf loc = \<lparr>tab_of = acc_table_new acc buf loc\<rparr>"

definition ob_init_from_table :: "'tab \<Rightarrow> 'tab table_struct" where
  "ob_init_from_table table = \<lparr>tab_of = table\<rparr>"

definition ob_timestamp :: "('f, 'buf, 'tab, 'v, 'tv, 'e, 'opts) fb_access \<Rightarrow> 'tab table_struct \<Rightarrow> (unit, 'f) outcome option" where
  "ob_timestamp acc = get_or acc F64T of_F64 ob_VT_TIMESTAMP (F64 (acc_zero acc))"

definition ob_asks :: "('f, 'buf, 'tab, 'v, 'tv, 'e, 'opts) fb_access \<Rightarrow> 'tab table_struct \<Rightarrow> (unit, bytes list option) outcome option" where
  "ob_asks acc = get_opt acc LevelsT of_Levels ob_VT_ASKS"

definition ob_bids :: "('f, 'buf, 'tab, 'v, 'tv, 'e, 'opts) fb_access \<Rightarrow> 'tab table_struct \<Rightarrow> (unit, bytes list option) outcome option" where
  "ob_bids acc = get_opt acc LevelsT of_Levels ob_VT_BIDS"

definition ob_run_verifier :: "('f, 'buf, 'tab, 'v, 'tv, 'e, 'opts) fb_access \<Rightarrow> 'v \<Rightarrow> nat \<Rightarrow> ('e, 'v) outcome" where
  "ob_run_verifier acc v pos =
     and_then (acc_visit_table acc v pos) (\<lambda>t.
     and_then (acc_visit_field acc F64T ''timestamp'' ob_VT_TIMESTAMP False t) (\<lambda>t.
     and_then (acc_visit_field acc LevelsT ''asks'' ob_VT_ASKS False t) (\<lambda>t.
     and_then (acc_visit_field acc LevelsT ''bids'' ob_VT_BIDS False t) (\<lambda>t.
     Ok (acc_finish acc t)))))"

record ('f, 'o) order_book_args =
  oba_timestamp :: 'f
  oba_asks :: "'o option"
  oba_bids :: "'o option"

definition order_book_args_default :: "'f \<Rightarrow> ('f, 'o) order_book_args" where
  "order_book_args_default zero = \<lparr>oba_timestamp = zero, oba_asks = None, oba_bids = None\<rparr>"

definition ob_add_timestamp :: "('f, 'b, 's, 'o) fb_builder \<Rightarrow> 'f \<Rightarrow> ('b, 's) table_builder \<Rightarrow> ('b, 's) table_builder" where
  "ob_add_timestamp fb x tb = tb\<lparr>tb_fbb := fb_push_slot fb ob_VT_TIMESTAMP (F64 x) (F64 (fb_zero fb)) (tb_fbb tb)\<rparr>"

definition ob_add_asks :: "('f, 'b, 's, 'o) fb_builder \<Rightarrow> 'o \<Rightarrow> ('b, 's) table_builder \<Rightarrow> ('b, 's) table_builder" where
  "ob_add_asks fb asks tb = tb\<lparr>tb_fbb := fb_push_slot_always fb ob_VT_ASKS asks (tb_fbb tb)\<rparr>"

definition ob_add_bids :: "('f, 'b, 's, 'o) fb_builder \<Rightarrow> 'o \<Rightarrow> ('b, 's) table_builder \<Rightarrow> ('b, 's) table_builder" where
  "ob_add_bids fb bids tb = tb\<lparr>tb_fbb := fb_push_slot_always fb ob_VT_BIDS bids (tb_fbb tb)\<rparr>"

definition order_book_create :: "('f, 'b, 's, 'o) fb_builder \<Rightarrow> ('f, 'o) order_book_args \<Rightarrow> 'b \<Rightarrow> 'o \<times> 'b" where
  "order_book_create fb args fbb =
     (let b = builder_new fb fbb;
          b = ob_add_timestamp fb (oba_timestamp args) b;
          b = (case oba_bids args of Some x \<Rightarrow> ob_add_bids fb x b | None \<Rightarrow> b);
          b = (case oba_asks args of Some x \<Rightarrow> ob_add_asks fb x b | None \<Rightarrow> b)
      in builder_finish fb b)"

definition root_as_order_book_snapshot :: "('f, 'buf, 'tab, 'v, 'tv, 'e, 'opts) fb_access \<Rightarrow> 'buf \<Rightarrow> ('e, 'tab table_struct) outcome" where
  "root_as_order_book_snapshot acc buf = acc_root acc (ob_run_verifier acc) (ob_follow acc) buf"

definition size_prefixed_root_as_order_book_snapshot ::
  "('f, 'buf, 'tab, 'v, 'tv, 'e, 'opts) fb_access \<Rightarrow> 'buf \<Rightarrow> ('e, 'tab table_struct) outcome" where
  "size_prefixed_root_as_order_book_snapshot acc buf = acc_size_prefixed_root acc (ob_run_verifier acc) (ob_follow acc) buf"

definition root_as_order_book_snapshot_with_opts ::
  "('f, 'buf, 'tab, 'v, 'tv, 'e, 'opts) fb_access \<Rightarrow> 'opts \<Rightarrow> 'buf \<Rightarrow> ('e, 'tab table_struct) outcome" where
  "root_as_order_book_snapshot_with_opts acc opts buf = acc_root_with_opts acc (ob_run_verifier acc) (ob_follow acc) opts buf"

definition size_prefixed_root_as_order_book_snapshot_with_opts ::
  "('f, 'buf, 'tab, 'v, 'tv, 'e, 'opts) fb_access \<Rightarrow> 'opts \<Rightarrow> 'buf \<Rightarrow> ('e, 'tab table_struct) outcome" where
  "size_prefixed_root_as_order_book_snapshot_with_opts acc opts buf =
     acc_size_prefixed_root_with_opts acc (ob_run_verifier acc) (ob_follow acc) opts buf"

definition root_as_order_book_snapshot_unchecked :: "('f, 'buf, 'tab, 'v, 'tv, 'e, 'opts) fb_access \<Rightarrow> 'buf \<Rightarrow> 'tab table_struct" where
  "root_as_order_book_snapshot_unchecked acc buf = acc_root_unchecked acc (ob_follow acc) buf"

definition size_prefixed_root_as_order_book_snapshot_unchecked ::
  "('f, 'buf, 'tab, 'v, 'tv, 'e, 'opts) fb_access \<Rightarrow> 'buf \<Rightarrow> 'tab table_struct" where
  "size_prefixed_root_as_order_book_snapshot_unchecked acc buf = acc_size_prefixed_root_unchecked acc (ob_follow acc) buf"

definition finish_order_book_snapshot_buffer :: "('f, 'b, 's, 'o) fb_builder \<Rightarrow> 'o \<Rightarrow> 'b \<Rightarrow> 'b" where
  "finish_order_book_snapshot_buffer fb root fbb = fb_finish fb root fbb"

definition finish_size_prefixed_order_book_snapshot_buffer :: "('f, 'b, 's, 'o) fb_builder \<Rightarrow> 'o \<Rightarrow> 'b \<Rightarrow> 'b" where
  "finish_size_prefixed_order_book_snapshot_buffer fb root fbb = fb_finish_size_prefixed fb root fbb"

section \<open>Telemetry events\<close>

definition te_VT_MESSAGE :: voffset where "te_VT_MESSAGE = 4"
definition te_VT_TIMESTAMP :: voffset where "te_VT_TIMESTAMP = 6"

lemmas te_slots = te_VT_MESSAGE_def te_VT_TIMESTAMP_def

definition te_follow :: "('f, 'buf, 'tab, 'v, 'tv, 'e, 'opts) fb_access \<Rightarrow> 'buf \<Rightarrow> nat \<Rightarrow> 'tab table_struct" where
  "te_follow acc buf loc = \<lparr>tab_of = acc_table_new acc buf loc\<rparr>"

definition te_init_from_table :: "'tab \<Rightarrow> 'tab table_struct" where
  "te_init_from_table table = \<lparr>tab_of = table\<rparr>"

definition te_message :: "('f, 'buf, 'tab, 'v, 'tv, 'e, 'opts) fb_access \<Rightarrow> 'tab table_struct \<Rightarrow> (unit, string option) outcome option" where
  "te_message acc = get_opt acc StrT of_Str te_VT_MESSAGE"

definition te_timestamp :: "('f, 'buf, 'tab, 'v, 'tv, 'e, 'opts) fb_access \<Rightarrow> 'tab table_struct \<Rightarrow> (unit, u64) outcome option" where
  "te_timestamp acc = get_or acc U64T of_U64 te_VT_TIMESTAMP (U64 0)"

definition te_run_verifier :: "('f, 'buf, 'tab, 'v, 'tv, 'e, 'opts) fb_access \<Rightarrow> 'v \<Rightarrow> nat \<Rightarrow> ('e, 'v) outcome" where
  "te_run_verifier acc v pos =
     and_then (acc_visit_table acc v pos) (\<lambda>t.
     and_then (acc_visit_field acc StrT ''message'' te_VT_MESSAGE False t) (\<lambda>t.
     and_then (acc_visit_field acc U64T ''timestamp'' te_VT_TIMESTAMP False t) (\<lambda>t.
     Ok (acc_finish acc t))))"

record 'o telemetry_event_args =
  tea_message :: "'o option"
  tea_timestamp :: u64

definition telemetry_event_args_default :: "'o telemetry_event_args" where
  "telemetry_event_args_default = \<lparr>tea_message = None, tea_timestamp = 0\<rparr>"

definition te_add_message :: "('f, 'b, 's, 'o) fb_builder \<Rightarrow> 'o \<Rightarrow> ('b, 's) table_builder \<Rightarrow> ('b, 's) table_builder" where
  "te_add_message fb message tb = tb\<lparr>tb_fbb := fb_push_slot_always fb te_VT_MESSAGE message (tb_fbb tb)\<rparr>"

definition te_add_timestamp :: "('f, 'b, 's, 'o) fb_builder \<Rightarrow> u64 \<Rightarrow> ('b, 's) table_builder \<Rightarrow> ('b, 's) table_builder" where
  "te_add_timestamp fb x tb = tb\<lparr>tb_fbb := fb_push_slot fb te_VT_TIMESTAMP (U64 x) (U64 0) (tb_fbb tb)\<rparr>"

definition telemetry_event_create :: "('f, 'b, 's, 'o) fb_builder \<Rightarrow> 'o telemetry_event_args \<Rightarrow> 'b \<Rightarrow> 'o \<times> 'b" where
  "telemetry_event_create fb args fbb =
     (let b = builder_new fb fbb;
          b = te_add_timestamp fb (tea_timestamp args) b;
          b = (case tea_message args of Some x \<Rightarrow> te_add_message fb x b | None \<Rightarrow> b)
      in builder_finish fb b)"

definition root_as_telemetry_event :: "('f, 'buf, 'tab, 'v, 'tv, 'e, 'opts) fb_access \<Rightarrow> 'buf \<Rightarrow> ('e, 'tab table_struct) outcome" where
  "root_as_telemetry_event acc buf = acc_root acc (te_run_verifier acc) (te_follow acc) buf"

definition size_prefixed_root_as_telemetry_event ::
  "('f, 'buf, 'tab, 'v, 'tv, 'e, 'opts) fb_access \<Rightarrow> 'buf \<Rightarrow> ('e, 'tab table_struct) outcome" where
  "size_prefixed_root_as_telemetry_event acc buf = acc_size_prefixed_root acc (te_run_verifier acc) (te_follow acc) buf"

definition root_as_telemetry_event_with_opts ::
  "('f, 'buf, 'tab, 'v, 'tv, 'e, 'opts) fb_access \<Rightarrow> 'opts \<Rightarrow> 'buf \<Rightarrow> ('e, 'tab table_struct) outcome" where
  "root_as_telemetry_event_with_opts acc opts buf = acc_root_with_opts acc (te_run_verifier acc) (te_follow acc) opts buf"

definition size_prefixed_root_as_telemetry_event_with_opts ::
  "('f, 'buf, 'tab, 'v, 'tv, 'e, 'opts) fb_access \<Rightarrow> 'opts \<Rightarrow> 'buf \<Rightarrow> ('e, 'tab table_struct) outcome" where
  "size_prefixed_root_as_telemetry_event_with_opts acc opts buf =
     acc_size_prefixed_root_with_opts acc (te_run_verifier acc) (te_follow acc) opts buf"

definition root_as_telemetry_event_unchecked :: "('f, 'buf, 'tab, 'v, 'tv, 'e, 'opts) fb_access \<Rightarrow> 'buf \<Rightarrow> 'tab table_struct" where
  "root_as_telemetry_event_unchecked acc buf = acc_root_unchecked acc (te_follow acc) buf"

definition size_prefixed_root_as_telemetry_event_unchecked ::
  "('f, 'buf, 'tab, 'v, 'tv, 'e, 'opts) fb_access \<Rightarrow> 'buf \<Rightarrow> 'tab table_struct" where
  "size_prefixed_root_as_telemetry_event_unchecked acc buf = acc_size_prefixed_root_unchecked acc (te_follow acc) buf"

definition finish_telemetry_event_buffer :: "('f, 'b, 's, 'o) fb_builder \<Rightarrow> 'o \<Rightarrow> 'b \<Rightarrow> 'b" where
  "finish_telemetry_event_buffer fb root fbb = fb_finish fb root fbb"

definition finish_size_prefixed_telemetry_event_buffer :: "('f, 'b, 's, 'o) fb_builder \<Rightarrow> 'o \<Rightarrow> 'b \<Rightarrow> 'b" where
  "finish_size_prefixed_telemetry_event_buffer fb root fbb = fb_finish_size_prefixed fb root fbb"

section \<open>Verified tables\<close>

text \<open>
  The documented side of the crate. A slot is readable at a type when \<^verbatim>\<open>Table::get\<close> may be called
  there: the result is of the type, or the default. The checked entry points return a table only where its
  verifier has accepted it. \<open>buffer\<close> is what a verifier looks at and \<open>place\<close> the table it is visiting, which
  visiting a field does not change. That an accepted field is readable is not assumed: the generated code
  warns that verification \<^verbatim>\<open>may not catch every error\<close>. \<open>missed\<close> is such an error: the verifier has
  accepted the slot of the table at the type, and the slot is not readable there.
\<close>

definition has_type :: "'f field_value \<Rightarrow> field_type \<Rightarrow> bool" where
  "has_type x ty \<longleftrightarrow> type_of x = ty \<and> (case x of Levels ls \<Rightarrow> list_all (\<lambda>l. length l = 16) ls | _ \<Rightarrow> True)"

definition readable :: "('f, 'buf, 'tab, 'v, 'tv, 'e, 'opts) fb_access \<Rightarrow> 'tab \<Rightarrow> field_type \<Rightarrow> voffset \<Rightarrow> bool" where
  "readable acc t ty vt \<longleftrightarrow>
     (\<forall>d. case acc_get acc t ty vt d of
        None \<Rightarrow> False
      | Some r \<Rightarrow> r = d \<or> (\<exists>x. r = Some x \<and> has_type x ty))"

definition visited :: "('f, 'buf, 'tab, 'v, 'tv, 'e, 'opts) fb_access \<Rightarrow> ('tv \<Rightarrow> 'tab) \<Rightarrow> 'tab \<Rightarrow> field_type \<Rightarrow> voffset \<Rightarrow> bool" where
  "visited acc place t ty vt \<longleftrightarrow>
     (\<exists>name req tv tv'. place tv = t \<and> acc_visit_field acc ty name vt req tv = Ok tv')"

definition missed :: "('f, 'buf, 'tab, 'v, 'tv, 'e, 'opts) fb_access \<Rightarrow> ('tv \<Rightarrow> 'tab) \<Rightarrow> 'tab \<Rightarrow> field_type \<Rightarrow> voffset \<Rightarrow> bool" where
  "missed acc place t ty vt \<longleftrightarrow> visited acc place t ty vt \<and> \<not> readable acc t ty vt"

definition entered :: "('v \<Rightarrow> 'buf) \<Rightarrow> ('v \<Rightarrow> nat \<Rightarrow> ('e, 'v) outcome) \<Rightarrow> ('buf \<Rightarrow> nat \<Rightarrow> 't) \<Rightarrow> 'buf \<Rightarrow> nat \<Rightarrow> 't \<Rightarrow> bool" where
  "entered buffer verify follow buf pos t \<longleftrightarrow> (\<exists>v v'. buffer v = buf \<and> verify v pos = Ok v') \<and> t = follow buf pos"

definition access_contract :: "('f, 'buf, 'tab, 'v, 'tv, 'e, 'opts) fb_access \<Rightarrow> ('v \<Rightarrow> 'buf) \<Rightarrow> ('tv \<Rightarrow> 'tab) \<Rightarrow>
    ('buf \<Rightarrow> nat) \<Rightarrow> ('buf \<Rightarrow> nat) \<Rightarrow> bool" where
  "access_contract acc buffer place root_pos prefixed_pos \<longleftrightarrow>
     (\<forall>v pos tv. acc_visit_table acc v pos = Ok tv \<longrightarrow> place tv = acc_table_new acc (buffer v) pos) \<and>
     (\<forall>ty name vt req tv tv'. acc_visit_field acc ty name vt req tv = Ok tv' \<longrightarrow> place tv' = place tv) \<and>
     (\<forall>verify follow buf t. acc_root acc verify follow buf = Ok t \<longrightarrow>
        entered buffer verify follow buf (root_pos buf) t) \<and>
     (\<forall>verify follow opts buf t. acc_root_with_opts acc verify follow opts buf = Ok t \<longrightarrow>
        entered buffer verify follow buf (root_pos buf) t) \<and>
     (\<forall>verify follow buf t. acc_size_prefixed_root acc verify follow buf = Ok t \<longrightarrow>
        entered buffer verify follow buf (prefixed_pos buf) t) \<and>
     (\<forall>verify follow opts buf t. acc_size_prefixed_root_with_opts acc verify follow opts buf = Ok t \<longrightarrow>
        entered buffer verify follow buf (prefixed_pos buf) t) \<and>
     (\<forall>follow buf. acc_root_unchecked acc follow buf = follow buf (root_pos buf)) \<and>
     (\<forall>follow buf. acc_size_prefixed_root_unchecked acc follow buf = follow buf (prefixed_pos buf))"

lemma readableD:
  assumes "readable acc t ty vt"
  obtains r where "acc_get acc t ty vt d = Some r" and "r = d \<or> (\<exists>x. r = Some x \<and> has_type x ty)"
  using assms by (auto simp: readable_def dest!: spec [of _ d] split: option.splits)

lemma get_or_visited:
  assumes "visited acc place (tab_of t) ty vt" and "type_of d = ty"
  shows "(\<exists>x. get_or acc ty proj vt d t = Some (Ok x)) \<or> missed acc place (tab_of t) ty vt"
proof (cases "readable acc (tab_of t) ty vt")
  case True
  then have "\<exists>x. get_or acc ty proj vt d t = Some (Ok x)"
    by (rule readableD [of acc "tab_of t" ty vt "Some d"]) (use assms(2) in \<open>auto simp: get_or_def has_type_def\<close>)
  then show ?thesis ..
qed (simp add: missed_def assms(1))

lemma get_opt_visited:
  assumes "visited acc place (tab_of t) ty vt"
  shows "(\<exists>x. get_opt acc ty proj vt t = Some (Ok x) \<and> (x = None \<or> (\<exists>y. x = Some (proj y) \<and> has_type y ty))) \<or>
    missed acc place (tab_of t) ty vt"
proof (cases "readable acc (tab_of t) ty vt")
  case True
  then have "\<exists>x. get_opt acc ty proj vt t = Some (Ok x) \<and> (x = None \<or> (\<exists>y. x = Some (proj y) \<and> has_type y ty))"
  proof (rule readableD [of acc "tab_of t" ty vt None])
    fix r assume r: "acc_get acc (tab_of t) ty vt None = Some r" "r = None \<or> (\<exists>x. r = Some x \<and> has_type x ty)"
    then show ?thesis by (cases r) (auto simp: get_opt_def has_type_def)
  qed
  then show ?thesis ..
qed (simp add: missed_def assms)

lemma get_opt_read:
  assumes "visited acc place (tab_of t) ty vt"
  shows "(\<exists>x. get_opt acc ty proj vt t = Some (Ok x)) \<or> missed acc place (tab_of t) ty vt"
  using get_opt_visited [OF assms, of proj] by blast

lemma get_levels_visited:
  assumes "visited acc place (tab_of t) LevelsT vt"
  shows "(\<exists>x. get_opt acc LevelsT of_Levels vt t = Some (Ok x) \<and> (\<forall>ls. x = Some ls \<longrightarrow> list_all (\<lambda>l. length l = 16) ls)) \<or>
    missed acc place (tab_of t) LevelsT vt"
proof -
  have "list_all (\<lambda>l. length l = 16) (of_Levels y)" if "has_type y LevelsT" for y :: "'a field_value"
    using that by (cases y) (simp_all add: has_type_def)
  with get_opt_visited [OF assms, of of_Levels] show ?thesis by fastforce
qed

lemma visited_slots:
  assumes "access_contract acc buffer place root_pos prefixed_pos"
  defines "at v pos \<equiv> acc_table_new acc (buffer v) pos"
  shows "me_run_verifier acc v pos = Ok v' \<Longrightarrow>
      visited acc place (at v pos) F64T me_VT_TIMESTAMP \<and> visited acc place (at v pos) U8T me_VT_EVENT_TYPE \<and>
      visited acc place (at v pos) U64T me_VT_ORDER_ID \<and> visited acc place (at v pos) U32T me_VT_SIZE \<and>
      visited acc place (at v pos) I64T me_VT_PRICE \<and> visited acc place (at v pos) I8T me_VT_DIRECTION"
    and "ob_run_verifier acc v pos = Ok v' \<Longrightarrow>
      visited acc place (at v pos) F64T ob_VT_TIMESTAMP \<and> visited acc place (at v pos) LevelsT ob_VT_ASKS \<and>
      visited acc place (at v pos) LevelsT ob_VT_BIDS"
    and "te_run_verifier acc v pos = Ok v' \<Longrightarrow>
      visited acc place (at v pos) StrT te_VT_MESSAGE \<and> visited acc place (at v pos) U64T te_VT_TIMESTAMP"
proof -
  have table: "\<And>v pos tv. acc_visit_table acc v pos = Ok tv \<Longrightarrow> place tv = at v pos"
    and visit: "\<And>ty name vt req tv tv'. acc_visit_field acc ty name vt req tv = Ok tv' \<Longrightarrow>
      place tv' = place tv \<and> visited acc place (place tv) ty vt"
    using assms by (auto simp: access_contract_def visited_def)
  note run = me_run_verifier_def ob_run_verifier_def te_run_verifier_def and_then_Ok
  show "me_run_verifier acc v pos = Ok v' \<Longrightarrow>
      visited acc place (at v pos) F64T me_VT_TIMESTAMP \<and> visited acc place (at v pos) U8T me_VT_EVENT_TYPE \<and>
      visited acc place (at v pos) U64T me_VT_ORDER_ID \<and> visited acc place (at v pos) U32T me_VT_SIZE \<and>
      visited acc place (at v pos) I64T me_VT_PRICE \<and> visited acc place (at v pos) I8T me_VT_DIRECTION"
    by (auto simp: run dest!: table visit)
  show "ob_run_verifier acc v pos = Ok v' \<Longrightarrow>
      visited acc place (at v pos) F64T ob_VT_TIMESTAMP \<and> visited acc place (at v pos) LevelsT ob_VT_ASKS \<and>
      visited acc place (at v pos) LevelsT ob_VT_BIDS"
    by (auto simp: run dest!: table visit)
  show "te_run_verifier acc v pos = Ok v' \<Longrightarrow>
      visited acc place (at v pos) StrT te_VT_MESSAGE \<and> visited acc place (at v pos) U64T te_VT_TIMESTAMP"
    by (auto simp: run dest!: table visit)
qed

text \<open>What the four checked entry points return has been verified where it is followed to.\<close>

lemma checked_entry:
  assumes "access_contract acc buffer place root_pos prefixed_pos"
    and "acc_root acc verify follow buf = Ok t \<or> acc_root_with_opts acc verify follow opts buf = Ok t \<or>
      acc_size_prefixed_root acc verify follow buf = Ok t \<or> acc_size_prefixed_root_with_opts acc verify follow opts buf = Ok t"
  shows "\<exists>v pos v'. buffer v = buf \<and> verify v pos = Ok v' \<and> t = follow buf pos"
proof -
  from assms have "entered buffer verify follow buf (root_pos buf) t \<or> entered buffer verify follow buf (prefixed_pos buf) t"
    by (auto simp: access_contract_def)
  then show ?thesis by (auto simp: entered_def)
qed

section \<open>What a builder leaves\<close>

text \<open>
  A builder is idle, inside a table, or finished; it holds the slots of the open table and the objects
  that offsets point to. Offsets stay valid. A pushed value that equals the default may be left out;
  equality is that of the type, so that of floats is the argument \<open>feq\<close>.
\<close>

datatype 's phase = Idle | Open 's | Finished

datatype ('f, 'o) slot = Val "'f field_value" | Ref 'o

datatype ('f, 'o) object = Table "voffset \<Rightarrow> ('f, 'o) slot option" | Leaf "'f field_value"

record ('f, 'b, 's, 'o) builder_view =
  bv_phase :: "'b \<Rightarrow> 's phase"
  bv_slots :: "'b \<Rightarrow> voffset \<Rightarrow> ('f, 'o) slot option"
  bv_object :: "'b \<Rightarrow> 'o \<Rightarrow> ('f, 'o) object option"

fun same_value :: "('f \<Rightarrow> 'f \<Rightarrow> bool) \<Rightarrow> 'f field_value \<Rightarrow> 'f field_value \<Rightarrow> bool" where
  "same_value feq (F64 x) (F64 y) \<longleftrightarrow> feq x y"
| "same_value feq x y \<longleftrightarrow> x = y"

text \<open>What a slot of a finished table holds.\<close>

fun stored :: "('o \<Rightarrow> ('f, 'o) object option) \<Rightarrow> ('f, 'o) slot option \<Rightarrow> 'f field_value option" where
  "stored objects None = None"
| "stored objects (Some (Val x)) = Some x"
| "stored objects (Some (Ref r)) = (case objects r of Some (Leaf x) \<Rightarrow> Some x | _ \<Rightarrow> None)"

definition reads_back :: "('f, 'buf, 'tab, 'v, 'tv, 'e, 'opts) fb_access \<Rightarrow> 'tab \<Rightarrow> ('o \<Rightarrow> ('f, 'o) object option) \<Rightarrow>
    (voffset \<Rightarrow> ('f, 'o) slot option) \<Rightarrow> bool" where
  "reads_back acc t objects m \<longleftrightarrow>
     (\<forall>ty vt d. (\<forall>slot. m vt = Some slot \<longrightarrow> (\<exists>x. stored objects (Some slot) = Some x \<and> type_of x = ty)) \<longrightarrow>
        acc_get acc t ty vt d = Some (case stored objects (m vt) of None \<Rightarrow> d | Some x \<Rightarrow> Some x))"

definition builder_contract :: "('f, 'b, 's, 'o) fb_builder \<Rightarrow> ('f, 'buf, 'tab, 'v, 'tv, 'e, 'opts) fb_access \<Rightarrow>
    ('f \<Rightarrow> 'f \<Rightarrow> bool) \<Rightarrow> ('f, 'b, 's, 'o) builder_view \<Rightarrow> ('b \<Rightarrow> 'buf) \<Rightarrow> ('buf \<Rightarrow> nat) \<Rightarrow> ('buf \<Rightarrow> nat) \<Rightarrow> bool" where
  "builder_contract fb acc feq view finished root_pos prefixed_pos \<longleftrightarrow>
     (\<forall>b s b'. bv_phase view b = Idle \<longrightarrow> fb_start_table fb b = (s, b') \<longrightarrow>
        bv_phase view b' = Open s \<and> bv_slots view b' = Map.empty \<and> bv_object view b \<subseteq>\<^sub>m bv_object view b') \<and>
     (\<forall>b s vt x d. bv_phase view b = Open s \<longrightarrow> bv_slots view b vt = None \<longrightarrow>
        (let b' = fb_push_slot fb vt x d b in bv_phase view b' = Open s \<and> bv_object view b \<subseteq>\<^sub>m bv_object view b' \<and>
           (bv_slots view b' = (bv_slots view b)(vt \<mapsto> Val x) \<or> same_value feq x d \<and> bv_slots view b' = bv_slots view b))) \<and>
     (\<forall>b s vt r. bv_phase view b = Open s \<longrightarrow> bv_slots view b vt = None \<longrightarrow>
        (let b' = fb_push_slot_always fb vt r b in bv_phase view b' = Open s \<and> bv_object view b \<subseteq>\<^sub>m bv_object view b' \<and>
           bv_slots view b' = (bv_slots view b)(vt \<mapsto> Ref r))) \<and>
     (\<forall>b s r b'. bv_phase view b = Open s \<longrightarrow> fb_end_table fb s b = (r, b') \<longrightarrow>
        bv_phase view b' = Idle \<and> bv_object view b \<subseteq>\<^sub>m bv_object view b' \<and>
        bv_object view b' r = Some (Table (bv_slots view b))) \<and>
     (\<forall>b r m. bv_phase view b = Idle \<longrightarrow> bv_object view b r = Some (Table m) \<longrightarrow>
        (let buf = finished (fb_finish fb r b) in
           reads_back acc (acc_table_new acc buf (root_pos buf)) (bv_object view b) m)) \<and>
     (\<forall>b r m. bv_phase view b = Idle \<longrightarrow> bv_object view b r = Some (Table m) \<longrightarrow>
        (let buf = finished (fb_finish_size_prefixed fb r b) in
           reads_back acc (acc_table_new acc buf (prefixed_pos buf)) (bv_object view b) m))"


text \<open>A table is built by a list of pushes.\<close>

datatype ('f, 'o) push = Push voffset "'f field_value" "'f field_value" | Always voffset 'o

fun push_slot_of :: "('f, 'o) push \<Rightarrow> voffset" where
  "push_slot_of (Push vt x d) = vt"
| "push_slot_of (Always vt r) = vt"

fun run_push :: "('f, 'b, 's, 'o) fb_builder \<Rightarrow> ('f, 'o) push \<Rightarrow> 'b \<Rightarrow> 'b" where
  "run_push fb (Push vt x d) b = fb_push_slot fb vt x d b"
| "run_push fb (Always vt r) b = fb_push_slot_always fb vt r b"

definition build_table :: "('f, 'b, 's, 'o) fb_builder \<Rightarrow> ('f, 'o) push list \<Rightarrow> 'b \<Rightarrow> 'o \<times> 'b" where
  "build_table fb ops b = (let (s, b') = fb_start_table fb b in fb_end_table fb s (fold (run_push fb) ops b'))"

fun pushed :: "('f \<Rightarrow> 'f \<Rightarrow> bool) \<Rightarrow> (voffset \<Rightarrow> ('f, 'o) slot option) \<Rightarrow> ('f, 'o) push \<Rightarrow> bool" where
  "pushed feq m (Push vt x d) \<longleftrightarrow> m vt = Some (Val x) \<or> same_value feq x d \<and> m vt = None"
| "pushed feq m (Always vt r) \<longleftrightarrow> m vt = Some (Ref r)"

definition laid_out :: "('f \<Rightarrow> 'f \<Rightarrow> bool) \<Rightarrow> (voffset \<Rightarrow> ('f, 'o) slot option) \<Rightarrow> ('f, 'o) push list \<Rightarrow> bool" where
  "laid_out feq m ops \<longleftrightarrow> list_all (pushed feq m) ops \<and> (\<forall>vt. vt \<notin> push_slot_of ` set ops \<longrightarrow> m vt = None)"

lemma pushed_cong: "m (push_slot_of a) = m' (push_slot_of a) \<Longrightarrow> pushed feq m a = pushed feq m' a"
  by (cases a) simp_all

lemma run_push_lays_out:
  assumes "builder_contract fb acc feq view finished root_pos prefixed_pos"
    and "bv_phase view b = Open s" and "bv_slots view b (push_slot_of a) = None"
  shows "bv_phase view (run_push fb a b) = Open s \<and> bv_object view b \<subseteq>\<^sub>m bv_object view (run_push fb a b) \<and>
    pushed feq (bv_slots view (run_push fb a b)) a \<and>
    (\<forall>vt. vt \<noteq> push_slot_of a \<longrightarrow> bv_slots view (run_push fb a b) vt = bv_slots view b vt)"
proof (cases a)
  case (Push vt x d)
  from assms(1) [unfolded builder_contract_def Let_def, THEN conjunct2, THEN conjunct1, rule_format, OF assms(2), of vt x d]
    assms(3) Push show ?thesis by auto
next
  case (Always vt r)
  from assms(1) [unfolded builder_contract_def Let_def, THEN conjunct2, THEN conjunct2, THEN conjunct1, rule_format,
      OF assms(2), of vt r] assms(3) Always show ?thesis by auto
qed

lemma run_pushes_lay_out:
  assumes "builder_contract fb acc feq view finished root_pos prefixed_pos"
  shows "bv_phase view b = Open s \<Longrightarrow> distinct (map push_slot_of ops) \<Longrightarrow>
    \<forall>a \<in> set ops. bv_slots view b (push_slot_of a) = None \<Longrightarrow> b' = fold (run_push fb) ops b \<Longrightarrow>
    bv_phase view b' = Open s \<and> bv_object view b \<subseteq>\<^sub>m bv_object view b' \<and> list_all (pushed feq (bv_slots view b')) ops \<and>
    (\<forall>vt. vt \<notin> push_slot_of ` set ops \<longrightarrow> bv_slots view b' vt = bv_slots view b vt)"
proof (induction ops arbitrary: b)
  case (Cons a ops)
  let ?b = "run_push fb a b"
  from run_push_lays_out [OF assms Cons.prems(1), of a] Cons.prems(3)
  have step: "bv_phase view ?b = Open s" "bv_object view b \<subseteq>\<^sub>m bv_object view ?b" "pushed feq (bv_slots view ?b) a"
    "\<And>vt. vt \<noteq> push_slot_of a \<Longrightarrow> bv_slots view ?b vt = bv_slots view b vt" by auto
  have "\<forall>a' \<in> set ops. bv_slots view ?b (push_slot_of a') = None"
    using Cons.prems(2,3) step(4) by (metis distinct.simps(2) image_eqI list.set_intros(2) list.set_map list.simps(9))
  with Cons.IH [OF step(1)] Cons.prems(2,4) have rest: "bv_phase view b' = Open s"
    "bv_object view ?b \<subseteq>\<^sub>m bv_object view b'" "list_all (pushed feq (bv_slots view b')) ops"
    "\<And>vt. vt \<notin> push_slot_of ` set ops \<Longrightarrow> bv_slots view b' vt = bv_slots view ?b vt" by auto
  have "pushed feq (bv_slots view b') a"
    using step(3) rest(4) [of "push_slot_of a"] Cons.prems(2) pushed_cong [of "bv_slots view b'" a "bv_slots view ?b"] by simp
  with rest step show ?case by (auto intro: map_le_trans)
qed simp

lemma build_table_lays_out:
  assumes c: "builder_contract fb acc feq view finished root_pos prefixed_pos" and "bv_phase view b = Idle"
    and "distinct (map push_slot_of ops)" and "build_table fb ops b = (r, b')"
  obtains m where "bv_phase view b' = Idle" and "bv_object view b \<subseteq>\<^sub>m bv_object view b'"
    and "bv_object view b' r = Some (Table m)" and "laid_out feq m ops"
proof -
  obtain s b1 where start: "fb_start_table fb b = (s, b1)" by (cases "fb_start_table fb b")
  from c [unfolded builder_contract_def, THEN conjunct1, rule_format, OF assms(2) start]
  have b1: "bv_phase view b1 = Open s" "bv_slots view b1 = Map.empty" "bv_object view b \<subseteq>\<^sub>m bv_object view b1" by auto
  define b2 where "b2 = fold (run_push fb) ops b1"
  from run_pushes_lay_out [OF c b1(1) assms(3) _ b2_def] b1(2)
  have b2: "bv_phase view b2 = Open s" "bv_object view b1 \<subseteq>\<^sub>m bv_object view b2" "laid_out feq (bv_slots view b2) ops"
    by (auto simp: laid_out_def)
  have "fb_end_table fb s b2 = (r, b')" using assms(4) start by (simp add: build_table_def b2_def)
  with c b2(1) have "bv_phase view b' = Idle" "bv_object view b2 \<subseteq>\<^sub>m bv_object view b'"
    "bv_object view b' r = Some (Table (bv_slots view b2))" unfolding builder_contract_def by blast+
  with that b1(3) b2 show ?thesis by (meson map_le_trans)
qed

lemma get_or_laid_out:
  assumes "reads_back acc (tab_of t) objects m" and "laid_out feq m ops" and "Push vt x d \<in> set ops"
    and "type_of x = ty" and "type_of d = ty"
  shows "get_or acc ty proj vt d t = Some (Ok (proj x)) \<or> same_value feq x d \<and> get_or acc ty proj vt d t = Some (Ok (proj d))"
proof -
  from assms(2,3) have "pushed feq m (Push vt x d)" by (auto simp: laid_out_def list_all_iff)
  with assms(1,4,5) show ?thesis
    by (auto simp: reads_back_def get_or_def)
qed

lemma same_value_exact: "type_of x \<noteq> F64T \<Longrightarrow> same_value feq x d \<Longrightarrow> x = d"
  by (cases x; cases d) auto

text \<open>Only floats can be equal and different.\<close>

lemma get_or_exact:
  assumes "reads_back acc (tab_of t) objects m" and "laid_out feq m ops" and "Push vt x d \<in> set ops"
    and "type_of x = ty" and "type_of d = ty" and "ty \<noteq> F64T"
  shows "get_or acc ty proj vt d t = Some (Ok (proj x))"
  using get_or_laid_out [OF assms(1-5)] same_value_exact [of x feq d] assms(4,6) by auto

lemma get_opt_laid_out:
  assumes "reads_back acc (tab_of t) objects m" and "laid_out feq m ops"
  shows "Always vt r \<in> set ops \<Longrightarrow> objects r = Some (Leaf x) \<Longrightarrow> type_of x = ty \<Longrightarrow>
      get_opt acc ty proj vt t = Some (Ok (Some (proj x)))"
    and "vt \<notin> push_slot_of ` set ops \<Longrightarrow> get_opt acc ty proj vt t = Some (Ok None)"
proof -
  assume "Always vt r \<in> set ops" "objects r = Some (Leaf x)" "type_of x = ty"
  moreover from this assms(2) have "pushed feq m (Always vt r)" by (auto simp: laid_out_def list_all_iff)
  ultimately show "get_opt acc ty proj vt t = Some (Ok (Some (proj x)))"
    using assms(1) by (simp add: reads_back_def get_opt_def)
next
  assume "vt \<notin> push_slot_of ` set ops"
  with assms show "get_opt acc ty proj vt t = Some (Ok None)"
    by (simp add: laid_out_def reads_back_def get_opt_def)
qed


lemma built_table_reads_back:
  assumes c: "builder_contract fb acc feq view finished root_pos prefixed_pos" and "bv_phase view b = Idle"
    and "distinct (map push_slot_of ops)" and "build_table fb ops b = (r, b')"
    and "buf = finished (fb_finish fb r b') \<and> tab_of t = acc_table_new acc buf (root_pos buf) \<or>
      buf = finished (fb_finish_size_prefixed fb r b') \<and> tab_of t = acc_table_new acc buf (prefixed_pos buf)"
  obtains m where "reads_back acc (tab_of t) (bv_object view b') m" and "laid_out feq m ops"
    and "bv_object view b \<subseteq>\<^sub>m bv_object view b'"
proof (rule build_table_lays_out [OF assms(1-4)])
  fix m assume m: "bv_phase view b' = Idle" "bv_object view b \<subseteq>\<^sub>m bv_object view b'"
    "bv_object view b' r = Some (Table m)" "laid_out feq m ops"
  from c m(1,3) have "reads_back acc (acc_table_new acc (finished (fb_finish fb r b')) (root_pos (finished (fb_finish fb r b'))))
      (bv_object view b') m \<and>
    reads_back acc (acc_table_new acc (finished (fb_finish_size_prefixed fb r b'))
      (prefixed_pos (finished (fb_finish_size_prefixed fb r b')))) (bv_object view b') m"
    unfolding builder_contract_def Let_def by blast
  with assms(5) that m(2,4) show ?thesis by auto
qed

lemma entered_follow: "entered buffer verify follow buf pos t \<Longrightarrow> t = follow buf pos"
  by (simp add: entered_def)

lemmas create_defs = message_event_create_def order_book_create_def telemetry_event_create_def builder_new_def
  builder_finish_def build_table_def me_add_timestamp_def me_add_event_type_def me_add_order_id_def me_add_size_def
  me_add_price_def me_add_direction_def ob_add_timestamp_def ob_add_asks_def ob_add_bids_def te_add_message_def
  te_add_timestamp_def

lemma message_event_create_pushes:
  "message_event_create fb args = build_table fb
     [Push me_VT_PRICE (I64 (mea_price args)) (I64 0), Push me_VT_ORDER_ID (U64 (mea_order_id args)) (U64 0),
      Push me_VT_TIMESTAMP (F64 (mea_timestamp args)) (F64 (fb_zero fb)), Push me_VT_SIZE (U32 (mea_size args)) (U32 0),
      Push me_VT_DIRECTION (I8 (mea_direction args)) (I8 0), Push me_VT_EVENT_TYPE (U8 (mea_event_type args)) (U8 0)]"
  by (simp add: create_defs fun_eq_iff split: prod.split)

lemma order_book_create_pushes:
  "order_book_create fb args = build_table fb
     (Push ob_VT_TIMESTAMP (F64 (oba_timestamp args)) (F64 (fb_zero fb)) #
      (case oba_bids args of Some x \<Rightarrow> [Always ob_VT_BIDS x] | None \<Rightarrow> []) @
      (case oba_asks args of Some x \<Rightarrow> [Always ob_VT_ASKS x] | None \<Rightarrow> []))"
  by (simp add: create_defs fun_eq_iff split: prod.split option.split)

lemma telemetry_event_create_pushes:
  "telemetry_event_create fb args = build_table fb
     (Push te_VT_TIMESTAMP (U64 (tea_timestamp args)) (U64 0) #
      (case tea_message args of Some x \<Rightarrow> [Always te_VT_MESSAGE x] | None \<Rightarrow> []))"
  by (simp add: create_defs fun_eq_iff split: prod.split option.split)

section \<open>Levels\<close>

lemma length_copy_to: "i + length src \<le> length dst \<Longrightarrow> length (copy_to dst i src) = length dst"
  by (simp add: copy_to_def)

lemma level_new_bytes: "level_new p z = le_bytes 8 p @ le_bytes 8 z"
  by (simp add: level_new_def level_set_price_def level_set_size_def copy_to_def)

lemma level_round_trip: "level_price (level_new p z) = p \<and> level_size (level_new p z) = z \<and> length (level_new p z) = 16"
proof -
  have "take_bit 64 p = p" "take_bit 64 z = z" by (rule bit_word_eqI, simp add: bit_simps)+
  then show ?thesis by (simp add: level_new_bytes level_price_def level_size_def from_le_bytes)
qed

text \<open>Every 16 bytes are a level, and setting one number leaves the other.\<close>

lemma level_of_bytes: "length s = 16 \<Longrightarrow> level_new (level_price s) (level_size s) = s"
  using le_bytes_from_le [of "take 8 s", where ?'a = 64] le_bytes_from_le [of "drop 8 s", where ?'a = 64]
  by (simp add: level_new_bytes level_price_def level_size_def)

lemma level_set_price_new: "level_set_price x (level_new p z) = level_new x z"
  and level_set_size_new: "level_set_size x (level_new p z) = level_new p x"
  by (simp_all add: level_new_bytes level_set_price_def level_set_size_def copy_to_def)

lemma level_default_new: "level_default = level_new 0 0"
  by (simp add: level_new_bytes level_default_def eval_nat_numeral)


section \<open>A runtime that keeps the contracts\<close>

text \<open>
  Objects in a list, floats as their 64 bits with the equality of IEEE 754. It is not the layout of the
  crate: it shows that the contracts can hold together.
\<close>

definition f64_nan :: "u64 \<Rightarrow> bool" where
  "f64_nan x \<longleftrightarrow> 0x7FF0000000000000 < take_bit 63 x"

definition f64_eq :: "u64 \<Rightarrow> u64 \<Rightarrow> bool" where
  "f64_eq x y \<longleftrightarrow> \<not> f64_nan x \<and> \<not> f64_nan y \<and> (x = y \<or> take_bit 63 x = 0 \<and> take_bit 63 y = 0)"

type_synonym heap_objects = "(u64, nat) object list"

record heap_builder =
  hb_phase :: "unit phase"
  hb_slots :: "voffset \<Rightarrow> (u64, nat) slot option"
  hb_heap :: heap_objects
  hb_root :: nat

definition heap_at :: "heap_objects \<Rightarrow> nat \<Rightarrow> (u64, nat) object option" where
  "heap_at h r = (if r < length h then Some (h ! r) else None)"

definition heap_fb :: "(u64, heap_builder, unit, nat) fb_builder" where
  "heap_fb = \<lparr>fb_zero = 0,
     fb_start_table = (\<lambda>b. ((), b\<lparr>hb_phase := Open (), hb_slots := (\<lambda>_. None)\<rparr>)),
     fb_push_slot = (\<lambda>vt x d b. if same_value f64_eq x d then b else b\<lparr>hb_slots := (hb_slots b)(vt := Some (Val x))\<rparr>),
     fb_push_slot_always = (\<lambda>vt r b. b\<lparr>hb_slots := (hb_slots b)(vt := Some (Ref r))\<rparr>),
     fb_end_table = (\<lambda>_ b. (length (hb_heap b), b\<lparr>hb_phase := Idle, hb_heap := hb_heap b @ [Table (hb_slots b)]\<rparr>)),
     fb_finish = (\<lambda>r b. b\<lparr>hb_phase := Finished, hb_root := r\<rparr>),
     fb_finish_size_prefixed = (\<lambda>r b. b\<lparr>hb_phase := Finished, hb_root := r\<rparr>)\<rparr>"

definition heap_view :: "(u64, heap_builder, unit, nat) builder_view" where
  "heap_view = \<lparr>bv_phase = hb_phase, bv_slots = hb_slots, bv_object = (\<lambda>b. heap_at (hb_heap b))\<rparr>"

definition heap_get :: "heap_objects \<times> nat \<Rightarrow> field_type \<Rightarrow> voffset \<Rightarrow> u64 field_value option \<Rightarrow> u64 field_value option option" where
  "heap_get tab ty vt d =
     (case heap_at (fst tab) (snd tab) of
        Some (Table m) \<Rightarrow>
          (case m vt of
             None \<Rightarrow> Some d
           | Some s \<Rightarrow>
               (case stored (heap_at (fst tab)) (Some s) of
                  Some x \<Rightarrow> if type_of x = ty then Some (Some x) else None
                | None \<Rightarrow> None))
      | _ \<Rightarrow> None)"

definition heap_visit :: "field_type \<Rightarrow> string \<Rightarrow> voffset \<Rightarrow> bool \<Rightarrow> heap_objects \<times> nat \<Rightarrow> (unit, heap_objects \<times> nat) outcome" where
  "heap_visit ty name vt req tv =
     (case heap_get tv ty vt None of
        None \<Rightarrow> Err ()
      | Some None \<Rightarrow> if req then Err () else Ok tv
      | Some (Some x) \<Rightarrow> if has_type x ty then Ok tv else Err ())"

definition heap_root :: "(heap_objects \<times> nat \<Rightarrow> nat \<Rightarrow> (unit, heap_objects \<times> nat) outcome) \<Rightarrow>
    (heap_objects \<times> nat \<Rightarrow> nat \<Rightarrow> (heap_objects \<times> nat) table_struct) \<Rightarrow> heap_objects \<times> nat \<Rightarrow>
    (unit, (heap_objects \<times> nat) table_struct) outcome" where
  "heap_root verify follow buf = map_ok (\<lambda>_. follow buf (snd buf)) (verify buf (snd buf))"

definition heap_acc :: "(u64, heap_objects \<times> nat, heap_objects \<times> nat, heap_objects \<times> nat, heap_objects \<times> nat, unit, unit) fb_access" where
  "heap_acc = \<lparr>acc_zero = 0, acc_table_new = (\<lambda>buf pos. (fst buf, pos)), acc_get = heap_get,
     acc_visit_table = (\<lambda>v pos. case heap_at (fst v) pos of Some (Table _) \<Rightarrow> Ok (fst v, pos) | _ \<Rightarrow> Err ()),
     acc_visit_field = heap_visit, acc_finish = id, acc_in_buffer = (\<lambda>_ _ v. Ok v),
     acc_root = heap_root, acc_size_prefixed_root = heap_root,
     acc_root_with_opts = (\<lambda>verify follow _. heap_root verify follow),
     acc_size_prefixed_root_with_opts = (\<lambda>verify follow _. heap_root verify follow),
     acc_root_unchecked = (\<lambda>follow buf. follow buf (snd buf)),
     acc_size_prefixed_root_unchecked = (\<lambda>follow buf. follow buf (snd buf))\<rparr>"

text \<open>The default decides nothing but the result of an absent field.\<close>

lemma heap_get_cases:
  obtains "\<And>d. heap_get tv ty vt d = None" | "\<And>d. heap_get tv ty vt d = Some d"
  | x where "\<And>d. heap_get tv ty vt d = Some (Some x)"
proof (cases "\<exists>m. heap_at (fst tv) (snd tv) = Some (Table m)")
  case False
  then have "\<And>d. heap_get tv ty vt d = None" by (simp add: heap_get_def split: option.split object.split)
  with that show ?thesis by blast
next
  case True
  then obtain m where m: "heap_at (fst tv) (snd tv) = Some (Table m)" by blast
  show ?thesis
  proof (cases "m vt")
    case None
    with m have "\<And>d. heap_get tv ty vt d = Some d" by (simp add: heap_get_def)
    with that show ?thesis by blast
  next
    case (Some s)
    show ?thesis
    proof (cases "\<exists>x. stored (heap_at (fst tv)) (Some s) = Some x \<and> type_of x = ty")
      case True
      then obtain x where "stored (heap_at (fst tv)) (Some s) = Some x" "type_of x = ty" by blast
      with m Some have "\<And>d. heap_get tv ty vt d = Some (Some x)" by (simp add: heap_get_def)
      with that show ?thesis by blast
    next
      case False
      with m Some have "\<And>d. heap_get tv ty vt d = None" by (simp add: heap_get_def split: option.split)
      with that show ?thesis by blast
    qed
  qed
qed

lemma heap_visit_readable:
  assumes "heap_visit ty name vt req tv = Ok tv'"
  shows "tv' = tv \<and> readable heap_acc tv ty vt"
proof (rule heap_get_cases [of tv ty vt])
  assume "\<And>d. heap_get tv ty vt d = None"
  with assms show ?thesis by (simp add: heap_visit_def)
next
  assume "\<And>d. heap_get tv ty vt d = Some d"
  with assms show ?thesis by (simp add: heap_visit_def readable_def heap_acc_def split: if_splits)
next
  fix x assume "\<And>d. heap_get tv ty vt d = Some (Some x)"
  with assms show ?thesis by (simp add: heap_visit_def readable_def heap_acc_def split: if_splits)
qed

lemma heap_root_entered: "heap_root verify follow buf = Ok t \<Longrightarrow> entered id verify follow buf (snd buf) t"
  by (cases "verify buf (snd buf)") (auto simp: heap_root_def entered_def)

lemma heap_access: "access_contract heap_acc id id snd snd"
  unfolding access_contract_def
proof (intro conjI allI impI)
  fix ty name vt req tv tv' assume "acc_visit_field heap_acc ty name vt req tv = Ok tv'"
  then have "heap_visit ty name vt req tv = Ok tv'" by (simp add: heap_acc_def)
  from heap_visit_readable [OF this] show "id tv' = id tv" by simp
next
  fix v pos tv assume "acc_visit_table heap_acc v pos = Ok tv"
  then show "id tv = acc_table_new heap_acc (id v) pos"
    by (simp add: heap_acc_def split: option.splits object.splits)
qed (simp_all add: heap_acc_def heap_root_entered)

text \<open>Its verifier misses nothing.\<close>

lemma heap_misses_nothing: "\<not> missed heap_acc id t ty vt"
proof
  assume "missed heap_acc id t ty vt"
  then obtain name req tv' where "acc_visit_field heap_acc ty name vt req t = Ok tv'" "\<not> readable heap_acc t ty vt"
    by (auto simp: missed_def visited_def)
  with heap_visit_readable [of ty name vt req t tv'] show False by (simp add: heap_acc_def)
qed

lemma heap_at_mono: "heap_at h \<subseteq>\<^sub>m heap_at (h @ h')"
  by (auto simp: map_le_def heap_at_def nth_append)

lemma heap_reads_back:
  assumes "heap_at h r = Some (Table m)"
  shows "reads_back heap_acc (h, r) (heap_at h) m"
  unfolding reads_back_def
proof (intro allI impI)
  fix ty vt d assume typed: "\<forall>slot. m vt = Some slot \<longrightarrow> (\<exists>x. stored (heap_at h) (Some slot) = Some x \<and> type_of x = ty)"
  show "acc_get heap_acc (h, r) ty vt d = Some (case stored (heap_at h) (m vt) of None \<Rightarrow> d | Some x \<Rightarrow> Some x)"
  proof (cases "m vt")
    case (Some slot)
    with typed obtain x where "stored (heap_at h) (Some slot) = Some x" "type_of x = ty" by blast
    with Some assms show ?thesis by (simp add: heap_acc_def heap_get_def)
  qed (use assms in \<open>simp add: heap_acc_def heap_get_def\<close>)
qed

lemma heap_builder: "builder_contract heap_fb heap_acc f64_eq heap_view (\<lambda>b. (hb_heap b, hb_root b)) snd snd"
  unfolding builder_contract_def Let_def
proof (intro conjI allI impI)
  fix b :: heap_builder and s r b' assume "fb_end_table heap_fb s b = (r, b')"
  then have "r = length (hb_heap b)" "b' = b\<lparr>hb_phase := Idle, hb_heap := hb_heap b @ [Table (hb_slots b)]\<rparr>"
    by (simp_all add: heap_fb_def)
  then show "bv_phase heap_view b' = Idle" "bv_object heap_view b \<subseteq>\<^sub>m bv_object heap_view b'"
    "bv_object heap_view b' r = Some (Table (bv_slots heap_view b))"
    by (simp_all add: heap_view_def heap_at_mono) (simp add: heap_at_def)
next
  fix b :: heap_builder and r m assume "bv_object heap_view b r = Some (Table m)"
  then have at: "heap_at (hb_heap b) r = Some (Table m)" by (simp add: heap_view_def)
  from heap_reads_back [OF at]
  show "reads_back heap_acc (acc_table_new heap_acc (hb_heap (fb_finish heap_fb r b), hb_root (fb_finish heap_fb r b))
      (snd (hb_heap (fb_finish heap_fb r b), hb_root (fb_finish heap_fb r b)))) (bv_object heap_view b) m"
    and "reads_back heap_acc (acc_table_new heap_acc
      (hb_heap (fb_finish_size_prefixed heap_fb r b), hb_root (fb_finish_size_prefixed heap_fb r b))
      (snd (hb_heap (fb_finish_size_prefixed heap_fb r b), hb_root (fb_finish_size_prefixed heap_fb r b)))) (bv_object heap_view b) m"
    by (simp_all add: heap_fb_def heap_view_def heap_acc_def)
qed (auto simp: heap_fb_def heap_view_def)


section \<open>Built tables read back\<close>

text \<open>However a finished buffer is opened, the table is followed to the same place.\<close>

lemma opened_at:
  assumes "access_contract acc buffer place root_pos prefixed_pos"
  shows "acc_root acc verify follow buf = Ok t \<or> t = acc_root_unchecked acc follow buf \<Longrightarrow> t = follow buf (root_pos buf)"
    and "acc_size_prefixed_root acc verify follow buf = Ok t \<or> t = acc_size_prefixed_root_unchecked acc follow buf \<Longrightarrow>
      t = follow buf (prefixed_pos buf)"
proof -
  assume "acc_root acc verify follow buf = Ok t \<or> t = acc_root_unchecked acc follow buf"
  then have "entered buffer verify follow buf (root_pos buf) t \<or> t = follow buf (root_pos buf)"
    using assms by (auto simp: access_contract_def)
  then show "t = follow buf (root_pos buf)" by (auto dest: entered_follow)
next
  assume "acc_size_prefixed_root acc verify follow buf = Ok t \<or> t = acc_size_prefixed_root_unchecked acc follow buf"
  then have "entered buffer verify follow buf (prefixed_pos buf) t \<or> t = follow buf (prefixed_pos buf)"
    using assms by (auto simp: access_contract_def)
  then show "t = follow buf (prefixed_pos buf)" by (auto dest: entered_follow)
qed

lemma telemetry_event_reads_back:
  assumes builder: "builder_contract fb acc feq view finished root_pos prefixed_pos"
    and access: "access_contract acc buffer place root_pos prefixed_pos"
    and "bv_phase view b = Idle" and "telemetry_event_create fb args b = (r, b')"
    and "tea_message args = None \<or> (\<exists>o'. tea_message args = Some o' \<and> bv_object view b o' = Some (Leaf (Str text)))"
    and "buf = finished (finish_telemetry_event_buffer fb r b')"
    and "root_as_telemetry_event acc buf = Ok t \<or> t = root_as_telemetry_event_unchecked acc buf"
  shows "te_message acc t = Some (Ok (map_option (\<lambda>_. text) (tea_message args))) \<and> te_timestamp acc t = Some (Ok (tea_timestamp args))"
proof -
  let ?ops = "Push te_VT_TIMESTAMP (U64 (tea_timestamp args)) (U64 0) #
    (case tea_message args of Some x \<Rightarrow> [Always te_VT_MESSAGE x] | None \<Rightarrow> [])"
  have at: "tab_of t = acc_table_new acc buf (root_pos buf)"
    using opened_at(1) [OF access assms(7) [unfolded root_as_telemetry_event_def root_as_telemetry_event_unchecked_def]]
    by (simp add: te_follow_def)
  have build: "build_table fb ?ops b = (r, b')" using assms(4) by (simp add: telemetry_event_create_pushes)
  have "distinct (map push_slot_of ?ops)" by (simp add: te_slots split: option.split)
  from built_table_reads_back [OF builder assms(3) this build, of buf t] at assms(6) obtain m where
    m: "reads_back acc (tab_of t) (bv_object view b') m" "laid_out feq m ?ops" "bv_object view b \<subseteq>\<^sub>m bv_object view b'"
    by (auto simp: finish_telemetry_event_buffer_def)
  have "te_timestamp acc t = Some (Ok (tea_timestamp args))"
    using get_or_laid_out [OF m(1,2), of te_VT_TIMESTAMP "U64 (tea_timestamp args)" "U64 0" U64T of_U64]
    by (auto simp: te_timestamp_def)
  moreover have "te_message acc t = Some (Ok (map_option (\<lambda>_. text) (tea_message args)))"
  proof (cases "tea_message args")
    case None
    with get_opt_laid_out(2) [OF m(1,2), of te_VT_MESSAGE] show ?thesis by (simp add: te_message_def te_slots)
  next
    case (Some o')
    with assms(5) have "bv_object view b o' = Some (Leaf (Str text))" by auto
    with m(3) have "bv_object view b' o' = Some (Leaf (Str text))" by (auto simp: map_le_def dom_def)
    with get_opt_laid_out(1) [OF m(1,2), of te_VT_MESSAGE o' "Str text" StrT of_Str] Some show ?thesis
      by (simp add: te_message_def)
  qed
  ultimately show ?thesis by simp
qed

section \<open>Properties\<close>

text \<open>C22: Whatever the bytes, and without assuming that the crate's verifier finds every error: what a
  checked entry point returns can be read through every accessor of its type - the read is inside the
  safety condition of the crate, no \<^verbatim>\<open>unwrap\<close> panics, every price level of a book is of sixteen bytes -
  except through an accessor whose very slot the verifier has accepted, in that very table and at the type
  the accessor reads, although it is not readable there. The generated verifiers and accessors thus
  leave no field unverified and confuse no slot or type; an unsafe read can only be an error the crate's own
  field check has missed.\<close>

theorem checked_tables_are_readable_where_verified:
  assumes "access_contract acc buffer place root_pos prefixed_pos"
  shows
    "(root_as_message_event acc buf = Ok t \<or> root_as_message_event_with_opts acc opts buf = Ok t \<or>
        size_prefixed_root_as_message_event acc buf = Ok t \<or>
        size_prefixed_root_as_message_event_with_opts acc opts buf = Ok t \<longrightarrow>
        ((\<exists>x. me_timestamp acc t = Some (Ok x)) \<or> missed acc place (tab_of t) F64T me_VT_TIMESTAMP) \<and>
        ((\<exists>x. me_event_type acc t = Some (Ok x)) \<or> missed acc place (tab_of t) U8T me_VT_EVENT_TYPE) \<and>
        ((\<exists>x. me_order_id acc t = Some (Ok x)) \<or> missed acc place (tab_of t) U64T me_VT_ORDER_ID) \<and>
        ((\<exists>x. me_size acc t = Some (Ok x)) \<or> missed acc place (tab_of t) U32T me_VT_SIZE) \<and>
        ((\<exists>x. me_price acc t = Some (Ok x)) \<or> missed acc place (tab_of t) I64T me_VT_PRICE) \<and>
        ((\<exists>x. me_direction acc t = Some (Ok x)) \<or> missed acc place (tab_of t) I8T me_VT_DIRECTION)) \<and>
    (root_as_order_book_snapshot acc buf = Ok t \<or> root_as_order_book_snapshot_with_opts acc opts buf = Ok t \<or>
        size_prefixed_root_as_order_book_snapshot acc buf = Ok t \<or>
        size_prefixed_root_as_order_book_snapshot_with_opts acc opts buf = Ok t \<longrightarrow>
        ((\<exists>x. ob_timestamp acc t = Some (Ok x)) \<or> missed acc place (tab_of t) F64T ob_VT_TIMESTAMP) \<and>
        ((\<exists>x. ob_asks acc t = Some (Ok x) \<and> (\<forall>ls. x = Some ls \<longrightarrow> list_all (\<lambda>l. length l = 16) ls)) \<or>
           missed acc place (tab_of t) LevelsT ob_VT_ASKS) \<and>
        ((\<exists>x. ob_bids acc t = Some (Ok x) \<and> (\<forall>ls. x = Some ls \<longrightarrow> list_all (\<lambda>l. length l = 16) ls)) \<or>
           missed acc place (tab_of t) LevelsT ob_VT_BIDS)) \<and>
    (root_as_telemetry_event acc buf = Ok t \<or> root_as_telemetry_event_with_opts acc opts buf = Ok t \<or>
        size_prefixed_root_as_telemetry_event acc buf = Ok t \<or>
        size_prefixed_root_as_telemetry_event_with_opts acc opts buf = Ok t \<longrightarrow>
        ((\<exists>x. te_message acc t = Some (Ok x)) \<or> missed acc place (tab_of t) StrT te_VT_MESSAGE) \<and>
        ((\<exists>x. te_timestamp acc t = Some (Ok x)) \<or> missed acc place (tab_of t) U64T te_VT_TIMESTAMP))"
proof (intro conjI impI)
  assume "root_as_message_event acc buf = Ok t \<or> root_as_message_event_with_opts acc opts buf = Ok t \<or>
        size_prefixed_root_as_message_event acc buf = Ok t \<or>
        size_prefixed_root_as_message_event_with_opts acc opts buf = Ok t"
  then have "\<exists>v pos v'. buffer v = buf \<and> me_run_verifier acc v pos = Ok v' \<and> t = me_follow acc buf pos"
    unfolding root_as_message_event_def root_as_message_event_with_opts_def size_prefixed_root_as_message_event_def
        size_prefixed_root_as_message_event_with_opts_def
    by (rule checked_entry [OF assms])
  then obtain pos v v' where v: "buffer v = buf" "me_run_verifier acc v pos = Ok v'" "t = me_follow acc buf pos" by blast
  then have "tab_of t = acc_table_new acc (buffer v) pos" by (simp add: me_follow_def)
  note slots = visited_slots(1) [OF assms v(2), folded this]
  show
    "((\<exists>x. me_timestamp acc t = Some (Ok x)) \<or> missed acc place (tab_of t) F64T me_VT_TIMESTAMP)"
    "((\<exists>x. me_event_type acc t = Some (Ok x)) \<or> missed acc place (tab_of t) U8T me_VT_EVENT_TYPE)"
    "((\<exists>x. me_order_id acc t = Some (Ok x)) \<or> missed acc place (tab_of t) U64T me_VT_ORDER_ID)"
    "((\<exists>x. me_size acc t = Some (Ok x)) \<or> missed acc place (tab_of t) U32T me_VT_SIZE)"
    "((\<exists>x. me_price acc t = Some (Ok x)) \<or> missed acc place (tab_of t) I64T me_VT_PRICE)"
    "((\<exists>x. me_direction acc t = Some (Ok x)) \<or> missed acc place (tab_of t) I8T me_VT_DIRECTION)"
    unfolding me_timestamp_def me_event_type_def me_order_id_def me_size_def me_price_def me_direction_def
    by (rule get_or_visited get_levels_visited get_opt_read; simp add: slots)+
next
  assume "root_as_order_book_snapshot acc buf = Ok t \<or> root_as_order_book_snapshot_with_opts acc opts buf = Ok t \<or>
        size_prefixed_root_as_order_book_snapshot acc buf = Ok t \<or>
        size_prefixed_root_as_order_book_snapshot_with_opts acc opts buf = Ok t"
  then have "\<exists>v pos v'. buffer v = buf \<and> ob_run_verifier acc v pos = Ok v' \<and> t = ob_follow acc buf pos"
    unfolding root_as_order_book_snapshot_def root_as_order_book_snapshot_with_opts_def size_prefixed_root_as_order_book_snapshot_def
        size_prefixed_root_as_order_book_snapshot_with_opts_def
    by (rule checked_entry [OF assms])
  then obtain pos v v' where v: "buffer v = buf" "ob_run_verifier acc v pos = Ok v'" "t = ob_follow acc buf pos" by blast
  then have "tab_of t = acc_table_new acc (buffer v) pos" by (simp add: ob_follow_def)
  note slots = visited_slots(2) [OF assms v(2), folded this]
  show
    "((\<exists>x. ob_timestamp acc t = Some (Ok x)) \<or> missed acc place (tab_of t) F64T ob_VT_TIMESTAMP)"
    "((\<exists>x. ob_asks acc t = Some (Ok x) \<and> (\<forall>ls. x = Some ls \<longrightarrow> list_all (\<lambda>l. length l = 16) ls)) \<or>
           missed acc place (tab_of t) LevelsT ob_VT_ASKS)"
    "((\<exists>x. ob_bids acc t = Some (Ok x) \<and> (\<forall>ls. x = Some ls \<longrightarrow> list_all (\<lambda>l. length l = 16) ls)) \<or>
           missed acc place (tab_of t) LevelsT ob_VT_BIDS)"
    unfolding ob_timestamp_def ob_asks_def ob_bids_def
    by (rule get_or_visited get_levels_visited get_opt_read; simp add: slots)+
next
  assume "root_as_telemetry_event acc buf = Ok t \<or> root_as_telemetry_event_with_opts acc opts buf = Ok t \<or>
        size_prefixed_root_as_telemetry_event acc buf = Ok t \<or>
        size_prefixed_root_as_telemetry_event_with_opts acc opts buf = Ok t"
  then have "\<exists>v pos v'. buffer v = buf \<and> te_run_verifier acc v pos = Ok v' \<and> t = te_follow acc buf pos"
    unfolding root_as_telemetry_event_def root_as_telemetry_event_with_opts_def size_prefixed_root_as_telemetry_event_def
        size_prefixed_root_as_telemetry_event_with_opts_def
    by (rule checked_entry [OF assms])
  then obtain pos v v' where v: "buffer v = buf" "te_run_verifier acc v pos = Ok v'" "t = te_follow acc buf pos" by blast
  then have "tab_of t = acc_table_new acc (buffer v) pos" by (simp add: te_follow_def)
  note slots = visited_slots(3) [OF assms v(2), folded this]
  show
    "((\<exists>x. te_message acc t = Some (Ok x)) \<or> missed acc place (tab_of t) StrT te_VT_MESSAGE)"
    "((\<exists>x. te_timestamp acc t = Some (Ok x)) \<or> missed acc place (tab_of t) U64T te_VT_TIMESTAMP)"
    unfolding te_message_def te_timestamp_def
    by (rule get_or_visited get_levels_visited get_opt_read; simp add: slots)+
qed

text \<open>A table with a timestamp at the slot of a message event and nothing else is accepted; one with a string
  there is not.\<close>

theorem checked_tables_are_readable_where_verified_witness:
  "\<exists>t. root_as_message_event heap_acc ([Table (\<lambda>vt. if vt = 4 then Some (Val (F64 7)) else None)], 0) = Ok t \<and>
     (\<exists>ts dir. me_timestamp heap_acc t = Some (Ok ts) \<and> me_direction heap_acc t = Some (Ok dir)) \<and>
     root_as_message_event heap_acc ([Table (\<lambda>vt. if vt = 4 then Some (Val (Str ''seven'')) else None)], 0) = Err ()"
proof -
  let ?buf = "[Table (\<lambda>vt. if vt = 4 then Some (Val (F64 7)) else None)] :: heap_objects"
  have rejected: "root_as_message_event heap_acc ([Table (\<lambda>vt. if vt = 4 then Some (Val (Str ''seven'')) else None)], 0) = Err ()"
    by (simp add: root_as_message_event_def heap_acc_def heap_root_def me_run_verifier_def and_then_def heap_at_def
        heap_visit_def heap_get_def me_slots)
  obtain t where t: "root_as_message_event heap_acc (?buf, 0) = Ok t"
    by (simp add: root_as_message_event_def heap_acc_def heap_root_def me_run_verifier_def and_then_def heap_at_def
        heap_visit_def heap_get_def me_slots has_type_def)
  with checked_tables_are_readable_where_verified [OF heap_access, of "(?buf, 0)" t "()"] rejected heap_misses_nothing show ?thesis by blast
qed


text \<open>C23: A message event reads back as the arguments it was created from, plain or size-prefixed and through the
  checked or the unchecked entry point. Only a timestamp that equals zero is read as the zero of the
  default, so that a negative zero loses its sign.\<close>

theorem message_event_reads_back:
  assumes builder: "builder_contract fb acc feq view finished root_pos prefixed_pos"
    and access: "access_contract acc buffer place root_pos prefixed_pos" and zero: "acc_zero acc = fb_zero fb"
    and idle: "bv_phase view b = Idle" and create: "message_event_create fb args b = (r, b')"
    and opened: "buf = finished (finish_message_event_buffer fb r b') \<and>
        (root_as_message_event acc buf = Ok t \<or> t = root_as_message_event_unchecked acc buf) \<or>
      buf = finished (finish_size_prefixed_message_event_buffer fb r b') \<and>
        (size_prefixed_root_as_message_event acc buf = Ok t \<or> t = size_prefixed_root_as_message_event_unchecked acc buf)"
  shows "(me_timestamp acc t = Some (Ok (mea_timestamp args)) \<or>
        feq (mea_timestamp args) (fb_zero fb) \<and> me_timestamp acc t = Some (Ok (fb_zero fb))) \<and>
     me_event_type acc t = Some (Ok (mea_event_type args)) \<and> me_order_id acc t = Some (Ok (mea_order_id args)) \<and>
     me_size acc t = Some (Ok (mea_size args)) \<and> me_price acc t = Some (Ok (mea_price args)) \<and>
     me_direction acc t = Some (Ok (mea_direction args))"
proof -
  let ?ops = "[Push me_VT_PRICE (I64 (mea_price args)) (I64 0), Push me_VT_ORDER_ID (U64 (mea_order_id args)) (U64 0),
      Push me_VT_TIMESTAMP (F64 (mea_timestamp args)) (F64 (fb_zero fb)), Push me_VT_SIZE (U32 (mea_size args)) (U32 0),
      Push me_VT_DIRECTION (I8 (mea_direction args)) (I8 0), Push me_VT_EVENT_TYPE (U8 (mea_event_type args)) (U8 0)]"
  have at: "buf = finished (fb_finish fb r b') \<and> tab_of t = acc_table_new acc buf (root_pos buf) \<or>
      buf = finished (fb_finish_size_prefixed fb r b') \<and> tab_of t = acc_table_new acc buf (prefixed_pos buf)"
    using opened opened_at [OF access, of "me_run_verifier acc" "me_follow acc" buf t]
    by (auto simp: root_as_message_event_def root_as_message_event_unchecked_def size_prefixed_root_as_message_event_def
        size_prefixed_root_as_message_event_unchecked_def finish_message_event_buffer_def
        finish_size_prefixed_message_event_buffer_def me_follow_def)
  have build: "build_table fb ?ops b = (r, b')" using create by (simp add: message_event_create_pushes)
  have "distinct (map push_slot_of ?ops)" by (simp add: me_slots)
  from built_table_reads_back [OF builder idle this build at] obtain m where
    m: "reads_back acc (tab_of t) (bv_object view b') m" "laid_out feq m ?ops" by blast
  note field = get_or_exact [OF m]
  have "me_event_type acc t = Some (Ok (mea_event_type args))" "me_order_id acc t = Some (Ok (mea_order_id args))"
    "me_size acc t = Some (Ok (mea_size args))" "me_price acc t = Some (Ok (mea_price args))"
    "me_direction acc t = Some (Ok (mea_direction args))"
    unfolding me_event_type_def me_order_id_def me_size_def me_price_def me_direction_def
    by (simp_all add: field [of me_VT_EVENT_TYPE "U8 (mea_event_type args)"] field [of me_VT_ORDER_ID "U64 (mea_order_id args)"]
        field [of me_VT_SIZE "U32 (mea_size args)"] field [of me_VT_PRICE "I64 (mea_price args)"]
        field [of me_VT_DIRECTION "I8 (mea_direction args)"])
  then show ?thesis
    using get_or_laid_out [OF m, of me_VT_TIMESTAMP "F64 (mea_timestamp args)" "F64 (fb_zero fb)" F64T of_F64]
    by (simp add: me_timestamp_def zero)
qed

text \<open>A negative zero for the time, a default size and a sell.\<close>

theorem message_event_reads_back_witness:
  "\<exists>t. root_as_message_event heap_acc ([Table (\<lambda>vt.
        if vt = 6 then Some (Val (U8 1)) else if vt = 14 then Some (Val (I8 (- 1))) else if vt = 8 then Some (Val (U64 11))
        else if vt = 12 then Some (Val (I64 911400)) else None)], 0) = Ok t \<and>
     me_timestamp heap_acc t = Some (Ok 0) \<and> me_size heap_acc t = Some (Ok 0) \<and> me_direction heap_acc t = Some (Ok (- 1)) \<and>
     me_price heap_acc t = Some (Ok 911400)"
proof -
  let ?b = "\<lparr>hb_phase = Idle, hb_slots = (\<lambda>_. None), hb_heap = [], hb_root = 0\<rparr> :: heap_builder"
  let ?args = "\<lparr>mea_timestamp = 0x8000000000000000, mea_event_type = 1, mea_order_id = 11, mea_size = 0,
    mea_price = 911400, mea_direction = - 1\<rparr> :: u64 message_event_args"
  let ?m = "\<lambda>vt :: voffset. if vt = 6 then Some (Val (U8 1)) else if vt = 14 then Some (Val (I8 (- 1))) else if vt = 8 then Some (Val (U64 11))
        else if vt = 12 then Some (Val (I64 911400)) else None :: (u64, nat) slot option"
  let ?buf = "([Table ?m], 0) :: heap_objects \<times> nat"
  have create: "message_event_create heap_fb ?args ?b = (0, \<lparr>hb_phase = Idle, hb_slots = ?m, hb_heap = [Table ?m], hb_root = 0\<rparr>)"
    by (simp add: create_defs heap_fb_def me_slots f64_eq_def f64_nan_def fun_eq_iff)
  have idle: "bv_phase heap_view ?b = Idle" and zero: "acc_zero heap_acc = fb_zero heap_fb"
    by (simp_all add: heap_view_def heap_acc_def heap_fb_def)
  obtain t where t: "root_as_message_event heap_acc ?buf = Ok t"
    by (simp add: root_as_message_event_def heap_acc_def heap_root_def me_run_verifier_def and_then_def heap_at_def
        heap_visit_def heap_get_def me_slots has_type_def)
  have buf: "?buf = (hb_heap (finish_message_event_buffer heap_fb 0 \<lparr>hb_phase = Idle, hb_slots = ?m, hb_heap = [Table ?m], hb_root = 0\<rparr>),
      hb_root (finish_message_event_buffer heap_fb 0 \<lparr>hb_phase = Idle, hb_slots = ?m, hb_heap = [Table ?m], hb_root = 0\<rparr>))"
    by (simp add: finish_message_event_buffer_def heap_fb_def)
  have stamp: "me_timestamp heap_acc t = Some (Ok 0)"
    using t by (auto simp: root_as_message_event_def heap_root_def me_run_verifier_def and_then_def heap_at_def
        heap_visit_def heap_get_def me_slots has_type_def me_timestamp_def get_or_def me_follow_def heap_acc_def)
  from message_event_reads_back [OF heap_builder heap_access zero idle create, of ?buf t] t buf
  have "me_size heap_acc t = Some (Ok 0) \<and> me_direction heap_acc t = Some (Ok (- 1)) \<and> me_price heap_acc t = Some (Ok 911400)"
    by simp
  with t stamp show ?thesis by blast
qed

text \<open>C24: A snapshot reads back as its timestamp and the levels of both sides, each level as the price and the size
  it was made of; a side that was not given reads as absent.\<close>

theorem order_book_snapshot_reads_back:
  assumes builder: "builder_contract fb acc feq view finished root_pos prefixed_pos"
    and access: "access_contract acc buffer place root_pos prefixed_pos" and zero: "acc_zero acc = fb_zero fb"
    and idle: "bv_phase view b = Idle" and create: "order_book_create fb args b = (r, b')"
    and asks: "oba_asks args = None \<or>
      (\<exists>o'. oba_asks args = Some o' \<and> bv_object view b o' = Some (Leaf (Levels (map (\<lambda>(p, z). level_new p z) asks))))"
    and bids: "oba_bids args = None \<or>
      (\<exists>o'. oba_bids args = Some o' \<and> bv_object view b o' = Some (Leaf (Levels (map (\<lambda>(p, z). level_new p z) bids))))"
    and opened: "buf = finished (finish_order_book_snapshot_buffer fb r b') \<and>
        (root_as_order_book_snapshot acc buf = Ok t \<or> t = root_as_order_book_snapshot_unchecked acc buf) \<or>
      buf = finished (finish_size_prefixed_order_book_snapshot_buffer fb r b') \<and>
        (size_prefixed_root_as_order_book_snapshot acc buf = Ok t \<or> t = size_prefixed_root_as_order_book_snapshot_unchecked acc buf)"
  shows "(ob_timestamp acc t = Some (Ok (oba_timestamp args)) \<or>
        feq (oba_timestamp args) (fb_zero fb) \<and> ob_timestamp acc t = Some (Ok (fb_zero fb))) \<and>
     (\<exists>a. ob_asks acc t = Some (Ok a) \<and>
        map_option (map (\<lambda>l. (level_price l, level_size l))) a = map_option (\<lambda>_. asks) (oba_asks args)) \<and>
     (\<exists>a. ob_bids acc t = Some (Ok a) \<and>
        map_option (map (\<lambda>l. (level_price l, level_size l))) a = map_option (\<lambda>_. bids) (oba_bids args))"
proof -
  let ?ops = "Push ob_VT_TIMESTAMP (F64 (oba_timestamp args)) (F64 (fb_zero fb)) #
      (case oba_bids args of Some x \<Rightarrow> [Always ob_VT_BIDS x] | None \<Rightarrow> []) @
      (case oba_asks args of Some x \<Rightarrow> [Always ob_VT_ASKS x] | None \<Rightarrow> [])"
  have at: "buf = finished (fb_finish fb r b') \<and> tab_of t = acc_table_new acc buf (root_pos buf) \<or>
      buf = finished (fb_finish_size_prefixed fb r b') \<and> tab_of t = acc_table_new acc buf (prefixed_pos buf)"
    using opened opened_at [OF access, of "ob_run_verifier acc" "ob_follow acc" buf t]
    by (auto simp: root_as_order_book_snapshot_def root_as_order_book_snapshot_unchecked_def
        size_prefixed_root_as_order_book_snapshot_def size_prefixed_root_as_order_book_snapshot_unchecked_def
        finish_order_book_snapshot_buffer_def finish_size_prefixed_order_book_snapshot_buffer_def ob_follow_def)
  have build: "build_table fb ?ops b = (r, b')" using create by (simp add: order_book_create_pushes)
  have "distinct (map push_slot_of ?ops)" by (simp add: ob_slots split: option.split)
  from built_table_reads_back [OF builder idle this build at] obtain m where
    m: "reads_back acc (tab_of t) (bv_object view b') m" "laid_out feq m ?ops" "bv_object view b \<subseteq>\<^sub>m bv_object view b'" by blast
  have levels: "map ((\<lambda>l. (level_price l, level_size l)) \<circ> (\<lambda>(p, z). level_new p z)) ls = ls" for ls
    by (induction ls) (auto simp: level_round_trip)
  have side: "\<exists>a. get_opt acc LevelsT of_Levels vt t = Some (Ok a) \<and>
      map_option (map (\<lambda>l. (level_price l, level_size l))) a = map_option (\<lambda>_. ls) given"
    if given: "given = None \<or> (\<exists>o'. given = Some o' \<and> bv_object view b o' = Some (Leaf (Levels (map (\<lambda>(p, z). level_new p z) ls))))"
      and none: "given = None \<Longrightarrow> vt \<notin> push_slot_of ` set ?ops" and some: "\<And>o'. given = Some o' \<Longrightarrow> Always vt o' \<in> set ?ops"
    for given vt ls
  proof (cases given)
    case None
    with get_opt_laid_out(2) [OF m(1,2) none] show ?thesis by simp
  next
    case (Some o')
    with given have "bv_object view b o' = Some (Leaf (Levels (map (\<lambda>(p, z). level_new p z) ls)))" by simp
    with m(3) have "bv_object view b' o' = Some (Leaf (Levels (map (\<lambda>(p, z). level_new p z) ls)))" by (auto simp: map_le_def dom_def)
    from get_opt_laid_out(1) [OF m(1,2) some [OF Some] this, of LevelsT of_Levels] levels Some show ?thesis by simp
  qed
  have "\<exists>a. ob_asks acc t = Some (Ok a) \<and>
      map_option (map (\<lambda>l. (level_price l, level_size l))) a = map_option (\<lambda>_. asks) (oba_asks args)"
    unfolding ob_asks_def by (rule side [OF asks]) (auto simp: ob_slots split: option.split)
  moreover have "\<exists>a. ob_bids acc t = Some (Ok a) \<and>
      map_option (map (\<lambda>l. (level_price l, level_size l))) a = map_option (\<lambda>_. bids) (oba_bids args)"
    unfolding ob_bids_def by (rule side [OF bids]) (auto simp: ob_slots split: option.split)
  ultimately show ?thesis
    using get_or_laid_out [OF m(1,2), of ob_VT_TIMESTAMP "F64 (oba_timestamp args)" "F64 (fb_zero fb)" F64T of_F64]
    by (auto simp: ob_timestamp_def zero)
qed

text \<open>One ask level and no bids, size-prefixed.\<close>

theorem order_book_snapshot_reads_back_witness:
  "\<exists>t a. size_prefixed_root_as_order_book_snapshot heap_acc ([Leaf (Levels [level_new 911400 18]),
        Table (\<lambda>vt. if vt = 6 then Some (Ref 0) else if vt = 4 then Some (Val (F64 9)) else None)], 1) = Ok t \<and>
     ob_asks heap_acc t = Some (Ok (Some [a])) \<and> level_price a = 911400 \<and> level_size a = 18 \<and>
     ob_bids heap_acc t = Some (Ok None)"
proof -
  let ?m = "\<lambda>vt :: voffset. if vt = 6 then Some (Ref 0) else if vt = 4 then Some (Val (F64 9)) else None :: (u64, nat) slot option"
  let ?leaf = "Leaf (Levels [level_new 911400 18]) :: (u64, nat) object"
  let ?b = "\<lparr>hb_phase = Idle, hb_slots = (\<lambda>_. None), hb_heap = [?leaf], hb_root = 0\<rparr> :: heap_builder"
  let ?b' = "\<lparr>hb_phase = Idle, hb_slots = ?m, hb_heap = [?leaf, Table ?m], hb_root = 0\<rparr> :: heap_builder"
  let ?args = "\<lparr>oba_timestamp = 9, oba_asks = Some 0, oba_bids = None\<rparr> :: (u64, nat) order_book_args"
  let ?buf = "([?leaf, Table ?m], 1) :: heap_objects \<times> nat"
  have create: "order_book_create heap_fb ?args ?b = (1, ?b')"
    by (simp add: create_defs heap_fb_def ob_slots f64_eq_def f64_nan_def fun_eq_iff)
  have idle: "bv_phase heap_view ?b = Idle" and zero: "acc_zero heap_acc = fb_zero heap_fb"
    by (simp_all add: heap_view_def heap_acc_def heap_fb_def)
  have asks: "oba_asks ?args = None \<or> (\<exists>o'. oba_asks ?args = Some o' \<and>
      bv_object heap_view ?b o' = Some (Leaf (Levels (map (\<lambda>(p, z). level_new p z) [(911400, 18)]))))"
    by (simp add: heap_view_def heap_at_def)
  have bids: "oba_bids ?args = None \<or> (\<exists>o'. oba_bids ?args = Some o' \<and>
      bv_object heap_view ?b o' = Some (Leaf (Levels (map (\<lambda>(p, z). level_new p z) []))))" by simp
  have sixteen: "length (level_new 911400 18) = 16" using level_round_trip by blast
  obtain t where t: "size_prefixed_root_as_order_book_snapshot heap_acc ?buf = Ok t"
    using sixteen by (simp add: size_prefixed_root_as_order_book_snapshot_def heap_acc_def heap_root_def ob_run_verifier_def
        and_then_def heap_at_def heap_visit_def heap_get_def ob_slots has_type_def)
  have buf: "?buf = (hb_heap (finish_size_prefixed_order_book_snapshot_buffer heap_fb 1 ?b'),
      hb_root (finish_size_prefixed_order_book_snapshot_buffer heap_fb 1 ?b'))"
    by (simp add: finish_size_prefixed_order_book_snapshot_buffer_def heap_fb_def)
  from order_book_snapshot_reads_back [OF heap_builder heap_access zero idle create asks bids, of ?buf t] t buf
  obtain a where "ob_asks heap_acc t = Some (Ok a)" "map_option (map (\<lambda>l. (level_price l, level_size l))) a = Some [(911400, 18)]"
    "ob_bids heap_acc t = Some (Ok None)" by auto
  with t show ?thesis by (auto simp: map_eq_Cons_conv)
qed

end
