(* ===== verification/FS_Float.thy ===== *)
theory FS_Float
  imports Complex_Main FS_Prelude
begin

text \<open>
  The floating-point numbers of the clients: the operations of \<^verbatim>\<open>f64\<close> they use are an argument, and
  \<open>ieee_f64\<close> is what IEEE 754 says of them away from overflow. A finite number has a value; an operation
  returns the rounding of the exact result, which is the result itself where it can be represented.
\<close>

record 'f f64_ops =
  f_of_nat :: "nat \<Rightarrow> 'f"
  f_lit :: "rat \<Rightarrow> 'f"
  f_add :: "'f \<Rightarrow> 'f \<Rightarrow> 'f"
  f_sub :: "'f \<Rightarrow> 'f \<Rightarrow> 'f"
  f_mul :: "'f \<Rightarrow> 'f \<Rightarrow> 'f"
  f_div :: "'f \<Rightarrow> 'f \<Rightarrow> 'f"
  f_abs :: "'f \<Rightarrow> 'f"
  f_less :: "'f \<Rightarrow> 'f \<Rightarrow> bool"

text \<open>Numbers with a significand of 53 bits, here with at most eight binary places.\<close>

definition representable :: "real \<Rightarrow> bool" where
  "representable x \<longleftrightarrow> (\<exists>m :: int. \<bar>m\<bar> \<le> 2 ^ 53 \<and> x = of_int m / 2 ^ 8)"

definition rounds :: "(real \<Rightarrow> real) \<Rightarrow> bool" where
  "rounds rnd \<longleftrightarrow> (\<forall>x. representable x \<longrightarrow> rnd x = x) \<and>
     (\<forall>x. \<bar>x\<bar> \<le> 2 ^ 1000 \<longrightarrow> \<bar>rnd x - x\<bar> \<le> \<bar>x\<bar> / 2 ^ 53 + 1 / 2 ^ 1000)"

definition ieee_f64 :: "'f f64_ops \<Rightarrow> ('f \<Rightarrow> bool) \<Rightarrow> ('f \<Rightarrow> real) \<Rightarrow> (real \<Rightarrow> real) \<Rightarrow> bool" where
  "ieee_f64 F fin val rnd \<longleftrightarrow> rounds rnd \<and>
     (\<forall>n. n \<le> 2 ^ 53 \<longrightarrow> fin (f_of_nat F n) \<and> val (f_of_nat F n) = real n) \<and>
     (\<forall>q. \<bar>real_of_rat q\<bar> \<le> 2 ^ 1000 \<longrightarrow> fin (f_lit F q) \<and> val (f_lit F q) = rnd (real_of_rat q)) \<and>
     (\<forall>x y. fin x \<longrightarrow> fin y \<longrightarrow> \<bar>val x + val y\<bar> \<le> 2 ^ 1000 \<longrightarrow> fin (f_add F x y) \<and> val (f_add F x y) = rnd (val x + val y)) \<and>
     (\<forall>x y. fin x \<longrightarrow> fin y \<longrightarrow> \<bar>val x - val y\<bar> \<le> 2 ^ 1000 \<longrightarrow> fin (f_sub F x y) \<and> val (f_sub F x y) = rnd (val x - val y)) \<and>
     (\<forall>x y. fin x \<longrightarrow> fin y \<longrightarrow> \<bar>val x * val y\<bar> \<le> 2 ^ 1000 \<longrightarrow> fin (f_mul F x y) \<and> val (f_mul F x y) = rnd (val x * val y)) \<and>
     (\<forall>x y. fin x \<longrightarrow> fin y \<longrightarrow> val y \<noteq> 0 \<longrightarrow> \<bar>val x / val y\<bar> \<le> 2 ^ 1000 \<longrightarrow>
        fin (f_div F x y) \<and> val (f_div F x y) = rnd (val x / val y)) \<and>
     (\<forall>x. fin x \<longrightarrow> fin (f_abs F x) \<and> val (f_abs F x) = \<bar>val x\<bar>) \<and>
     (\<forall>x y. fin x \<longrightarrow> fin y \<longrightarrow> (f_less F x y \<longleftrightarrow> val x < val y))"

lemma representableI: "x * 256 = of_int m \<Longrightarrow> \<bar>m\<bar> \<le> 2 ^ 53 \<Longrightarrow> representable x"
  by (auto simp: representable_def field_simps intro!: exI [of _ m])

lemma representable_halves: "\<bar>m\<bar> \<le> 2 ^ 40 \<Longrightarrow> representable (of_int m / 2)"
  by (rule representableI [of _ "128 * m"]) auto

lemma representable_int: "\<bar>m\<bar> \<le> 2 ^ 40 \<Longrightarrow> representable (of_int m)"
  by (rule representableI [of _ "256 * m"]) auto

lemma representable_nat: "n \<le> 2 ^ 40 \<Longrightarrow> representable (real n)" and representable_half_nat: "n \<le> 2 ^ 40 \<Longrightarrow> representable (real n / 2)"
  using representable_int [of "int n"] representable_halves [of "int n"] by simp_all

lemma thousand_small: "x \<le> 2 ^ 30 \<Longrightarrow> (x :: real) \<le> 2 ^ 1000"
  using power_increasing [of 30 1000 "2 :: real"] by linarith

text \<open>Rounding a number of ordinary size moves it by very little.\<close>

lemma rounds_near:
  assumes "rounds rnd" and "\<bar>x\<bar> \<le> 1024"
  shows "\<bar>rnd x - x\<bar> \<le> 1 / 10 ^ 12"
proof -
  have "\<bar>rnd x - x\<bar> \<le> \<bar>x\<bar> / 2 ^ 53 + 1 / 2 ^ 1000"
    using assms thousand_small [of "\<bar>x\<bar>"] by (simp add: rounds_def)
  also have "\<dots> \<le> 1024 / 2 ^ 53 + 1 / 2 ^ 50"
    using assms(2) power_increasing [of 50 1000 "2 :: real"]
    by (intro add_mono divide_right_mono divide_left_mono) simp_all
  also have "\<dots> \<le> 1 / 10 ^ 12" by simp
  finally show ?thesis .
qed

lemma rounds_exact: "rounds rnd \<Longrightarrow> representable x \<Longrightarrow> rnd x = x"
  by (simp add: rounds_def)

text \<open>The rationals, which round nothing.\<close>

definition exact_ops :: "rat f64_ops" where
  "exact_ops = \<lparr>f_of_nat = of_nat, f_lit = id, f_add = (+), f_sub = (-), f_mul = (*), f_div = (/), f_abs = abs, f_less = (<)\<rparr>"

lemma exact_ops_ieee: "ieee_f64 exact_ops (\<lambda>_. True) real_of_rat id"
  by (simp add: ieee_f64_def rounds_def exact_ops_def of_rat_add of_rat_diff of_rat_mult of_rat_divide of_rat_less)

end
