(* ===== verification/FS_Agent.thy ===== *)
theory FS_Agent
  imports FS_Float FS_Demos
begin

text \<open>
  \<^verbatim>\<open>examples/telemetry_agent.rs\<close>, the reference workload: two thousand ticks captured in expert mode with one
  builder, a typed scan that computes statistics, and a manual iteration that stops at the first alert. The
  floating-point operations and the vectors of the FlatBuffers crate are arguments. From what IEEE 754 says of
  the operations, every assertion of the program holds; its comments derive them by hand.
\<close>

section \<open>The program\<close>

definition IDX_TIMESTAMP_S :: nat where "IDX_TIMESTAMP_S = 0"
definition IDX_SPEED_KPH :: nat where "IDX_SPEED_KPH = 1"
definition IDX_RPM :: nat where "IDX_RPM = 2"
definition IDX_TEMP_C :: nat where "IDX_TEMP_C = 3"
definition IDX_BATTERY_PCT :: nat where "IDX_BATTERY_PCT = 4"
definition EVENT_COUNT :: nat where "EVENT_COUNT = 2000"

definition channels_at :: "'f f64_ops \<Rightarrow> nat \<Rightarrow> 'f list" where
  "channels_at F i =
     [f_mul F (f_of_nat F i) (f_lit F (1 / 100)),
      f_mul F (f_of_nat F (i mod 200)) (f_lit F (1 / 2)),
      f_add F (f_lit F 800) (f_of_nat F i),
      f_add F (f_lit F 20) (f_of_nat F (i mod 40)),
      f_sub F (f_lit F 100) (f_mul F (f_of_nat F i) (f_lit F (45 / 1000)))]"

lemmas channel_indices = IDX_TIMESTAMP_S_def IDX_SPEED_KPH_def IDX_RPM_def IDX_TEMP_C_def IDX_BATTERY_PCT_def

record 'f scan_stats =
  st_frames :: nat
  st_speed_sum :: 'f
  st_temp_sum :: 'f
  st_rpm_sum :: 'f
  st_speed_alerts :: u32
  st_temp_alerts :: u32
  st_battery_alerts :: u32

definition stats_new :: "'f f64_ops \<Rightarrow> 'f scan_stats" where
  "stats_new F = \<lparr>st_frames = 0, st_speed_sum = f_lit F 0, st_temp_sum = f_lit F 0, st_rpm_sum = f_lit F 0,
     st_speed_alerts = 0, st_temp_alerts = 0, st_battery_alerts = 0\<rparr>"

definition within_nano :: "'f f64_ops \<Rightarrow> 'f \<Rightarrow> rat \<Rightarrow> bool" where
  "within_nano F x expected \<longleftrightarrow> f_less F (f_abs F (f_sub F x (f_lit F expected))) (f_lit F (1 / 10 ^ 9))"

definition channel :: "'f list \<Rightarrow> nat \<Rightarrow> ('s, error, 'f) prog" where
  "channel channels i = (if i < length channels then ret (channels ! i) else panic)"

definition update :: "('s \<Rightarrow> 's) \<Rightarrow> ('s, 'e, unit) prog" where
  "update g s = Some (Ok (), g s)"

definition analyse :: "'f f64_ops \<Rightarrow> 'f list \<Rightarrow> ('f scan_stats, error, unit) prog" where
  "analyse F channels =
     bindp (update (\<lambda>s. s\<lparr>st_frames := st_frames s + 1\<rparr>)) (\<lambda>_.
     bindp (channel channels IDX_SPEED_KPH) (\<lambda>speed.
     bindp (channel channels IDX_TEMP_C) (\<lambda>temp.
     bindp (update (\<lambda>s. s\<lparr>st_speed_sum := f_add F (st_speed_sum s) speed, st_temp_sum := f_add F (st_temp_sum s) temp\<rparr>)) (\<lambda>_.
     bindp (channel channels IDX_RPM) (\<lambda>rpm.
     bindp (update (\<lambda>s. s\<lparr>st_rpm_sum := f_add F (st_rpm_sum s) rpm\<rparr>)) (\<lambda>_.
     bindp (update (\<lambda>s. if f_less F (f_lit F 80) speed then s\<lparr>st_speed_alerts := st_speed_alerts s + 1\<rparr> else s)) (\<lambda>_.
     bindp (update (\<lambda>s. if f_less F (f_lit F 50) temp then s\<lparr>st_temp_alerts := st_temp_alerts s + 1\<rparr> else s)) (\<lambda>_.
     bindp (channel channels IDX_BATTERY_PCT) (\<lambda>battery.
     update (\<lambda>s. if f_less F battery (f_lit F 20) then s\<lparr>st_battery_alerts := st_battery_alerts s + 1\<rparr> else s))))))))))"

text \<open>The builder calls, and the frames read as the vectors the crate hands out.\<close>

type_synonym ('b, 'offset, 'f) channel_builder = "('f list \<Rightarrow> 'b \<Rightarrow> 'offset \<times> 'b) \<times> ('offset \<Rightarrow> 'b \<Rightarrow> 'b)"

fun capture :: "'b builder_ops \<Rightarrow> ('b, 'offset, 'f) channel_builder \<Rightarrow> 'f f64_ops \<Rightarrow> nat list \<Rightarrow> 'b \<Rightarrow>
    ((cursor, unit, 'b, unit, unit) stream_writer, error, unit) prog" where
  "capture ops vb F [] builder = writer_flush cursor_flush"
| "capture ops vb F (i # is) builder =
     (let (v, b1) = fst vb (channels_at F i) (b_reset ops builder);
          builder' = snd vb v b1
      in bindp (write_finished ops builder') (\<lambda>_. capture ops vb F is builder'))"

definition telemetry_frame_from_payload :: "(bytes \<Rightarrow> (string, 'f list) outcome) \<Rightarrow> 'f list from_payload" where
  "telemetry_frame_from_payload root_of payload = map_err error_of_flatbuffer (root_of payload)"

text \<open>The manual iteration: the first alert's time, and the frames examined.\<close>

partial_function (option) first_alert :: "'f f64_ops \<Rightarrow> 'f list from_payload \<Rightarrow> ('r, 'o, 'p) stream_reader \<times> nat \<Rightarrow>
    ((error, 'f option) outcome \<times> ('r, 'o, 'p) stream_reader \<times> nat) option" where
  "first_alert F decode st =
     (case next_message (fst st) of
        None \<Rightarrow> None
      | Some (out, s') \<Rightarrow>
          (case out of
             Err e \<Rightarrow> Some (Err e, s', snd st)
           | Panic \<Rightarrow> Some (Panic, s', snd st)
           | Ok got \<Rightarrow>
               (case got of
                  None \<Rightarrow> Some (Ok None, s', snd st)
                | Some payload \<Rightarrow>
                    (case decode payload of
                       Err e \<Rightarrow> Some (Err e, s', snd st + 1)
                     | Panic \<Rightarrow> Some (Panic, s', snd st + 1)
                     | Ok channels \<Rightarrow>
                         if length channels \<le> IDX_SPEED_KPH then Some (Panic, s', snd st + 1)
                         else if f_less F (f_lit F 80) (channels ! IDX_SPEED_KPH)
                         then Some (Ok (Some (channels ! IDX_TIMESTAMP_S)), s', snd st + 1)
                         else first_alert F decode (s', snd st + 1)))))"

definition agent_main :: "nat \<Rightarrow> 'f f64_ops \<Rightarrow> 'b builder_ops \<Rightarrow> ('b, 'offset, 'f) channel_builder \<Rightarrow>
    (bytes \<Rightarrow> (string, 'f list) outcome) \<Rightarrow> (error, unit) outcome option" where
  "agent_main fb_max F ops vb root_of =
     (let decode = telemetry_frame_from_payload root_of;
          deframer = DefaultDeframer cursor_read (default_deframer_new fb_max)
      in demo_bind (run_writer (capture ops vb F [0..<EVENT_COUNT] (b_new ops))
           (writer_new ops (cursor_new []) (DefaultFramer cursor_write) ())) (\<lambda>(_, journal).
         demo_bind (map_option (\<lambda>(out, _, st). map_ok (\<lambda>_. st) out)
           (process_typed decode (analyse F) (test_reader journal deframer, stats_new F))) (\<lambda>st.
         let avg_speed = f_div F (st_speed_sum st) (f_of_nat F (st_frames st));
             avg_temp = f_div F (st_temp_sum st) (f_of_nat F (st_frames st));
             avg_rpm = f_div F (st_rpm_sum st) (f_of_nat F (st_frames st))
         in assert_then (st_frames st = EVENT_COUNT \<and> st_speed_alerts st = 390 \<and> st_temp_alerts st = 450 \<and>
              st_battery_alerts st = 222)
           (assert_then (within_nano F avg_speed (4975 / 100) \<and> within_nano F avg_temp (395 / 10) \<and>
              within_nano F avg_rpm (17995 / 10))
           (demo_bind (map_option (\<lambda>(out, _, examined). map_ok (\<lambda>ts. (ts, examined)) out)
              (first_alert F decode (test_reader journal deframer, 0))) (\<lambda>(first_alert_ts, examined).
            case first_alert_ts of
              None \<Rightarrow> Some Panic
            | Some ts \<Rightarrow> assert_then (examined = 162 \<and> within_nano F ts (161 / 100)) (Some (Ok ()))))))))"

section \<open>The arithmetic\<close>

definition has_val :: "('f \<Rightarrow> bool) \<Rightarrow> ('f \<Rightarrow> real) \<Rightarrow> 'f \<Rightarrow> real \<Rightarrow> bool" where
  "has_val fin val x r \<longleftrightarrow> fin x \<and> val x = r"

text \<open>Exact results, and results that are near.\<close>

lemma f64_exact:
  assumes "ieee_f64 F fin val rnd"
  shows "n \<le> 2 ^ 40 \<Longrightarrow> has_val fin val (f_of_nat F n) (real n)"
    and "representable (real_of_rat q) \<Longrightarrow> \<bar>real_of_rat q\<bar> \<le> 2 ^ 30 \<Longrightarrow> has_val fin val (f_lit F q) (real_of_rat q)"
    and "has_val fin val x r \<Longrightarrow> has_val fin val y r' \<Longrightarrow> representable (r + r') \<Longrightarrow> \<bar>r + r'\<bar> \<le> 2 ^ 30 \<Longrightarrow> has_val fin val (f_add F x y) (r + r')"
    and "has_val fin val x r \<Longrightarrow> has_val fin val y r' \<Longrightarrow> representable (r * r') \<Longrightarrow> \<bar>r * r'\<bar> \<le> 2 ^ 30 \<Longrightarrow> has_val fin val (f_mul F x y) (r * r')"
    and "has_val fin val x r \<Longrightarrow> has_val fin val y r' \<Longrightarrow> representable (r - r') \<Longrightarrow> \<bar>r - r'\<bar> \<le> 2 ^ 30 \<Longrightarrow> has_val fin val (f_sub F x y) (r - r')"
    and "has_val fin val x r \<Longrightarrow> has_val fin val y r' \<Longrightarrow> r' \<noteq> 0 \<Longrightarrow> representable (r / r') \<Longrightarrow> \<bar>r / r'\<bar> \<le> 2 ^ 30 \<Longrightarrow> has_val fin val (f_div F x y) (r / r')"
  using assms thousand_small by (simp_all add: ieee_f64_def has_val_def rounds_exact)

definition near :: "('f \<Rightarrow> bool) \<Rightarrow> ('f \<Rightarrow> real) \<Rightarrow> 'f \<Rightarrow> real \<Rightarrow> real \<Rightarrow> bool" where
  "near fin val x r d \<longleftrightarrow> fin x \<and> \<bar>val x - r\<bar> \<le> d"

lemma has_val_near: "has_val fin val x r \<Longrightarrow> near fin val x r 0"
  by (simp add: has_val_def near_def)

lemma f64_near:
  assumes "ieee_f64 F fin val rnd"
  shows "\<bar>real_of_rat q\<bar> \<le> 1024 \<Longrightarrow> near fin val (f_lit F q) (real_of_rat q) (1 / 10 ^ 12)"
    and "near fin val x r d \<Longrightarrow> near fin val y r' d' \<Longrightarrow> \<bar>r - r'\<bar> \<le> 512 \<Longrightarrow> d + d' \<le> 1 \<Longrightarrow>
      near fin val (f_sub F x y) (r - r') (d + d' + 1 / 10 ^ 12)"
    and "has_val fin val x (real n) \<Longrightarrow> near fin val y r d \<Longrightarrow> real n * \<bar>r\<bar> \<le> 512 \<Longrightarrow> real n * d \<le> 1 \<Longrightarrow>
      near fin val (f_mul F x y) (real n * r) (real n * d + 1 / 10 ^ 12)"
    and "near fin val x r d \<Longrightarrow> near fin val (f_abs F x) \<bar>r\<bar> d"
proof -
  have rnd: "rounds rnd" using assms by (simp add: ieee_f64_def)
  note ops = assms [unfolded ieee_f64_def]
  show "near fin val (f_lit F q) (real_of_rat q) (1 / 10 ^ 12)" if "\<bar>real_of_rat q\<bar> \<le> 1024"
    using ops that rounds_near [OF rnd that] thousand_small [of "\<bar>real_of_rat q\<bar>"] by (simp add: near_def)
  show "near fin val (f_sub F x y) (r - r') (d + d' + 1 / 10 ^ 12)"
    if "near fin val x r d" "near fin val y r' d'" "\<bar>r - r'\<bar> \<le> 512" "d + d' \<le> 1"
  proof -
    have small: "\<bar>val x - val y\<bar> \<le> 1024" using that unfolding near_def by linarith
    moreover have "fin (f_sub F x y) \<and> val (f_sub F x y) = rnd (val x - val y)"
      using ops that(1,2) thousand_small [of "\<bar>val x - val y\<bar>"] small by (simp add: near_def)
    ultimately show ?thesis using rounds_near [OF rnd small] that(1,2) unfolding near_def by linarith
  qed
  show "near fin val (f_mul F x y) (real n * r) (real n * d + 1 / 10 ^ 12)"
    if "has_val fin val x (real n)" "near fin val y r d" "real n * \<bar>r\<bar> \<le> 512" "real n * d \<le> 1"
  proof -
    have x: "fin x" "val x = real n" and y: "fin y" "\<bar>val y - r\<bar> \<le> d" using that by (simp_all add: has_val_def near_def)
    have "\<bar>real n * val y - real n * r\<bar> = real n * \<bar>val y - r\<bar>" by (simp add: abs_mult flip: right_diff_distrib)
    also have "\<dots> \<le> real n * d" using y(2) by (intro mult_left_mono) simp_all
    finally have moved: "\<bar>real n * val y - real n * r\<bar> \<le> real n * d" .
    have "\<bar>real n * r\<bar> \<le> 512" using that(3) by (simp add: abs_mult)
    with moved that(4) have small: "\<bar>val x * val y\<bar> \<le> 1024" unfolding x(2) by linarith
    moreover have "fin (f_mul F x y) \<and> val (f_mul F x y) = rnd (val x * val y)"
      using ops x(1) y(1) thousand_small [of "\<bar>val x * val y\<bar>"] small by simp
    ultimately show ?thesis using rounds_near [OF rnd small] moved unfolding near_def x(2) by linarith
  qed
  show "near fin val (f_abs F x) \<bar>r\<bar> d" if "near fin val x r d"
    using ops that abs_triangle_ineq3 [of "val x" r] by (simp add: near_def)
qed


lemma has_val_less: "ieee_f64 F fin val rnd \<Longrightarrow> has_val fin val x r \<Longrightarrow> has_val fin val y r' \<Longrightarrow> f_less F x y \<longleftrightarrow> r < r'"
  by (simp add: ieee_f64_def has_val_def)

lemma near_less:
  assumes "ieee_f64 F fin val rnd" and "near fin val x r d" and "near fin val y r' d'"
  shows "r + d < r' - d' \<Longrightarrow> f_less F x y" and "r' + d' < r - d \<Longrightarrow> \<not> f_less F x y"
proof -
  have "f_less F x y \<longleftrightarrow> val x < val y" using assms by (simp add: ieee_f64_def near_def)
  with assms(2,3) show "r + d < r' - d' \<Longrightarrow> f_less F x y" and "r' + d' < r - d \<Longrightarrow> \<not> f_less F x y"
    unfolding near_def by linarith+
qed

text \<open>What the channels of a tick are worth.\<close>

lemma channel_values:
  assumes ieee: "ieee_f64 F fin val rnd" and "i < 2000"
  shows "has_val fin val (channels_at F i ! 1) (real (i mod 200) / 2)"
    and "has_val fin val (channels_at F i ! 2) (real (800 + i))"
    and "has_val fin val (channels_at F i ! 3) (real (20 + i mod 40))"
    and "near fin val (channels_at F i ! 0) (real i / 100) (real (i + 1) / 10 ^ 12)"
    and "near fin val (channels_at F i ! 4) (100 - real i * (45 / 1000)) (1 / 10 ^ 8)"
proof -
  have m: "i mod 200 < 200" "i mod 40 < 40" by simp_all
  have half: "representable (1 / 2)" using representable_halves [of 1] by simp
  have lit: "has_val fin val (f_lit F (1 / 2)) (1 / 2)" "has_val fin val (f_lit F 800) 800" "has_val fin val (f_lit F 20) 20"
    "has_val fin val (f_lit F 100) 100"
    using f64_exact(2) [OF ieee, of "1 / 2"] f64_exact(2) [OF ieee, of 800] f64_exact(2) [OF ieee, of 20]
      f64_exact(2) [OF ieee, of 100] half representable_int [of 800] representable_int [of 20] representable_int [of 100]
    by (simp_all add: of_rat_divide)
  have nat: "has_val fin val (f_of_nat F n) (real n)" if "n \<le> 2000" for n
    by (rule f64_exact(1) [OF ieee]) (use that in simp)
  show "has_val fin val (channels_at F i ! 1) (real (i mod 200) / 2)"
    using f64_exact(4) [OF ieee nat [of "i mod 200"] lit(1)] m(1) representable_half_nat [of "i mod 200"]
    by (simp add: channels_at_def)
  show "has_val fin val (channels_at F i ! 2) (real (800 + i))"
    using f64_exact(3) [OF ieee lit(2) nat [of i]] assms(2) representable_nat [of "800 + i"] by (simp add: channels_at_def)
  show "has_val fin val (channels_at F i ! 3) (real (20 + i mod 40))"
    using f64_exact(3) [OF ieee lit(3) nat [of "i mod 40"]] m(2) representable_nat [of "20 + i mod 40"]
    by (simp add: channels_at_def)
  have tiny: "near fin val (f_lit F (1 / 100)) (1 / 100) (1 / 10 ^ 12)" "near fin val (f_lit F (45 / 1000)) (45 / 1000) (1 / 10 ^ 12)"
    using f64_near(1) [OF ieee, of "1 / 100"] f64_near(1) [OF ieee, of "45 / 1000"] by (simp_all add: of_rat_divide)
  have i: "has_val fin val (f_of_nat F i) (real i)" by (rule nat) (use assms(2) in simp)
  note products = f64_near(3) [OF ieee i tiny(1)] f64_near(3) [OF ieee i tiny(2)]
  have small: "real i / 10 ^ 12 \<le> 1 / 10 ^ 8 - 2 / 10 ^ 12" using assms(2) by simp
  have "near fin val (f_mul F (f_of_nat F i) (f_lit F (1 / 100))) (real i * (1 / 100)) (real i * (1 / 10 ^ 12) + 1 / 10 ^ 12)"
    by (rule products(1)) (use assms(2) in simp_all)
  then show "near fin val (channels_at F i ! 0) (real i / 100) (real (i + 1) / 10 ^ 12)"
    by (simp add: channels_at_def add_divide_distrib add.commute)
  have "near fin val (f_mul F (f_of_nat F i) (f_lit F (45 / 1000))) (real i * (45 / 1000)) (real i * (1 / 10 ^ 12) + 1 / 10 ^ 12)"
    by (rule products(2)) (use assms(2) in simp_all)
  from f64_near(2) [OF ieee has_val_near [OF lit(4)] this] assms(2) small
  show "near fin val (channels_at F i ! 4) (100 - real i * (45 / 1000)) (1 / 10 ^ 8)"
    by (simp add: channels_at_def near_def)
qed

lemma channel_alerts:
  assumes ieee: "ieee_f64 F fin val rnd" and "i < 2000"
  shows "f_less F (f_lit F 80) (channels_at F i ! 1) \<longleftrightarrow> 160 < i mod 200"
    and "f_less F (f_lit F 50) (channels_at F i ! 3) \<longleftrightarrow> 30 < i mod 40"
    and "f_less F (channels_at F i ! 4) (f_lit F 20) \<longleftrightarrow> 1777 < i"
proof -
  note vals = channel_values [OF assms]
  have lit: "has_val fin val (f_lit F 80) 80" "has_val fin val (f_lit F 50) 50" "has_val fin val (f_lit F 20) 20"
    using f64_exact(2) [OF ieee, of 80] f64_exact(2) [OF ieee, of 50] f64_exact(2) [OF ieee, of 20]
      representable_int [of 80] representable_int [of 50] representable_int [of 20] by simp_all
  show "f_less F (f_lit F 80) (channels_at F i ! 1) \<longleftrightarrow> 160 < i mod 200"
    using has_val_less [OF ieee lit(1) vals(1)] by simp
  show "f_less F (f_lit F 50) (channels_at F i ! 3) \<longleftrightarrow> 30 < i mod 40"
    using has_val_less [OF ieee lit(2) vals(3)] by simp
  show "f_less F (channels_at F i ! 4) (f_lit F 20) \<longleftrightarrow> 1777 < i"
  proof (cases "1777 < i")
    case True
    then have "(100 - real i * (45 / 1000)) + 1 / 10 ^ 8 < 20 - 0" by simp
    with near_less(1) [OF ieee vals(5) has_val_near [OF lit(3)]] True show ?thesis by simp
  next
    case False
    then have "(20 :: real) + 0 < (100 - real i * (45 / 1000)) - 1 / 10 ^ 8" by simp
    with near_less(2) [OF ieee vals(5) has_val_near [OF lit(3)]] False show ?thesis by simp
  qed
qed


section \<open>Sums over cycles\<close>

lemma sum_mod:
  fixes f :: "nat \<Rightarrow> nat"
  shows "(\<Sum>i<n * k. f (i mod k)) = n * (\<Sum>j<k. f j)"
proof -
  have group: "(\<Sum>i = m * k..<m * k + k. f (i mod k)) = (\<Sum>j<k. f j)" for m
    using sum.shift_bounds_nat_ivl [of "\<lambda>i. f (i mod k)" 0 "m * k" k] by (simp add: atLeast0LessThan add.commute)
  have "(\<Sum>i<n * k. f (i mod k)) = (\<Sum>m<n. \<Sum>i = m * k..<m * k + k. f (i mod k))"
    by (rule sum.nat_group [symmetric])
  then show ?thesis unfolding group by simp
qed

lemma count_from: "(\<Sum>j<(n :: nat). if c < j then 1 else 0 :: nat) = n - Suc c"
proof -
  have "(\<Sum>j<n. if c < j then 1 else 0 :: nat) = card {j \<in> {..<n}. c < j}" by (simp add: sum.If_cases Int_def)
  also have "{j \<in> {..<n}. c < j} = {Suc c..<n}" by auto
  finally show ?thesis by simp
qed

lemma sum_below: "(\<Sum>j<n. j) = n * (n - 1) div (2 :: nat)"
  using Sum_Ico_nat [of 0 n] by (simp add: atLeast0LessThan)

text \<open>The totals that the comments of the source derive by hand.\<close>

lemma totals:
  "(\<Sum>i<2000. i mod 200) = (199000 :: nat)" "(\<Sum>i<2000. 20 + i mod 40) = (79000 :: nat)"
  "(\<Sum>i<2000. 800 + i) = (3599000 :: nat)" "(\<Sum>i<(2000 :: nat). if 160 < i mod 200 then 1 else 0) = (390 :: nat)"
  "(\<Sum>i<(2000 :: nat). if 30 < i mod 40 then 1 else 0) = (450 :: nat)" "(\<Sum>i<(2000 :: nat). if 1777 < i then 1 else 0) = (222 :: nat)"
  using sum_mod [where f = "\<lambda>j. j" and n = 10 and k = 200] sum_mod [where f = "\<lambda>j. j" and n = 50 and k = 40] sum_mod [where f = "\<lambda>j. if 160 < j then 1 else 0" and n = 10 and k = 200]
    sum_mod [where f = "\<lambda>j. if 30 < j then 1 else 0" and n = 50 and k = 40] count_from [of 160 200] count_from [of 30 40] count_from [of 1777 2000]
  by (simp_all add: sum.distrib sum_below)

section \<open>The analysis of the ticks\<close>

definition stats_of :: "('f \<Rightarrow> bool) \<Rightarrow> ('f \<Rightarrow> real) \<Rightarrow> nat \<Rightarrow> 'f scan_stats \<Rightarrow> bool" where
  "stats_of fin val n st \<longleftrightarrow> st_frames st = n \<and>
     has_val fin val (st_speed_sum st) (real (\<Sum>i<n. i mod 200) / 2) \<and>
     has_val fin val (st_temp_sum st) (real (\<Sum>i<n. 20 + i mod 40)) \<and>
     has_val fin val (st_rpm_sum st) (real (\<Sum>i<n. 800 + i)) \<and>
     st_speed_alerts st = of_nat (\<Sum>i<n. if 160 < i mod 200 then 1 else 0) \<and>
     st_temp_alerts st = of_nat (\<Sum>i<n. if 30 < i mod 40 then 1 else 0) \<and>
     st_battery_alerts st = of_nat (\<Sum>i<n. if 1777 < i then 1 else 0)"

lemma length_channels_at [simp]: "length (channels_at F i) = 5"
  by (simp add: channels_at_def)

lemma stats_new_of: "ieee_f64 F fin val rnd \<Longrightarrow> stats_of fin val 0 (stats_new F)"
  using f64_exact(2) [of F fin val rnd 0] representable_int [of 0] by (simp add: stats_of_def stats_new_def)

lemma sum_bounded: "(\<And>i. i < n \<Longrightarrow> f i \<le> c) \<Longrightarrow> (\<Sum>i<n. f i :: nat) \<le> n * c"
  using sum_bounded_above [of "{..<n}" f c] by simp

text \<open>Sums of whole and of half numbers are exact.\<close>

lemma add_exact:
  assumes "ieee_f64 F fin val rnd" and "a + b \<le> 2 ^ 24"
  shows "has_val fin val x (real a) \<Longrightarrow> has_val fin val y (real b) \<Longrightarrow> has_val fin val (f_add F x y) (real (a + b))"
    and "has_val fin val x (real a / 2) \<Longrightarrow> has_val fin val y (real b / 2) \<Longrightarrow> has_val fin val (f_add F x y) (real (a + b) / 2)"
  using f64_exact(3) [OF assms(1), of x "real a" y "real b"] f64_exact(3) [OF assms(1), of x "real a / 2" y "real b / 2"]
    representable_nat [of "a + b"] representable_half_nat [of "a + b"] assms(2)
  by (simp_all add: add_divide_distrib)

lemma analyse_tick:
  assumes ieee: "ieee_f64 F fin val rnd" and "n < 2000" and st: "stats_of fin val n st"
  shows "\<exists>st'. analyse F (channels_at F n) st = Some (Ok (), st') \<and> stats_of fin val (Suc n) st'"
proof -
  note vals = channel_values [OF ieee assms(2)]
  let ?S = "\<lambda>n :: nat. \<Sum>i<n. i mod 200" and ?T = "\<lambda>n :: nat. \<Sum>i<n. 20 + i mod 40" and ?R = "\<lambda>n :: nat. \<Sum>i<n. 800 + i"
  have "?S (Suc n) \<le> Suc n * 200" "?T (Suc n) \<le> Suc n * 60" "?R (Suc n) \<le> Suc n * 2800"
    using assms(2) mod_less_divisor [of 200] mod_less_divisor [of 40] by (intro sum_bounded; fastforce simp: less_imp_le)+
  then have bounds: "?S n + n mod 200 \<le> 2 ^ 24" "?T n + (20 + n mod 40) \<le> 2 ^ 24" "?R n + (800 + n) \<le> 2 ^ 24"
    using assms(2) by simp_all
  note sums = st [unfolded stats_of_def]
  have "has_val fin val (f_add F (st_speed_sum st) (channels_at F n ! 1)) (real (?S (Suc n)) / 2)"
    and "has_val fin val (f_add F (st_temp_sum st) (channels_at F n ! 3)) (real (?T (Suc n)))"
    and "has_val fin val (f_add F (st_rpm_sum st) (channels_at F n ! 2)) (real (?R (Suc n)))"
    using add_exact(2) [OF ieee bounds(1) _ vals(1)] add_exact(1) [OF ieee bounds(2) _ vals(3)]
      add_exact(1) [OF ieee bounds(3) _ vals(2)] sums by (simp_all only: sum.lessThan_Suc)
  then show ?thesis
    using sums channel_alerts [OF ieee assms(2)]
    by (simp add: stats_of_def analyse_def update_def channel_def channel_indices prog_simps bindp_def del: of_nat_sum)
qed


text \<open>The tolerance of the assertions.\<close>

lemma within_nano_near:
  assumes ieee: "ieee_f64 F fin val rnd" and "near fin val x (real_of_rat q) d" and "d \<le> 1 / 10 ^ 10 * 9" and "\<bar>real_of_rat q\<bar> \<le> 1024"
  shows "within_nano F x q"
proof -
  have "near fin val (f_sub F x (f_lit F q)) (real_of_rat q - real_of_rat q) (d + 1 / 10 ^ 12 + 1 / 10 ^ 12)"
    by (rule f64_near(2) [OF ieee assms(2) f64_near(1) [OF ieee assms(4)]]) (use assms(3) in simp_all)
  from f64_near(4) [OF ieee this] have diff: "near fin val (f_abs F (f_sub F x (f_lit F q))) 0 (d + 2 / 10 ^ 12)" by (simp add: add.commute)
  have "near fin val (f_lit F (1 / 10 ^ 9)) (1 / 10 ^ 9) (1 / 10 ^ 12)"
    using f64_near(1) [OF ieee, of "1 / 10 ^ 9"] by (simp add: of_rat_divide)
  from near_less(1) [OF ieee diff this] assms(3) show ?thesis by (simp add: within_nano_def)
qed

lemma within_nano_exact:
  assumes ieee: "ieee_f64 F fin val rnd" and "has_val fin val x (real_of_rat q)" and "\<bar>real_of_rat q\<bar> \<le> 1800" and "representable (real_of_rat q)"
  shows "within_nano F x q"
proof -
  have "has_val fin val (f_lit F q) (real_of_rat q)" by (rule f64_exact(2) [OF ieee assms(4)]) (use assms(3) in simp)
  from f64_exact(5) [OF ieee assms(2) this] representable_int [of 0]
  have "has_val fin val (f_sub F x (f_lit F q)) 0" by simp
  from f64_near(4) [OF ieee has_val_near [OF this]] have diff: "near fin val (f_abs F (f_sub F x (f_lit F q))) 0 0" by simp
  have "near fin val (f_lit F (1 / 10 ^ 9)) (1 / 10 ^ 9) (1 / 10 ^ 12)"
    using f64_near(1) [OF ieee, of "1 / 10 ^ 9"] by (simp add: of_rat_divide)
  from near_less(1) [OF ieee diff this] show ?thesis by (simp add: within_nano_def)
qed

text \<open>All 2000 ticks: the alerts counted and the averages, exactly as derived by hand.\<close>

lemma final_stats:
  assumes ieee: "ieee_f64 F fin val rnd" and st: "stats_of fin val 2000 st"
  shows "st_frames st = 2000 \<and> st_speed_alerts st = 390 \<and> st_temp_alerts st = 450 \<and> st_battery_alerts st = 222 \<and>
    within_nano F (f_div F (st_speed_sum st) (f_of_nat F 2000)) (4975 / 100) \<and>
    within_nano F (f_div F (st_temp_sum st) (f_of_nat F 2000)) (395 / 10) \<and>
    within_nano F (f_div F (st_rpm_sum st) (f_of_nat F 2000)) (17995 / 10)"
proof -
  note sums = st [unfolded stats_of_def totals]
  have n: "has_val fin val (f_of_nat F 2000) 2000" using f64_exact(1) [OF ieee, of 2000] by simp
  have rep: "representable (199 / 4)" "representable (79 / 2)" "representable (3599 / 2)"
    by (rule representableI [of _ "199 * 64"], simp, simp) (rule representableI [of _ "79 * 128"], simp, simp, rule representableI [of _ "3599 * 128"], simp, simp)
  have "has_val fin val (f_div F (st_speed_sum st) (f_of_nat F 2000)) (199 / 4)"
    and "has_val fin val (f_div F (st_temp_sum st) (f_of_nat F 2000)) (79 / 2)"
    and "has_val fin val (f_div F (st_rpm_sum st) (f_of_nat F 2000)) (3599 / 2)"
    using f64_exact(6) [OF ieee, of "st_speed_sum st" "99500" _ 2000] f64_exact(6) [OF ieee, of "st_temp_sum st" "79000" _ 2000]
      f64_exact(6) [OF ieee, of "st_rpm_sum st" "3599000" _ 2000] n rep sums by simp_all
  with within_nano_exact [OF ieee, of _ "4975 / 100"] within_nano_exact [OF ieee, of _ "395 / 10"]
    within_nano_exact [OF ieee, of _ "17995 / 10"] rep sums show ?thesis by (simp add: of_rat_divide)
qed

lemma first_alert_time: "ieee_f64 F fin val rnd \<Longrightarrow> within_nano F (channels_at F 161 ! 0) (161 / 100)"
  using within_nano_near [of F fin val rnd "channels_at F 161 ! 0" "161 / 100"] channel_values(4) [of F fin val rnd 161]
  by (simp add: of_rat_divide)


section \<open>The runs\<close>

text \<open>The FlatBuffers contract: the vector of a tick finishes as a payload whose root_of reads as that vector.\<close>

definition channel_roots :: "'b builder_ops \<Rightarrow> ('b, 'offset, 'f) channel_builder \<Rightarrow> 'f f64_ops \<Rightarrow>
    (bytes \<Rightarrow> (string, 'f list) outcome) \<Rightarrow> (nat \<Rightarrow> bytes) \<Rightarrow> bool" where
  "channel_roots ops vb F root_of enc \<longleftrightarrow> (\<forall>i < EVENT_COUNT.
     (\<forall>b. let (v, b1) = fst vb (channels_at F i) (b_reset ops b) in b_finished_data ops (snd vb v b1) = Some (enc i)) \<and>
     root_of (enc i) = Ok (channels_at F i))"

lemma capture_exact:
  assumes "library_framer cursor_write field accept (sw_framer w)" and "channel_roots ops vb F root_of enc"
    and "list_all (\<lambda>i. i < EVENT_COUNT \<and> accept (enc i)) is"
    and "cursor_pos (sw_writer w) = length (cursor_data (sw_writer w))"
  shows "\<exists>w'. capture ops vb F is b w = Some (Ok (), w') \<and>
    cursor_data (sw_writer w') = cursor_data (sw_writer w) @ encode_stream field (map enc is)"
  using assms(1,3,4)
proof (induction "is" arbitrary: b w)
  case (Cons i "is")
  obtain v b1 where b1: "fst vb (channels_at F i) (b_reset ops b) = (v, b1)" by force
  have "b_finished_data ops (snd vb v b1) = Some (enc i)"
    using assms(2) Cons.prems(2) b1 by (auto simp: channel_roots_def split: prod.splits dest!: spec [of _ i] spec [of _ b])
  from write_finished_at_end [OF Cons.prems(1) this _ Cons.prems(3)] Cons.prems(2) obtain w1 where
    "write_finished ops (snd vb v b1) w = Some (Ok (), w1)" "sw_framer w1 = sw_framer w"
    "cursor_pos (sw_writer w1) = length (cursor_data (sw_writer w1))"
    "cursor_data (sw_writer w1) = cursor_data (sw_writer w) @ encode_frame field (enc i)" by auto
  with Cons.IH [of w1 "snd vb v b1"] Cons.prems(1,2) b1 show ?case by (auto simp: bindp_Ok Let_def)
qed simp

lemma feed_ticks:
  assumes ieee: "ieee_f64 F fin val rnd" and decode: "\<And>i. i < 2000 \<Longrightarrow> decode (enc i) = Ok (channels_at F i)"
  shows "n \<le> 2000 \<Longrightarrow> \<exists>st. feed (\<lambda>p. bindp (lift_outcome (decode p)) (analyse F)) (map enc [0..<n]) (stats_new F) =
    Some (Ok (), [], st) \<and> stats_of fin val n st"
proof (induction n)
  case 0
  then show ?case using stats_new_of [OF ieee] by simp
next
  case (Suc n)
  then obtain st where st: "feed (\<lambda>p. bindp (lift_outcome (decode p)) (analyse F)) (map enc [0..<n]) (stats_new F) = Some (Ok (), [], st)"
    "stats_of fin val n st" by auto
  from analyse_tick [OF ieee _ st(2)] Suc.prems obtain st' where
    "analyse F (channels_at F n) st = Some (Ok (), st')" "stats_of fin val (Suc n) st'" by auto
  moreover from this decode [of n] Suc.prems have "bindp (lift_outcome (decode (enc n))) (analyse F) st = Some (Ok (), st')"
    by (simp add: prog_simps)
  ultimately show ?case using st(1) by (simp add: feed_append)
qed

text \<open>The iteration by hand passes over the frames without an alert and stops right after the first one with it.\<close>

lemma scan_ConsD:
  assumes "scan fmt c = (p # ps, e)"
  obtains rest where "next_frame fmt c = Frame p rest" and "scan fmt rest = (ps, e)"
  using assms by (cases "next_frame fmt c") (auto simp: scan_End scan_Bad scan_Frame prod_eq_iff)

context frame_reader
begin

lemma next_message_frame:
  assumes "sr_deframer s = dfr" and "healthy (sr_reader s)" and "scan fmt (content (sr_reader s)) = (p # ps, e)"
  obtains s' where "next_message s = Some (Ok (Some p), s')" and "sr_deframer s' = dfr" and "healthy (sr_reader s')"
    and "scan fmt (content (sr_reader s')) = (ps, e)"
proof -
  obtain rest where frame: "next_frame fmt (content (sr_reader s)) = Frame p rest" and rest: "scan fmt rest = (ps, e)"
    by (rule scan_ConsD [OF assms(3)])
  from read_message_or_fault [OF assms(1,2)] frame not_faulted obtain s' where
    "read_message s = Some (Ok (Some p), s')" "healthy (sr_reader s')" "sr_deframer s' = dfr" "content (sr_reader s') = rest"
    by auto
  with that rest show ?thesis by (simp add: next_message_def)
qed

lemma first_alert_stops:
  assumes "\<And>p. p \<in> set ps \<Longrightarrow> \<exists>cs. decode p = Ok cs \<and> IDX_SPEED_KPH < length cs \<and> \<not> f_less F (f_lit F 80) (cs ! IDX_SPEED_KPH)"
    and "decode q = Ok cs" and "IDX_SPEED_KPH < length cs" and "f_less F (f_lit F 80) (cs ! IDX_SPEED_KPH)"
  shows "sr_deframer s = dfr \<Longrightarrow> healthy (sr_reader s) \<Longrightarrow> scan fmt (content (sr_reader s)) = (ps @ q # qs, e) \<Longrightarrow>
    \<exists>s'. first_alert F decode (s, n) = Some (Ok (Some (cs ! IDX_TIMESTAMP_S)), s', n + length ps + 1) \<and>
      healthy (sr_reader s') \<and> scan fmt (content (sr_reader s')) = (qs, e)"
  using assms(1)
proof (induction ps arbitrary: s n)
  case Nil
  obtain s' where "next_message s = Some (Ok (Some q), s')" "healthy (sr_reader s')" "scan fmt (content (sr_reader s')) = (qs, e)"
    using next_message_frame [OF Nil.prems(1,2)] Nil.prems(3) by (metis append_Nil)
  with assms(2-4) show ?case by (simp add: first_alert.simps [of F decode "(s, n)"])
next
  case (Cons p ps)
  obtain s1 where s1: "next_message s = Some (Ok (Some p), s1)" "sr_deframer s1 = dfr" "healthy (sr_reader s1)"
    "scan fmt (content (sr_reader s1)) = (ps @ q # qs, e)"
    using next_message_frame [OF Cons.prems(1,2)] Cons.prems(3) by (metis append_Cons)
  from Cons.prems(4) [of p] obtain ds where "decode p = Ok ds" "IDX_SPEED_KPH < length ds"
    "\<not> f_less F (f_lit F 80) (ds ! IDX_SPEED_KPH)" by auto
  with s1(1) have "first_alert F decode (s, n) = first_alert F decode (s1, n + 1)"
    by (simp add: first_alert.simps [of F decode "(s, n)"])
  with Cons.IH [OF s1(2-4), of "n + 1"] Cons.prems(4) show ?case by simp
qed

end


section \<open>Properties\<close>

text \<open>C25: The reference workload proves itself: on every FlatBuffers builder that keeps its contract and from the
  laws of IEEE 754 alone, no assertion of the program fails. The scan sees all 2000 frames and counts 390,
  450 and 222 alerts, the averages are those derived by hand, and the iteration by hand stops after 162
  frames at 1.61 seconds.\<close>

theorem agent_assertions_hold:
  assumes ieee: "ieee_f64 F fin val rnd" and roots: "channel_roots ops vb F root_of enc"
    and "\<forall>i < EVENT_COUNT. length (enc i) \<le> fb_max" and "fb_max \<le> u32_max"
  shows "agent_main fb_max F ops vb root_of = Some (Ok ())"
proof -
  let ?decode = "telemetry_frame_from_payload root_of"
  let ?w = "writer_new ops (cursor_new []) (DefaultFramer cursor_write) ()"
  let ?dfr = "DefaultDeframer cursor_read (default_deframer_new fb_max) :: (cursor, unit) deframer"
  let ?journal = "encode_stream (\<lambda>_. []) (map enc [0..<2000])"
  have decode: "?decode (enc i) = Ok (channels_at F i)" if "i < 2000" for i
    using roots that by (simp add: telemetry_frame_from_payload_def channel_roots_def EVENT_COUNT_def)
  have framer: "library_framer cursor_write (\<lambda>_. []) (\<lambda>p. length p \<le> u32_max) (sw_framer ?w)"
    by (simp add: writer_new_def plain_framer)
  have "length (enc i) \<le> u32_max" if "i < EVENT_COUNT" for i
    by (rule le_trans [OF _ assms(4)]) (use assms(3) that in blast)
  then have small: "list_all (\<lambda>i. i < EVENT_COUNT \<and> length (enc i) \<le> u32_max) [0..<2000]"
    by (simp add: list_all_iff EVENT_COUNT_def)
  have w: "cursor_pos (sw_writer ?w) = length (cursor_data (sw_writer ?w))" "cursor_data (sw_writer ?w) = []"
    by (simp_all add: writer_new_def cursor_new_def)
  from capture_exact [OF framer roots small w(1), of "b_new ops", unfolded w(2) append_Nil] obtain w' where
    "capture ops vb F [0..<2000] (b_new ops) ?w = Some (Ok (), w')" "cursor_data (sw_writer w') = ?journal" by blast
  then have captured: "run_writer (capture ops vb F [0..<2000] (b_new ops)) ?w = Some (Ok ((), ?journal))"
    by (simp add: run_writer_def)
  have lib: "library_deframer cursor_read (plain_format fb_max) ?dfr"
    using plain_deframer [where d = "default_deframer_new fb_max"]
    by (simp add: default_deframer_new_def DEFAULT_MAX_FRAME_LEN_def)
  have fits: "list_all (\<lambda>p. fits (plain_format fb_max) p \<and> True) (map enc [0..<2000])"
    using assms(3,4) by (auto simp: list_all_iff fits_def plain_format_def EVENT_COUNT_def)
  from feed_ticks [OF ieee decode, of 2000] obtain st where
    st: "feed (\<lambda>p. bindp (lift_outcome (?decode p)) (analyse F)) (map enc [0..<2000]) (stats_new F) = Some (Ok (), [], st)"
      "stats_of fin val 2000 st" by auto
  note scanned = run_reader_frames [OF lib speaks_plain fits st(1), unfolded run_reader_def]
  have whole: "scan (plain_format fb_max) ?journal = (map enc [0..<161] @ enc 161 # map enc [162..<2000], Clean)"
  proof -
    have "[0..<2000] = [0..<161] @ 161 # [162..<2000 :: nat]"
      using upt_add_eq_append [of 0 161 1839] upt_conv_Cons [of 161 2000] by simp
    with wire_codec.scan_encode [OF speaks_wire_codec [OF speaks_plain] fits, of "[]"] show ?thesis by simp
  qed
  have quiet: "\<exists>cs. ?decode p = Ok cs \<and> IDX_SPEED_KPH < length cs \<and> \<not> f_less F (f_lit F 80) (cs ! IDX_SPEED_KPH)"
    if p: "p \<in> set (map enc [0..<161])" for p
  proof -
    from p obtain i where "i < 161" "p = enc i" by auto
    with decode [of i] channel_alerts(1) [OF ieee, of i] show ?thesis by (simp add: IDX_SPEED_KPH_def)
  qed
  have alert: "IDX_SPEED_KPH < length (channels_at F 161)" "f_less F (f_lit F 80) (channels_at F 161 ! IDX_SPEED_KPH)"
    using channel_alerts(1) [OF ieee, of 161] by (simp_all add: IDX_SPEED_KPH_def)
  have "sr_deframer (test_reader ?journal ?dfr) = ?dfr" "scan (plain_format fb_max) (cursor_rest (sr_reader (test_reader ?journal ?dfr))) =
      (map enc [0..<161] @ enc 161 # map enc [162..<2000], Clean)"
    using whole by simp_all
  note start = this
  have "?decode (enc 161) = Ok (channels_at F 161)" by (rule decode) simp
  from frame_reader.first_alert_stops [OF library_deframer_contract [OF lib cursor_source.reliable_source_axioms],
      where F = F and ps = "map enc [0..<161]" and decode = ?decode and q = "enc 161" and n = 0,
      OF quiet this alert start(1) TrueI start(2)]
  obtain s' where found: "first_alert F ?decode (test_reader ?journal ?dfr, 0) = Some (Ok (Some (channels_at F 161 ! 0)), s', 162)"
    by (auto simp: IDX_TIMESTAMP_S_def)
  show ?thesis
    using final_stats [OF ieee st(2)] first_alert_time [OF ieee]
    by (simp add: agent_main_def EVENT_COUNT_def captured process_typed_def scanned found assert_then_def)
qed


text \<open>Over the rationals, with a payload that is the number of the tick in two bytes.\<close>

definition tick_bytes :: "nat \<Rightarrow> bytes" where
  "tick_bytes i = [of_nat (i div 256), of_nat (i mod 256)]"

definition tick_builder :: "(nat \<times> bytes option, rat list, rat) channel_builder" where
  "tick_builder = (\<lambda>xs b. (xs, b), \<lambda>xs b. (fst b, Some (tick_bytes (nat \<lfloor>xs ! 2 - 800\<rfloor>))))"

definition tick_root :: "bytes \<Rightarrow> (string, rat list) outcome" where
  "tick_root payload = Ok (channels_at exact_ops (unat (payload ! 0) * 256 + unat (payload ! 1)))"

lemma tick_roots: "channel_roots sample_builder tick_builder exact_ops tick_root tick_bytes"
  unfolding channel_roots_def
proof (intro allI impI conjI)
  fix i and b :: "nat \<times> bytes option" assume i: "i < EVENT_COUNT"
  have "channels_at exact_ops i ! 2 = 800 + of_nat i" by (simp add: channels_at_def exact_ops_def)
  then show "let (v, b1) = fst tick_builder (channels_at exact_ops i) (b_reset sample_builder b)
      in b_finished_data sample_builder (snd tick_builder v b1) = Some (tick_bytes i)"
    by (simp add: tick_builder_def sample_builder_def)
  have "i div 256 < 256" using i by (simp add: EVENT_COUNT_def)
  then show "tick_root (tick_bytes i) = Ok (channels_at exact_ops i)"
    by (simp add: tick_root_def tick_bytes_def unat_of_nat)
qed

theorem agent_assertions_hold_witness:
  "agent_main 64 exact_ops sample_builder tick_builder tick_root = Some (Ok ())"
proof -
  have "\<forall>i < EVENT_COUNT. length (tick_bytes i) \<le> 64" by (simp add: tick_bytes_def)
  from agent_assertions_hold [OF exact_ops_ieee tick_roots this] show ?thesis by (simp add: u32_max_def)
qed

end
