(* ===== verification/FS_Ingest.thy ===== *)
theory FS_Ingest
  imports FS_Lobster "HOL-Library.Char_ord" "HOL-Library.List_Lexorder"
begin

text \<open>
  The ingestion of a directory of archives: \<^verbatim>\<open>tests/harness/lobster_common.rs\<close>, which selects the archives
  that are listed with the hash they have, and the main function of \<^verbatim>\<open>examples/ingest_lobster.rs\<close>, which
  turns each of them into two streams and a sidecar with their counts. The file system, the readers of
  archives and of CSV, and SHA-256 are arguments. The texts are those of ASCII, so that a character is a
  byte, and the texts of a directory are names in UTF-8; the notices on the terminal are not modelled.
\<close>

section \<open>Text\<close>

definition is_whitespace :: "char \<Rightarrow> bool" where
  "is_whitespace c = (let n = (of_char c :: nat) in 9 \<le> n \<and> n \<le> 13 \<or> n = 32)"

definition trim :: "string \<Rightarrow> string" where
  "trim s = dropWhile is_whitespace (rev (dropWhile is_whitespace (rev s)))"

definition to_lowercase :: "string \<Rightarrow> string" where
  "to_lowercase s = map (\<lambda>c. let n = (of_char c :: nat) in if 65 \<le> n \<and> n \<le> 90 then char_of (n + 32) else c) s"

text \<open>\<^verbatim>\<open>str::lines\<close>: a line ends with a line feed, and a carriage return before that belongs to its end.\<close>

definition strip_cr :: "string \<Rightarrow> string" where
  "strip_cr line = (if line \<noteq> [] \<and> last line = char_of (13 :: nat) then butlast line else line)"

fun lines_from :: "string \<Rightarrow> string \<Rightarrow> string list" where
  "lines_from line [] = (if line = [] then [] else [line])"
| "lines_from line (c # cs) =
     (if c = char_of (10 :: nat) then strip_cr line # lines_from [] cs else lines_from (line @ [c]) cs)"

fun words_from :: "string \<Rightarrow> string \<Rightarrow> string list" where
  "words_from word [] = (if word = [] then [] else [word])"
| "words_from word (c # cs) =
     (if is_whitespace c then (if word = [] then words_from [] cs else word # words_from [] cs)
      else words_from (word @ [c]) cs)"

definition split_whitespace :: "string \<Rightarrow> string list" where
  "split_whitespace s = words_from [] s"

section \<open>The list of hashes\<close>

fun shasum_lines :: "nat \<Rightarrow> string list \<Rightarrow> (string \<rightharpoonup> string) \<Rightarrow> (string, string \<rightharpoonup> string) outcome" where
  "shasum_lines idx [] sums = Ok sums"
| "shasum_lines idx (raw # rest) sums =
     (let line = trim raw
      in if line = [] then shasum_lines (idx + 1) rest sums
         else case split_whitespace line of
                fname # hash # _ \<Rightarrow> shasum_lines (idx + 1) rest (sums(fname \<mapsto> to_lowercase hash))
              | _ \<Rightarrow> Err (''Malformed SHASUMS.txt line '' @ dec (idx + 1) @ '': '' @ line))"

definition parse_shasums :: "string \<Rightarrow> (io_error, string) outcome \<Rightarrow> (string, string \<rightharpoonup> string) outcome" where
  "parse_shasums shasums_path read_to_string =
     and_then (map_err (\<lambda>_. ''Missing SHASUMS.txt at '' @ shasums_path) read_to_string) (\<lambda>text.
     shasum_lines 0 (lines_from [] text) Map.empty)"

section \<open>The archives of a directory\<close>

text \<open>An entry is its name and what reading the whole file gives.\<close>

record dir_entry =
  de_name :: string
  de_contents :: "(io_error, bytes) outcome"

text \<open>\<^verbatim>\<open>Path::file_stem\<close> and \<^verbatim>\<open>Path::extension\<close> of a file name: a dot in front does not count.\<close>

definition split_at_dot :: "string \<Rightarrow> string \<times> string option" where
  "split_at_dot name =
     (let rest = dropWhile (\<lambda>c. c \<noteq> CHR ''.'') (rev name)
      in if rest = [] \<or> tl rest = [] then (name, None)
         else (rev (tl rest), Some (rev (takeWhile (\<lambda>c. c \<noteq> CHR ''.'') (rev name)))))"

fun verified_bases :: "(bytes \<Rightarrow> string) \<Rightarrow> (string \<rightharpoonup> string) \<Rightarrow> dir_entry list \<Rightarrow> ('e, string list) outcome" where
  "verified_bases sha256 allowed [] = Ok []"
| "verified_bases sha256 allowed (entry # entries) =
     (if snd (split_at_dot (de_name entry)) \<noteq> Some ''zip'' then verified_bases sha256 allowed entries
      else case allowed (de_name entry) of
             None \<Rightarrow> verified_bases sha256 allowed entries
           | Some expected \<Rightarrow>
               (case de_contents entry of
                  Ok data \<Rightarrow>
                    if sha256 data \<noteq> expected then verified_bases sha256 allowed entries
                    else map_ok (\<lambda>bases. fst (split_at_dot (de_name entry)) # bases) (verified_bases sha256 allowed entries)
                | _ \<Rightarrow> Panic))"

text \<open>\<^verbatim>\<open>entries.filter_map(|e| e.ok())\<close>; texts are compared as byte strings.\<close>

definition find_verified_zip_file_bases :: "(bytes \<Rightarrow> string) \<Rightarrow> string \<Rightarrow> (io_error, string) outcome \<Rightarrow>
    (io_error, (io_error, dir_entry) outcome list) outcome \<Rightarrow> ('e, string list) outcome" where
  "find_verified_zip_file_bases sha256 shasums_path shasums read_dir =
     (case parse_shasums shasums_path shasums of
        Ok allowed \<Rightarrow>
          (case read_dir of
             Ok entries \<Rightarrow>
               map_ok sort (verified_bases sha256 allowed
                 (List.map_filter (\<lambda>e. case e of Ok entry \<Rightarrow> Some entry | _ \<Rightarrow> None) entries))
           | _ \<Rightarrow> Panic)
      | _ \<Rightarrow> Panic)"

section \<open>The main function\<close>

definition zips_dir :: string where
  "zips_dir = ''tests/corpus/lobster/zips''"

definition out_dir :: string where
  "out_dir = ''tests/corpus/lobster''"

text \<open>
  The outside world. Opening and creating a file is a function of its path: the archives do not change
  during the run. The state of the run is what it leaves: for each stream its path and the writer as it
  was when it went out of scope, and the sidecars.
\<close>

record ('file, 'w) ingest_env =
  env_sha256 :: "bytes \<Rightarrow> string"
  env_shasums :: "(io_error, string) outcome"
  env_read_dir :: "(io_error, (io_error, dir_entry) outcome list) outcome"
  env_open :: "string \<Rightarrow> (io_error, 'file) outcome"
  env_archive :: "'file \<Rightarrow> (string, zip_entry list) outcome"
  env_records :: "bytes \<Rightarrow> csv_records"
  env_create_dir_all :: "(io_error, unit) outcome"
  env_create :: "string \<Rightarrow> (io_error, 'w) outcome"
  env_write :: "string \<Rightarrow> string \<Rightarrow> (io_error, unit) outcome"

record 'w ingest_state =
  is_streams :: "(string \<times> 'w) list"
  is_counts :: "(string \<times> string) list"

definition zip_path :: "string \<Rightarrow> string" where
  "zip_path base = zips_dir @ ''/'' @ base @ ''.zip''"

definition out_path :: "string \<Rightarrow> string \<Rightarrow> string" where
  "out_path base rest = out_dir @ ''/'' @ base @ rest"

definition csv_named :: "string \<Rightarrow> string \<Rightarrow> bool" where
  "csv_named part n = (suffix ''.csv'' n \<and> sublist part n)"

definition message_csv :: "('file, 'w) ingest_env \<Rightarrow> string \<Rightarrow> (ingest_error, bytes) outcome" where
  "message_csv env base =
     open_csv_from_zip (env_open env (zip_path base)) (env_archive env) (zip_path base) (csv_named ''_message_'')"

definition book_csv :: "('file, 'w) ingest_env \<Rightarrow> string \<Rightarrow> (ingest_error, bytes) outcome" where
  "book_csv env base =
     open_csv_from_zip (env_open env (zip_path base)) (env_archive env) (zip_path base) (csv_named ''_orderbook_'')"

definition counts_text :: "nat \<Rightarrow> nat \<Rightarrow> string" where
  "counts_text mc oc =
     ''messages: '' @ dec mc @ [char_of (10 :: nat)] @ ''orderbook: '' @ dec oc @ [char_of (10 :: nat)]"

text \<open>Both streams of an archive, with the writers they leave.\<close>

definition write_streams :: "('f, 'b, 'v, 'off) lobster \<Rightarrow> 'b builder_ops \<Rightarrow> 'w write_op \<Rightarrow> 'w flush_op \<Rightarrow>
    ('file, 'w) ingest_env \<Rightarrow> string \<Rightarrow> bytes \<Rightarrow> bytes \<Rightarrow> ('w ingest_state, ingest_error, nat \<times> nat) prog" where
  "write_streams lob ops wr fl env base mb ob st =
     (let m_out = out_path base ''-message.bin''; o_out = out_path base ''-orderbook.bin''
      in map_option (\<lambda>(out, sinks). (out,
             case sinks of
               None \<Rightarrow> st
             | Some (s, t) \<Rightarrow> st\<lparr>is_streams := is_streams st @
                 [(m_out, sw_writer (sk_writer s)), (o_out, sw_writer (sk_writer t))]\<rparr>))
           (write_pair_streams lob ops wr fl (env_records env mb) (env_records env ob)
              (env_create env m_out) (env_create env o_out)))"

definition write_counts :: "('file, 'w) ingest_env \<Rightarrow> string \<Rightarrow> string \<Rightarrow> ('w ingest_state, ingest_error, unit) prog" where
  "write_counts env counts_path counts st =
     (case env_write env counts_path counts of
        Ok _ \<Rightarrow> Some (Ok (), st\<lparr>is_counts := is_counts st @ [(counts_path, counts)]\<rparr>)
      | Err e \<Rightarrow> Some (Err (IngestIo e), st)
      | Panic \<Rightarrow> Some (Panic, st))"

text \<open>The second lookup is made whatever the first gave.\<close>

definition ingest_archive :: "('f, 'b, 'v, 'off) lobster \<Rightarrow> 'b builder_ops \<Rightarrow> 'w write_op \<Rightarrow> 'w flush_op \<Rightarrow>
    ('file, 'w) ingest_env \<Rightarrow> string \<Rightarrow> ('w ingest_state, ingest_error, unit) prog" where
  "ingest_archive lob ops wr fl env base =
     (case (message_csv env base, book_csv env base) of
        (Panic, _) \<Rightarrow> panic
      | (_, Panic) \<Rightarrow> panic
      | (Ok mb, Ok ob) \<Rightarrow>
          bindp (write_streams lob ops wr fl env base mb ob) (\<lambda>(mc, oc).
          write_counts env (out_path base ''-counts.txt'') (counts_text mc oc))
      | (Ok _, Err _) \<Rightarrow> fail (MissingPair (zip_path base))
      | (Err _, Ok _) \<Rightarrow> fail (MissingPair (zip_path base))
      | (Err _, Err _) \<Rightarrow> ret ())"

fun ingest_archives :: "('f, 'b, 'v, 'off) lobster \<Rightarrow> 'b builder_ops \<Rightarrow> 'w write_op \<Rightarrow> 'w flush_op \<Rightarrow>
    ('file, 'w) ingest_env \<Rightarrow> string list \<Rightarrow> nat \<Rightarrow> ('w ingest_state, ingest_error, nat) prog" where
  "ingest_archives lob ops wr fl env [] processed = ret processed"
| "ingest_archives lob ops wr fl env (base # file_bases) processed =
     bindp (ingest_archive lob ops wr fl env base) (\<lambda>_.
     ingest_archives lob ops wr fl env file_bases (processed + 1))"

definition listed_bases :: "('file, 'w) ingest_env \<Rightarrow> (ingest_error, string list) outcome" where
  "listed_bases env =
     find_verified_zip_file_bases (env_sha256 env) (zips_dir @ ''/SHASUMS.txt'') (env_shasums env) (env_read_dir env)"

text \<open>The assertion at the end is one of debug builds.\<close>

definition ingest_main :: "('f, 'b, 'v, 'off) lobster \<Rightarrow> 'b builder_ops \<Rightarrow> 'w write_op \<Rightarrow> 'w flush_op \<Rightarrow>
    ('file, 'w) ingest_env \<Rightarrow> ('w ingest_state, ingest_error, unit) prog" where
  "ingest_main lob ops wr fl env =
     bindp (lift_outcome (listed_bases env)) (\<lambda>file_bases.
     if file_bases = [] then ret ()
     else bindp (lift_outcome (map_err IngestIo (env_create_dir_all env))) (\<lambda>_.
          bindp (ingest_archives lob ops wr fl env file_bases 0) (\<lambda>processed.
          if 0 < processed then ret () else panic)))"

section \<open>The selection\<close>

text \<open>A list as it is published: a name and a hash on each line.\<close>

definition plain_word :: "string \<Rightarrow> bool" where
  "plain_word w \<longleftrightarrow> w \<noteq> [] \<and> list_all (\<lambda>c. \<not> is_whitespace c) w"

definition shasums_text :: "(string \<times> string) list \<Rightarrow> string" where
  "shasums_text rows = concat (map (\<lambda>(name, hash). name @ '' '' @ hash @ [char_of (10 :: nat)]) rows)"

lemma whitespace_simps [simp]: "is_whitespace CHR '' ''" "is_whitespace (char_of (10 :: nat))"
  by (simp_all add: is_whitespace_def)

lemma space_no_feed [simp]: "CHR '' '' \<noteq> char_of (10 :: nat)"
  by code_simp

lemma plain_word_no_feed: "plain_word w \<Longrightarrow> c \<in> set w \<Longrightarrow> c \<noteq> char_of (10 :: nat)"
  by (auto simp: plain_word_def list_all_iff)

lemma plain_word_last: "plain_word w \<Longrightarrow> \<not> is_whitespace (last w)"
  by (auto simp: plain_word_def list_all_iff)

lemma plain_word_hd: "plain_word w \<Longrightarrow> \<not> is_whitespace (hd w)"
  by (auto simp: plain_word_def list_all_iff)

lemma words_from_plain: "list_all (\<lambda>c. \<not> is_whitespace c) w \<Longrightarrow> words_from acc (w @ rest) = words_from (acc @ w) rest"
  by (induction w arbitrary: acc) auto

lemma split_whitespace_row:
  assumes "plain_word name" and "plain_word hash"
  shows "split_whitespace (name @ '' '' @ hash) = [name, hash]"
  using assms words_from_plain [of hash "[]" "[]"]
  by (simp add: split_whitespace_def plain_word_def words_from_plain)

lemma dropWhile_hd: "xs \<noteq> [] \<Longrightarrow> \<not> P (hd xs) \<Longrightarrow> dropWhile P xs = xs"
  by (cases xs) auto

lemma trim_row:
  assumes "plain_word name" and "plain_word hash"
  shows "trim (name @ '' '' @ hash) = name @ '' '' @ hash"
proof -
  have "hash \<noteq> []" "name \<noteq> []" using assms by (simp_all add: plain_word_def)
  then have "dropWhile is_whitespace (rev (name @ '' '' @ hash)) = rev (name @ '' '' @ hash)"
    using plain_word_last [OF assms(2)] by (intro dropWhile_hd) (auto simp: hd_append hd_rev)
  moreover have "dropWhile is_whitespace (name @ '' '' @ hash) = name @ '' '' @ hash"
    using \<open>name \<noteq> []\<close> plain_word_hd [OF assms(1)] by (intro dropWhile_hd) auto
  ultimately show ?thesis by (simp only: trim_def rev_rev_ident)
qed

lemma lines_from_append:
  "list_all (\<lambda>c. c \<noteq> char_of (10 :: nat)) line \<Longrightarrow>
     lines_from acc (line @ char_of (10 :: nat) # rest) = strip_cr (acc @ line) # lines_from [] rest"
  by (induction line arbitrary: acc) auto

lemma lines_of_rows:
  assumes "list_all (\<lambda>(name, hash). plain_word name \<and> plain_word hash) rows"
  shows "lines_from [] (shasums_text rows) = map (\<lambda>(name, hash). name @ '' '' @ hash) rows"
  using assms
proof (induction rows)
  case Nil
  then show ?case by (simp add: shasums_text_def)
next
  case (Cons row rows)
  obtain name hash where row: "row = (name, hash)" by (cases row)
  with Cons.prems have plain: "plain_word name" "plain_word hash" by simp_all
  then have "list_all (\<lambda>c. c \<noteq> char_of (10 :: nat)) (name @ '' '' @ hash)"
    by (auto simp: list_all_iff dest: plain_word_no_feed)
  from lines_from_append [OF this, of "[]" "shasums_text rows"]
  have "lines_from [] (shasums_text (row # rows)) = strip_cr (name @ '' '' @ hash) # lines_from [] (shasums_text rows)"
    by (simp add: row shasums_text_def)
  moreover have "hash \<noteq> []" using plain(2) by (simp add: plain_word_def)
  then have "last (name @ '' '' @ hash) = last hash" by simp
  then have "last (name @ '' '' @ hash) \<noteq> char_of (13 :: nat)"
    using plain_word_last [OF plain(2)] by (auto simp: is_whitespace_def)
  then have "strip_cr (name @ '' '' @ hash) = name @ '' '' @ hash" by (simp add: strip_cr_def)
  ultimately show ?case using Cons by (simp add: row)
qed

lemma shasum_lines_rows:
  assumes "list_all (\<lambda>(name, hash). plain_word name \<and> plain_word hash) rows"
  shows "shasum_lines idx (map (\<lambda>(name, hash). name @ '' '' @ hash) rows) sums =
    Ok (sums ++ map_of (rev (map (apsnd to_lowercase) rows)))"
  using assms
proof (induction rows arbitrary: idx sums)
  case (Cons row rows)
  obtain name hash where row: "row = (name, hash)" by (cases row)
  with Cons.prems have "plain_word name" "plain_word hash" by simp_all
  note this [THEN trim_row] this [THEN split_whitespace_row]
  with Cons row show ?case by (simp add: Let_def map_add_def fun_eq_iff split: option.split)
qed simp

lemma parse_shasums_rows:
  assumes "list_all (\<lambda>(name, hash). plain_word name \<and> plain_word hash) rows"
  shows "parse_shasums shasums_path (Ok (shasums_text rows)) = Ok (map_of (rev (map (apsnd to_lowercase) rows)))"
  using shasum_lines_rows [OF assms, of 0 Map.empty]
  by (simp only: parse_shasums_def and_then_def lines_of_rows [OF assms] map_err.simps outcome.case empty_map_add)

text \<open>What the selection means: the archives on the list, and those among them that have the listed hash.\<close>

definition listed_zip :: "(string \<rightharpoonup> string) \<Rightarrow> dir_entry \<Rightarrow> bool" where
  "listed_zip allowed entry \<longleftrightarrow>
     snd (split_at_dot (de_name entry)) = Some ''zip'' \<and> allowed (de_name entry) \<noteq> None"

definition intact_zip :: "(bytes \<Rightarrow> string) \<Rightarrow> (string \<rightharpoonup> string) \<Rightarrow> dir_entry \<Rightarrow> bool" where
  "intact_zip sha256 allowed entry \<longleftrightarrow>
     listed_zip allowed entry \<and>
     (case de_contents entry of Ok data \<Rightarrow> allowed (de_name entry) = Some (sha256 data) | _ \<Rightarrow> False)"

definition unreadable_zip :: "(string \<rightharpoonup> string) \<Rightarrow> dir_entry \<Rightarrow> bool" where
  "unreadable_zip allowed entry \<longleftrightarrow>
     listed_zip allowed entry \<and> (case de_contents entry of Ok _ \<Rightarrow> False | _ \<Rightarrow> True)"

lemma verified_bases_step:
  "verified_bases sha256 allowed (entry # entries) =
     (if unreadable_zip allowed entry then Panic
      else if intact_zip sha256 allowed entry
      then map_ok (\<lambda>bases. fst (split_at_dot (de_name entry)) # bases) (verified_bases sha256 allowed entries)
      else verified_bases sha256 allowed entries)"
  by (auto simp: listed_zip_def intact_zip_def unreadable_zip_def split: option.splits outcome.splits)

lemma verified_bases_exact:
  "verified_bases sha256 allowed entries =
     (if list_ex (unreadable_zip allowed) entries then Panic
      else Ok (map (\<lambda>e. fst (split_at_dot (de_name e))) (filter (intact_zip sha256 allowed) entries)))"
  by (induction entries) (simp_all add: verified_bases_step del: verified_bases.simps(2))

section \<open>What a run leaves\<close>

text \<open>
  What an archive has become when it counts as processed: two streams of as many frames as each of its
  files has records, each book under the timestamp of its message, and a sidecar with that number; or
  nothing at all, when neither file could be had, for whatever reason.
\<close>

definition rows_of :: "('r \<Rightarrow> (ingest_error, 'a) outcome) \<Rightarrow> (string, 'r) outcome list \<Rightarrow> 'a list \<Rightarrow> bool" where
  "rows_of parse records rows \<longleftrightarrow> list_all2 (\<lambda>record row. \<exists>rec. record = Ok rec \<and> parse rec = Ok row) records rows"

definition accounted :: "('f, 'b, 'v, 'off) lobster \<Rightarrow> ('f message_row \<Rightarrow> bytes) \<Rightarrow>
    ('f \<Rightarrow> level list \<times> level list \<Rightarrow> bytes) \<Rightarrow> ('w \<Rightarrow> bytes) \<Rightarrow> ('file, 'w) ingest_env \<Rightarrow> string \<Rightarrow>
    (string \<times> 'w) list \<times> (string \<times> string) list \<Rightarrow> bool" where
  "accounted lob enc_m enc_b written env base part \<longleftrightarrow>
     (case (message_csv env base, book_csv env base) of
        (Ok mb, Ok ob) \<Rightarrow>
          \<exists>m_file o_file rows books.
            rows_of (parse_message_row (lob_parse_f64 lob)) (env_records env mb) rows \<and>
            rows_of parse_levels (env_records env ob) books \<and> length rows = length books \<and>
            written m_file = encode_stream (\<lambda>_. []) (map enc_m rows) \<and>
            written o_file = encode_stream (\<lambda>_. []) (map2 (\<lambda>row. enc_b (mr_timestamp row)) rows books) \<and>
            part = ([(out_path base ''-message.bin'', m_file), (out_path base ''-orderbook.bin'', o_file)],
                    [(out_path base ''-counts.txt'', counts_text (length rows) (length books))])
      | (Err _, Err _) \<Rightarrow> part = ([], [])
      | _ \<Rightarrow> False)"

definition fresh_files :: "('w \<Rightarrow> bytes) \<Rightarrow> ('w \<Rightarrow> bool) \<Rightarrow> ('file, 'w) ingest_env \<Rightarrow> bool" where
  "fresh_files written open_sink env \<longleftrightarrow>
     (\<forall>path w. env_create env path = Ok w \<longrightarrow> open_sink w \<and> written w = [])"

text \<open>\<open>leaving part st\<close>: the state with what a part has added to it.\<close>

definition leaving :: "(string \<times> 'w) list \<times> (string \<times> string) list \<Rightarrow> 'w ingest_state \<Rightarrow> 'w ingest_state" where
  "leaving part st = st\<lparr>is_streams := is_streams st @ fst part, is_counts := is_counts st @ snd part\<rparr>"

lemma leaving_simps [simp]:
  "leaving ([], []) st = st" "leaving ([], cs) (leaving (ss, []) st) = leaving (ss, cs) st"
  "is_streams (leaving part st) = is_streams st @ fst part" "is_counts (leaving part st) = is_counts st @ snd part"
  by (simp_all add: leaving_def)

lemma leaving_nothing: "\<exists>streams. st = leaving (streams, []) st"
  by (rule exI [of _ "[]"]) simp

lemma first_rows_all:
  assumes "first_rows parse records rows" and "length rows = length records"
  shows "rows_of parse records rows"
  unfolding rows_of_def
proof (rule list_all2_all_nthI)
  fix i assume "i < length records"
  with assms show "\<exists>rec. records ! i = Ok rec \<and> parse rec = Ok (rows ! i)"
    by (cases "records ! i") (auto simp: first_rows_def dest!: spec [of _ i])
qed (simp add: assms(2))

lemma flush_failed_not_Ok [simp]: "\<not> flush_failed fl (Ok a)"
  by (auto simp: flush_failed_def split: outcome.splits)

text \<open>Both streams of an archive: a success is one of all records of both files.\<close>

lemma write_streams_left:
  assumes "reliable_sink wr written wpatience open_sink" and "builds lob ops depth enc_m enc_b"
    and "fresh_files written open_sink env" and "\<And>w. written (snd (fl w)) = written w"
    and "\<And>file. narrow depth (env_records env file)"
  shows "\<exists>out streams. write_streams lob ops wr fl env base mb ob st = Some (out, leaving (streams, []) st) \<and>
    (\<forall>mc oc. out = Ok (mc, oc) \<longrightarrow>
      (\<exists>m_file o_file rows books.
        rows_of (parse_message_row (lob_parse_f64 lob)) (env_records env mb) rows \<and>
        rows_of parse_levels (env_records env ob) books \<and> length rows = length books \<and>
        mc = length rows \<and> oc = length books \<and>
        written m_file = encode_stream (\<lambda>_. []) (map enc_m rows) \<and>
        written o_file = encode_stream (\<lambda>_. []) (map2 (\<lambda>row. enc_b (mr_timestamp row)) rows books) \<and>
        streams = [(out_path base ''-message.bin'', m_file), (out_path base ''-orderbook.bin'', o_file)]))"
proof -
  let ?pair = "write_pair_streams lob ops wr fl (env_records env mb) (env_records env ob)
    (env_create env (out_path base ''-message.bin'')) (env_create env (out_path base ''-orderbook.bin''))"
  show ?thesis
  proof (cases "\<exists>mf bf. env_create env (out_path base ''-message.bin'') = Ok mf \<and>
      env_create env (out_path base ''-orderbook.bin'') = Ok bf")
    case True
    then obtain mf bf where created: "env_create env (out_path base ''-message.bin'') = Ok mf"
      "env_create env (out_path base ''-orderbook.bin'') = Ok bf" by blast
    with assms(3) have fresh: "open_sink mf" "written mf = []" "open_sink bf" "written bf = []"
      by (auto simp: fresh_files_def)
    from pair_streams_exact [OF assms(1,2) fresh assms(4,5), of "env_records env mb" ob]
    obtain out s t rows books where run: "?pair = Some (out, Some (s, t))" and
      w: "written (sw_writer (sk_writer s)) = encode_stream (\<lambda>_. []) (map enc_m rows)"
      "written (sw_writer (sk_writer t)) = encode_stream (\<lambda>_. []) (map2 (\<lambda>row. enc_b (mr_timestamp row)) rows books)" and
      first: "first_rows (parse_message_row (lob_parse_f64 lob)) (env_records env mb) rows"
      "first_rows parse_levels (env_records env ob) books" and
      v: "verdict (parse_message_row (lob_parse_f64 lob)) (env_records env mb) (env_records env ob) (length rows) (length books) 0 0 out \<or>
        length rows = length (env_records env mb) \<and> length books = length (env_records env ob) \<and>
        length rows = length books \<and> flush_failed fl out"
      unfolding created by blast
    let ?streams = "[(out_path base ''-message.bin'', sw_writer (sk_writer s)), (out_path base ''-orderbook.bin'', sw_writer (sk_writer t))]"
    have "write_streams lob ops wr fl env base mb ob st = Some (out, leaving (?streams, []) st)"
      using run by (simp add: write_streams_def leaving_def)
    moreover have "rows_of (parse_message_row (lob_parse_f64 lob)) (env_records env mb) rows \<and>
        rows_of parse_levels (env_records env ob) books \<and> length rows = length books \<and> mc = length rows \<and> oc = length books"
      if "out = Ok (mc, oc)" for mc oc
      using v that first_rows_all [OF first(1)] first_rows_all [OF first(2)] by auto
    ultimately show ?thesis using w by blast
  next
    case False
    then have "\<exists>out. ?pair = Some (out, None) \<and> (\<forall>a. out \<noteq> Ok a)"
      by (auto simp: write_pair_streams_def split: outcome.splits)
    then obtain out where "?pair = Some (out, None)" "\<forall>a. out \<noteq> Ok a" by blast
    then show ?thesis
      by (intro exI [of _ out] exI [of _ "[]"]) (simp add: write_streams_def)
  qed
qed

lemma ingest_archive_accounted:
  assumes "reliable_sink wr written wpatience open_sink" and "builds lob ops depth enc_m enc_b"
    and "fresh_files written open_sink env" and "\<And>w. written (snd (fl w)) = written w"
    and "\<And>file. narrow depth (env_records env file)"
  shows "\<exists>out part. ingest_archive lob ops wr fl env base st = Some (out, leaving part st) \<and>
    (if out = Ok () then accounted lob enc_m enc_b written env base part else snd part = [])"
proof (cases "\<exists>mb ob. message_csv env base = Ok mb \<and> book_csv env base = Ok ob")
  case True
  then obtain mb ob where csv: "message_csv env base = Ok mb" "book_csv env base = Ok ob" by blast
  from write_streams_left [OF assms, of base mb ob st] obtain out streams where
    run: "write_streams lob ops wr fl env base mb ob st = Some (out, leaving (streams, []) st)" and
    good: "\<And>mc oc. out = Ok (mc, oc) \<Longrightarrow>
      (\<exists>m_file o_file rows books.
        rows_of (parse_message_row (lob_parse_f64 lob)) (env_records env mb) rows \<and>
        rows_of parse_levels (env_records env ob) books \<and> length rows = length books \<and>
        mc = length rows \<and> oc = length books \<and>
        written m_file = encode_stream (\<lambda>_. []) (map enc_m rows) \<and>
        written o_file = encode_stream (\<lambda>_. []) (map2 (\<lambda>row. enc_b (mr_timestamp row)) rows books) \<and>
        streams = [(out_path base ''-message.bin'', m_file), (out_path base ''-orderbook.bin'', o_file)])" by metis
  show ?thesis
  proof (cases out)
    case (Ok counts)
    obtain mc oc where counts: "counts = (mc, oc)" by (cases counts)
    let ?text = "[(out_path base ''-counts.txt'', counts_text mc oc)]"
    show ?thesis
    proof (cases "env_write env (out_path base ''-counts.txt'') (counts_text mc oc)")
      case (Ok u)
      have "ingest_archive lob ops wr fl env base st = Some (Ok (), leaving (streams, ?text) st)"
        using csv run Ok \<open>out = Ok counts\<close> counts
        by (simp add: ingest_archive_def bindp_Ok write_counts_def leaving_def)
      moreover have "accounted lob enc_m enc_b written env base (streams, ?text)"
        using good [of mc oc] csv \<open>out = Ok counts\<close> counts by (auto simp: accounted_def)
      ultimately show ?thesis by force
    qed (use csv run \<open>out = Ok counts\<close> counts in
        \<open>force simp: ingest_archive_def bindp_Ok write_counts_def\<close>)+
  qed (use csv run in \<open>force simp: ingest_archive_def bindp_Err bindp_Panic\<close>)+
next
  case False
  then show ?thesis
    by (cases "message_csv env base"; cases "book_csv env base")
      (auto simp: ingest_archive_def accounted_def prog_simps leaving_nothing)
qed

lemma leaving_leaving: "leaving (ss', cs') (leaving (ss, cs) st) = leaving (ss @ ss', cs @ cs') st"
  by (simp add: leaving_def)

lemma ingest_archives_accounted:
  assumes "reliable_sink wr written wpatience open_sink" and "builds lob ops depth enc_m enc_b"
    and "fresh_files written open_sink env" and "\<And>w. written (snd (fl w)) = written w"
    and "\<And>file. narrow depth (env_records env file)"
  shows "\<exists>out parts rest.
    ingest_archives lob ops wr fl env file_bases processed st =
      Some (out, leaving (concat (map fst parts) @ rest, concat (map snd parts)) st) \<and>
    list_all2 (accounted lob enc_m enc_b written env) (take (length parts) file_bases) parts \<and>
    (if length parts = length file_bases then out = Ok (processed + length parts) \<and> rest = [] else \<forall>n. out \<noteq> Ok n)"
proof (induction file_bases arbitrary: processed st)
  case Nil
  show ?case by (intro exI [of _ "Ok processed"] exI [of _ "[]"]) (simp add: prog_simps)
next
  case (Cons base file_bases)
  from ingest_archive_accounted [where fl = fl, OF assms, of base st] obtain out part where
    one: "ingest_archive lob ops wr fl env base st = Some (out, leaving part st)"
    "if out = Ok () then accounted lob enc_m enc_b written env base part else snd part = []" by blast
  show ?case
  proof (cases out)
    case (Ok u)
    from Cons.IH [of "processed + 1" "leaving part st"] obtain out' parts rest where rest:
      "ingest_archives lob ops wr fl env file_bases (processed + 1) (leaving part st) =
        Some (out', leaving (concat (map fst parts) @ rest, concat (map snd parts)) (leaving part st))"
      "list_all2 (accounted lob enc_m enc_b written env) (take (length parts) file_bases) parts"
      "if length parts = length file_bases then out' = Ok (processed + 1 + length parts) \<and> rest = [] else \<forall>n. out' \<noteq> Ok n"
      by blast
    obtain ss cs where part: "part = (ss, cs)" by (cases part)
    from one(1) rest(1) Ok have "ingest_archives lob ops wr fl env (base # file_bases) processed st =
        Some (out', leaving (concat (map fst (part # parts)) @ rest, concat (map snd (part # parts))) st)"
      by (simp add: bindp_Ok part leaving_leaving)
    with rest(2,3) one(2) Ok show ?thesis
      by (intro exI [of _ out'] exI [of _ "part # parts"] exI [of _ rest]) (auto split: if_splits)
  next
    case (Err e)
    obtain ss cs where "part = (ss, cs)" by (cases part)
    with one Err show ?thesis
      by (intro exI [of _ "Err e"] exI [of _ "[]"] exI [of _ ss]) (simp add: bindp_Err)
  next
    case Panic
    obtain ss cs where "part = (ss, cs)" by (cases part)
    with one Panic show ?thesis
      by (intro exI [of _ "Panic"] exI [of _ "[]"] exI [of _ ss]) (simp add: bindp_Panic)
  qed
qed

section \<open>Properties\<close>

text \<open>C28: Only what is listed is ingested: from a published list of names and hashes, the last line for a
  name counting, and the entries of a directory, the harness selects exactly the archives on the list whose
  contents have the listed hash, sorted by name, and panics exactly when one on the list cannot be read.\<close>

theorem exactly_listed_archives_are_ingested:
  assumes "list_all (\<lambda>(name, hash). plain_word name \<and> plain_word hash) rows"
  shows "find_verified_zip_file_bases sha256 shasums_path (Ok (shasums_text rows)) (Ok entries) =
    (let allowed = map_of (rev (map (apsnd to_lowercase) rows));
         present = List.map_filter (\<lambda>e. case e of Ok entry \<Rightarrow> Some entry | _ \<Rightarrow> None) entries
     in if list_ex (unreadable_zip allowed) present then Panic
        else Ok (sort (map (\<lambda>e. fst (split_at_dot (de_name e))) (filter (intact_zip sha256 allowed) present))))"
  by (simp add: find_verified_zip_file_bases_def parse_shasums_rows [OF assms] verified_bases_exact Let_def)

theorem exactly_listed_archives_are_ingested_witness:
  "find_verified_zip_file_bases (\<lambda>data. ''ab'') ''SHASUMS.txt''
     (Ok (shasums_text [(''b.zip'', ''AB''), (''c.zip'', ''cd''), (''a.zip'', ''ab'')]))
     (Ok [Ok \<lparr>de_name = ''b.zip'', de_contents = Ok [1]\<rparr>, Err (IoError Interrupted []), Ok \<lparr>de_name = ''c.zip'', de_contents = Ok [2]\<rparr>,
          Ok \<lparr>de_name = ''a.zip'', de_contents = Ok [3]\<rparr>, Ok \<lparr>de_name = ''d.zip'', de_contents = Panic\<rparr>]) =
     (Ok [''a'', ''b''] :: (unit, string list) outcome)"
proof -
  have plain: "list_all (\<lambda>(name, hash). plain_word name \<and> plain_word hash) [(''b.zip'', ''AB''), (''c.zip'', ''cd''), (''a.zip'', ''ab'')]"
    by code_simp
  show ?thesis unfolding exactly_listed_archives_are_ingested [OF plain] by code_simp
qed

text \<open>C29: The ingestion accounts for every archive: it returns, and what it leaves is, for each archive before
  the first it fails on, the two streams of all its records and their number, or nothing when neither file could be
  had; of the archive it fails on there is no sidecar; it ends well only with every archive accounted for.\<close>

theorem ingestion_accounts_for_every_archive:
  assumes "reliable_sink wr written wpatience open_sink" and "builds lob ops depth enc_m enc_b"
    and "fresh_files written open_sink env" and "\<And>w. written (snd (fl w)) = written w"
    and "\<And>file. narrow depth (env_records env file)" and "listed_bases env = Ok file_bases"
  shows "\<exists>out parts rest.
    ingest_main lob ops wr fl env st =
      Some (out, leaving (concat (map fst parts) @ rest, concat (map snd parts)) st) \<and>
    list_all2 (accounted lob enc_m enc_b written env) (take (length parts) file_bases) parts \<and>
    (if out = Ok () then length parts = length file_bases \<and> rest = [] else length parts < length file_bases)"
proof (cases "file_bases = [] \<or> env_create_dir_all env \<noteq> Ok ()")
  case True
  then show ?thesis
    by (intro exI [of _ "if file_bases = [] then Ok () else map_err IngestIo (env_create_dir_all env)"]
        exI [of _ "[]"]) (cases "env_create_dir_all env"; auto simp: ingest_main_def assms(6) prog_simps)
next
  case False
  from ingest_archives_accounted [where fl = fl, OF assms(1-5), of file_bases 0 st] obtain out parts rest where run:
    "ingest_archives lob ops wr fl env file_bases 0 st =
      Some (out, leaving (concat (map fst parts) @ rest, concat (map snd parts)) st)"
    "list_all2 (accounted lob enc_m enc_b written env) (take (length parts) file_bases) parts"
    "if length parts = length file_bases then out = Ok (0 + length parts) \<and> rest = [] else \<forall>n. out \<noteq> Ok n" by blast
  moreover from run(2) have "length parts \<le> length file_bases" by (auto dest: list_all2_lengthD)
  ultimately show ?thesis using False
    by (intro exI [of _ "map_ok (\<lambda>_. ()) out"] exI [of _ parts] exI [of _ rest])
      (cases out; auto simp: ingest_main_def assms(6) prog_simps split: if_splits)
qed

text \<open>A day with two messages and one book, in an archive the file system can open.\<close>

definition sample_env :: "(unit, bytes) ingest_env" where
  "sample_env = \<lparr>env_sha256 = (\<lambda>_. ''ab''), env_shasums = Ok (''d.zip AB'' @ [char_of (10 :: nat)]),
     env_read_dir = Ok [Ok \<lparr>de_name = ''d.zip'', de_contents = Ok [7]\<rparr>],
     env_open = (\<lambda>path. Ok ()),
     env_archive = (\<lambda>_. Ok [Ok (''d_message_5.csv'', Ok [0]), Ok (''d_orderbook_5.csv'', Ok [1])]),
     env_records = (\<lambda>file. if file = [0] then sample_messages else sample_books),
     env_create_dir_all = Ok (), env_create = (\<lambda>path. Ok []), env_write = (\<lambda>path text. Ok ())\<rparr>"

lemma sample_bases: "listed_bases sample_env = Ok [''d'']"
  by code_simp

lemma sample_csvs: "message_csv sample_env ''d'' = Ok [0]" "book_csv sample_env ''d'' = Ok [1]"
  by (simp_all add: message_csv_def book_csv_def open_csv_from_zip_def sample_env_def and_then_def csv_named_def
      suffix_def sublist_code)

theorem ingestion_accounts_for_every_archive_witness:
  "\<exists>out rest. ingest_main sample_lobster sample_builder vec_write (\<lambda>w. (Ok (), w)) sample_env
       \<lparr>is_streams = [], is_counts = []\<rparr> = Some (out, \<lparr>is_streams = rest, is_counts = []\<rparr>) \<and> out \<noteq> Ok ()"
proof -
  have narrow: "narrow 2 (env_records sample_env mb)" for mb by (simp add: sample_env_def sample_narrow)
  have "fresh_files (\<lambda>bs. bs) (\<lambda>_. True) sample_env" by (simp add: fresh_files_def sample_env_def)
  from ingestion_accounts_for_every_archive [where fl = "\<lambda>w. (Ok (), w)" and file_bases = "[''d'']" and
      st = "\<lparr>is_streams = [], is_counts = []\<rparr>", OF vec_sink.reliable_sink_axioms sample_builds this snd_conv narrow sample_bases]
  obtain out rest and parts :: "((string \<times> bytes) list \<times> (string \<times> string) list) list" where
    run: "ingest_main sample_lobster sample_builder vec_write (\<lambda>w. (Ok (), w)) sample_env \<lparr>is_streams = [], is_counts = []\<rparr> =
      Some (out, leaving (concat (map fst parts) @ rest, concat (map snd parts)) \<lparr>is_streams = [], is_counts = []\<rparr>)" and
    parts: "list_all2 (accounted sample_lobster (\<lambda>row. [mr_event_type row])
      (\<lambda>ts levels. [of_nat (length ts), of_nat (length (fst levels)), of_nat (length (snd levels))]) (\<lambda>bs. bs) sample_env)
      (take (length parts) [''d'']) parts" and
    out: "if out = Ok () then length parts = length [''d''] \<and> rest = [] else length parts < length [''d'']" by blast
  have "env_records sample_env [0] = sample_messages" "env_records sample_env [1] = sample_books"
    by (simp_all add: sample_env_def)
  then have "\<not> accounted sample_lobster (\<lambda>row. [mr_event_type row])
      (\<lambda>ts levels. [of_nat (length ts), of_nat (length (fst levels)), of_nat (length (snd levels))]) (\<lambda>bs. bs) sample_env ''d'' part"
    for part
    by (auto simp: accounted_def sample_csvs rows_of_def sample_messages_def sample_books_def dest!: list_all2_lengthD)
  with parts out have "parts = []" "out \<noteq> Ok ()"
    by (auto simp: list_all2_Cons1 split: if_splits)
  with run show ?thesis by (simp add: leaving_def)
qed

section \<open>Skipped archives\<close>

text \<open>An archive that cannot be opened or read counts as processed, like one without the two files.\<close>

lemma unreadable_archive_is_skipped:
  assumes "env_open env (zip_path base) = Err e \<or>
    env_open env (zip_path base) = Ok f \<and> env_archive env f = Err e'"
  shows "ingest_archive lob ops wr fl env base st = Some (Ok (), st)"
  using assms
  by (auto simp: ingest_archive_def message_csv_def book_csv_def open_csv_from_zip_def and_then_def ret_def)

end
