(* ===== verification/FS_Clients.thy ===== *)
theory FS_Clients
  imports FS_Demos FS_Magic FS_Flatc Complex_Main
begin

text \<open>
  The smaller clients under \<^verbatim>\<open>examples/\<close>: \<^verbatim>\<open>ergonomics_example.rs\<close>, \<^verbatim>\<open>custom_allocator_example.rs\<close>,
  \<^verbatim>\<open>typed_reading_flatc_example.rs\<close>, the main function of \<^verbatim>\<open>custom_framer_example.rs\<close> and the corrupted
  byte of \<^verbatim>\<open>sized_checksums_example.rs\<close>. What they print is not modelled, and an assertion that fails is
  the outcome \<open>Panic\<close>. The FlatBuffers builder is an argument.
\<close>

section \<open>Ergonomics\<close>

text \<open>A string finished in a new builder.\<close>

definition fresh_root :: "'b builder_ops \<Rightarrow> ('b, 'offset) string_builder \<Rightarrow> string \<Rightarrow> 'b" where
  "fresh_root ops sb s = (let (off, b) = fst sb s (b_new ops) in snd sb off b)"

text \<open>The result is the number of messages. The accessors whose results are not used are left out.\<close>

definition ergonomics_main :: "nat \<Rightarrow> 'b builder_ops \<Rightarrow> ('b, 'offset) string_builder \<Rightarrow> (error, nat) outcome option" where
  "ergonomics_main fb_max ops sb =
     demo_bind (run_writer (bindp (write_finished ops (fresh_root ops sb ''hello ergonomics''))
         (\<lambda>_. writer_flush cursor_flush))
       (writer_with_builder (cursor_new []) (DefaultFramer cursor_write) (b_new ops) ())) (\<lambda>(_, wire).
     let r = (reader_with_capacity (cursor_new wire) (DefaultDeframer cursor_read (default_deframer_new fb_max)) 1024 ()
                :: (cursor, unit, unit) stream_reader)
     in assert_then (1024 \<le> buffer_capacity r)
       (let r = reader_reserve 2048 r
        in assert_then (2048 \<le> buffer_capacity r)
          (map_option (\<lambda>(out, _, message_count). map_ok (\<lambda>_. message_count) out) (process_all count_frames (r, 0)))))"

section \<open>An allocator\<close>

definition event_serialize :: "('b, 'offset) string_builder \<Rightarrow> string \<Rightarrow> 'b serialize" where
  "event_serialize sb event builder = (let (s, b) = fst sb event builder in Some (Ok (), snd sb s b))"

text \<open>
  \<^verbatim>\<open>FlatBufferBuilder::new_in(alloc)\<close> with the default allocator is a new builder. The result is the
  number of bytes written.
\<close>

definition custom_allocator_main :: "'b builder_ops \<Rightarrow> ('b, 'offset) string_builder \<Rightarrow> (error, nat) outcome option" where
  "custom_allocator_main ops sb =
     demo_bind (run_writer
       (bindp (writer_write ops (event_serialize sb ''hello alloc'')) (\<lambda>_.
        bindp (\<lambda>sw. map_option (\<lambda>(out, _, sw). (out, sw))
          (serialize_and_write ops (event_serialize sb ''goodbye alloc'') (b_new ops) sw)) (\<lambda>_.
        writer_flush cursor_flush)))
       (writer_with_builder_alloc (cursor_new []) (DefaultFramer cursor_write) (b_new ops) ())) (\<lambda>(_, out).
     Some (Ok (length out)))"

section \<open>The custom framing\<close>

definition push_decoded :: "(bytes \<Rightarrow> (string, string) outcome) \<Rightarrow> bytes \<Rightarrow> (string list, error, unit) prog" where
  "push_decoded root_of payload =
     bindp (lift_outcome (map_err error_of_flatbuffer (root_of payload))) (\<lambda>message messages.
     Some (Ok (), messages @ [message]))"

definition custom_framer_main :: "'b builder_ops \<Rightarrow> ('b, 'offset) string_builder \<Rightarrow>
    (bytes \<Rightarrow> (string, string) outcome) \<Rightarrow> (error, unit) outcome option" where
  "custom_framer_main ops sb root_of =
     demo_bind (run_writer (writer_write ops (str_serialize (fst sb) (snd sb) ''message with magic header''))
       (writer_new ops (cursor_new []) (MagicHeaderFramer cursor_write) ())) (\<lambda>(_, buffer).
     demo_bind (run_reader (push_decoded root_of) (MagicHeaderDeframer cursor_read) buffer []) (\<lambda>messages.
     assert_then (messages = [''message with magic header'']) (Some (Ok ()))))"

section \<open>A corrupted byte\<close>

text \<open>\<^verbatim>\<open>wire[last] ^= 0x01\<close>, where an empty vector has no last byte.\<close>

definition flip_last :: "bytes \<Rightarrow> bytes option" where
  "flip_last wire = (if wire = [] then None else Some (wire[length wire - 1 := wire ! (length wire - 1) XOR 1]))"

definition corruption_demo :: "nat \<Rightarrow> 'b builder_ops \<Rightarrow> ('b, 'offset) vector_builder \<Rightarrow> checksum \<Rightarrow>
    (error, unit) outcome option" where
  "corruption_demo fb_max ops vb alg =
     (case (checksum_framer_new alg, checksum_deframer_new fb_max alg) of
        (Some framer_alg, Some d) \<Rightarrow>
          demo_bind (run_writer (bindp (writer_write ops (blob_serialize vb (replicate 1024 0xA5)))
              (\<lambda>_. writer_flush cursor_flush))
            (writer_new ops (cursor_new []) (ChecksumFramer framer_alg cursor_write) ())) (\<lambda>(_, wire).
          case flip_last wire of
            None \<Rightarrow> Some Panic
          | Some wire \<Rightarrow>
              map_option (\<lambda>(out, _). case out of
                  Err err \<Rightarrow> (case into_kind err of ChecksumMismatch _ _ \<Rightarrow> Ok () | _ \<Rightarrow> Panic)
                | _ \<Rightarrow> Panic)
                (read_message (test_reader wire (ChecksumDeframer cursor_read d))))
      | _ \<Rightarrow> Some Panic)"

section \<open>A generated schema\<close>

text \<open>
  \<^verbatim>\<open>create_string\<close> of the builder, whose table operations are \<open>fb\<close>. The crate's \<^verbatim>\<open>root\<close> is the checked
  entry point of the generated code, over payloads as buffers; \<open>render\<close> gives the text of its error.
\<close>

definition telemetry_root_from_payload :: "('f, bytes, 'tab, 'v, 'tv, 'e, 'opts) fb_access \<Rightarrow> ('e \<Rightarrow> string) \<Rightarrow>
    'tab table_struct from_payload" where
  "telemetry_root_from_payload acc render payload =
     map_err (\<lambda>e. error_of_flatbuffer (render e)) (root_as_telemetry_event acc payload)"

definition event_builder :: "'b builder_ops \<Rightarrow> ('f, 'b, 's, 'off) fb_builder \<Rightarrow> (string \<Rightarrow> 'b \<Rightarrow> 'off \<times> 'b) \<Rightarrow> nat \<Rightarrow> 'b \<Rightarrow> 'b" where
  "event_builder ops fb create_string i builder =
     (let (msg, b) = create_string (''event-'' @ dec i) (b_reset ops builder);
          (event, b) = telemetry_event_create fb \<lparr>tea_message = Some msg, tea_timestamp = word_of_nat i\<rparr> b
      in fb_finish fb event b)"

fun write_events :: "'b builder_ops \<Rightarrow> ('f, 'b, 's, 'off) fb_builder \<Rightarrow> (string \<Rightarrow> 'b \<Rightarrow> 'off \<times> 'b) \<Rightarrow> nat list \<Rightarrow> 'b \<Rightarrow>
    ((cursor, unit, 'b, unit, unit) stream_writer, error, unit) prog" where
  "write_events ops fb create_string [] builder = ret ()"
| "write_events ops fb create_string (i # is) builder =
     (let builder = event_builder ops fb create_string i builder
      in bindp (write_finished ops builder) (\<lambda>_. write_events ops fb create_string is builder))"

text \<open>\<^verbatim>\<open>assert!(event.message().unwrap().starts_with("event-"))\<close>; a read without a defined result has none here.\<close>

definition check_event :: "('f, bytes, 'tab, 'v, 'tv, 'e, 'opts) fb_access \<Rightarrow> 'tab table_struct \<Rightarrow> (u64, error, unit) prog" where
  "check_event acc event seen =
     (case te_message acc event of
        None \<Rightarrow> None
      | Some (Ok (Some message)) \<Rightarrow> if prefix ''event-'' message then Some (Ok (), seen + 1) else Some (Panic, seen)
      | Some _ \<Rightarrow> Some (Panic, seen))"

definition typed_flatc_main :: "nat \<Rightarrow> 'b builder_ops \<Rightarrow> ('f, 'b, 's, 'off) fb_builder \<Rightarrow> (string \<Rightarrow> 'b \<Rightarrow> 'off \<times> 'b) \<Rightarrow>
    ('f, bytes, 'tab, 'v, 'tv, 'e, 'opts) fb_access \<Rightarrow> ('e \<Rightarrow> string) \<Rightarrow> (error, unit) outcome option" where
  "typed_flatc_main fb_max ops fb create_string acc render =
     demo_bind (run_writer (write_events ops fb create_string [0, 1, 2] (b_new ops))
       (writer_new ops (cursor_new []) (DefaultFramer cursor_write) ())) (\<lambda>(_, storage).
     demo_bind (map_option (\<lambda>(out, _, seen). map_ok (\<lambda>_. seen) out)
       (process_typed (telemetry_root_from_payload acc render) (check_event acc)
         (test_reader storage (DefaultDeframer cursor_read (default_deframer_new fb_max)), 0))) (\<lambda>seen.
     assert_then (seen = 3) (Some (Ok ()))))"

text \<open>The event of \<^verbatim>\<open>validation_example.rs\<close>, whose fields are added the other way round.\<close>

definition build_telemetry_event :: "'b builder_ops \<Rightarrow> ('f, 'b, 's, 'off) fb_builder \<Rightarrow> (string \<Rightarrow> 'b \<Rightarrow> 'off \<times> 'b) \<Rightarrow> bytes option" where
  "build_telemetry_event ops fb create_string =
     (let (msg, b) = create_string ''hello'' (b_new ops);
          tb = builder_new fb b;
          tb = te_add_message fb msg tb;
          tb = te_add_timestamp fb 123 tb;
          (event, b) = builder_finish fb tb
      in b_finished_data ops (fb_finish fb event b))"

section \<open>A mixed workload\<close>

text \<open>The messages of \<^verbatim>\<open>multiple_builders_example.rs\<close>; \<open>lit\<close> gives the literals of \<^verbatim>\<open>f64\<close>.\<close>

definition mixed_workload :: "(rat \<Rightarrow> 'f) \<Rightarrow> 'f message list" where
  "mixed_workload lit =
     [Control \<lparr>cm_command = ''START'', cm_timestamp = 1000\<rparr>,
      Control \<lparr>cm_command = ''SET_RATE=100'', cm_timestamp = 1001\<rparr>,
      Telemetry \<lparr>tb_device_id = ''sensor-001'',
        tb_readings = map lit [235 / 10, 241 / 10, 238 / 10, 240 / 10, 239 / 10]\<rparr>,
      FileTransfer \<lparr>fc_file_id = ''firmware-v2.0.bin'', fc_chunk_number = 1, fc_data = replicate (1024 * 1024) 0xAB\<rparr>,
      Control \<lparr>cm_command = ''STATUS'', cm_timestamp = 2000\<rparr>,
      Control \<lparr>cm_command = ''STOP'', cm_timestamp = 2001\<rparr>]"

section \<open>The assertions hold\<close>

lemma ergonomics_example_passes:
  assumes "b_finished_data ops (fresh_root ops sb ''hello ergonomics'') = Some p"
    and "length p \<le> fb_max" and "fb_max \<le> u32_max"
  shows "ergonomics_main fb_max ops sb = Some (Ok 1)"
proof -
  let ?w = "writer_with_builder (cursor_new []) (DefaultFramer cursor_write) (b_new ops) ()
    :: (cursor, unit, 'a, unit, unit) stream_writer"
  have lib: "library_framer cursor_write (\<lambda>_. []) (\<lambda>p. length p \<le> u32_max) (sw_framer ?w)"
    by (simp add: writer_with_builder_def plain_framer)
  from write_finished_at_end [OF lib assms(1)] assms(2,3)
  have wire: "run_writer (bindp (write_finished ops (fresh_root ops sb ''hello ergonomics'')) (\<lambda>_. writer_flush cursor_flush)) ?w =
      Some (Ok ((), encode_stream (\<lambda>_. []) [p]))"
    by (auto simp: run_writer_def writer_with_builder_def cursor_new_def bindp_Ok)
  have dfr: "library_deframer cursor_read (plain_format fb_max) (DefaultDeframer cursor_read (default_deframer_new fb_max))"
    using plain_deframer [where d = "default_deframer_new fb_max"]
    by (simp add: default_deframer_new_def DEFAULT_MAX_FRAME_LEN_def)
  let ?r = "reader_reserve 2048 (reader_with_capacity (cursor_new (encode_stream (\<lambda>_. []) [p]))
      (DefaultDeframer cursor_read (default_deframer_new fb_max)) 1024 ()) :: (cursor, unit, unit) stream_reader"
  have r: "sr_deframer ?r = DefaultDeframer cursor_read (default_deframer_new fb_max)"
    "cursor_rest (sr_reader ?r) = encode_stream (\<lambda>_. []) [p]"
    by (simp_all add: reader_reserve_def reader_with_capacity_def)
  have cap: "1024 \<le> buffer_capacity (reader_with_capacity x d 1024 () :: (cursor, unit, unit) stream_reader)"
    "2048 \<le> buffer_capacity (reader_reserve 2048 (reader_with_capacity x d 1024 () :: (cursor, unit, unit) stream_reader))" for x d
    by (simp_all add: buffer_capacity_def reader_with_capacity_def reader_reserve_def vec_reserve_def
        vec_with_capacity_def grow_amortized_def)
  have "list_all (\<lambda>p. fits (plain_format fb_max) p \<and> True) [p]"
    using assms(2,3) by (simp add: fits_def plain_format_def)
  then have "scan (plain_format fb_max) (encode_stream (\<lambda>_. []) [p]) = ([p], Clean)"
    using wire_codec.scan_encode [OF speaks_wire_codec [OF speaks_plain], of fb_max "[p]" "[]"] by simp
  with frame_reader.process_all_scan [OF library_deframer_contract [OF dfr cursor_source.reliable_source_axioms]
      r(1) TrueI, of count_frames 0] r(2) feed_count [of "[p]" 0]
  have "map_option (\<lambda>(out, _, message_count). map_ok (\<lambda>_. message_count) out) (process_all count_frames (?r, 0)) = Some (Ok 1)"
    by (auto simp: processed_def)
  then show ?thesis
    by (simp add: ergonomics_main_def wire cap assert_then_def Let_def)
qed

text \<open>The payload of the large chunk may be as long as it is; it is not unfolded.\<close>

lemma mixed_workload_is_written:
  assumes "list_all (\<lambda>msg. encodes ops (\<lambda>_. True) (message_serialize calls msg) (enc msg) \<and> length (enc msg) \<le> fb_max)
      (mixed_workload lit)"
    and "fb_max \<le> u32_max"
  shows "\<exists>wire. multiple_builders_wire ops calls (mixed_workload lit) = Some (Ok wire) \<and>
    scan (plain_format fb_max) wire = (map enc (mixed_workload lit), Clean) \<and> length (mixed_workload lit) = 6"
proof -
  let ?ps = "map enc (mixed_workload lit)"
  have "list_all (\<lambda>p. fits (plain_format fb_max) p \<and> True) ?ps"
    using assms by (auto simp: list_all_iff fits_def plain_format_def)
  then have "scan (plain_format fb_max) (encode_stream (\<lambda>_. []) ?ps) = (?ps, Clean)"
    using wire_codec.scan_encode [OF speaks_wire_codec [OF speaks_plain], of fb_max ?ps "[]"] by simp
  with builders_share_one_stream [OF assms] show ?thesis
    by (simp add: mixed_workload_def del: replicate.simps)
qed

lemma event_encodes: "string_roots ops sb enc \<Longrightarrow> encodes ops (\<lambda>_. True) (event_serialize sb s) (enc s)"
  using string_encodes [of ops sb enc s] by (simp add: encodes_def event_serialize_def str_serialize_def)

lemma custom_allocator_example_passes:
  assumes "string_roots ops sb enc" and "length (enc ''hello alloc'') \<le> u32_max" and "length (enc ''goodbye alloc'') \<le> u32_max"
  shows "custom_allocator_main ops sb =
    Some (Ok (length (encode_stream (\<lambda>_. []) [enc ''hello alloc'', enc ''goodbye alloc''])))"
proof -
  let ?w = "writer_with_builder_alloc (cursor_new []) (DefaultFramer cursor_write) (b_new ops) ()
    :: (cursor, unit, 'a, unit, unit) stream_writer"
  have lib: "library_framer cursor_write (\<lambda>_. []) (\<lambda>p. length p \<le> u32_max) (sw_framer ?w)"
    by (simp add: writer_with_builder_alloc_def plain_framer)
  from write_at_end [OF lib event_encodes [OF assms(1)], of "''hello alloc''"] assms(2)
  obtain w1 where w1: "writer_write ops (event_serialize sb ''hello alloc'') ?w = Some (Ok (), w1)"
    "sw_framer w1 = sw_framer ?w" "cursor_pos (sw_writer w1) = length (cursor_data (sw_writer w1))"
    "cursor_data (sw_writer w1) = encode_frame (\<lambda>_. []) (enc ''hello alloc'')"
    by (auto simp: writer_with_builder_alloc_def cursor_new_def)
  from lib w1(2) have "library_framer cursor_write (\<lambda>_. []) (\<lambda>p. length p \<le> u32_max) (sw_framer w1)" by simp
  from serialize_and_write_exact [OF this event_encodes [OF assms(1)] assms(3) w1(3), of "b_new ops"]
  obtain b w2 where "serialize_and_write ops (event_serialize sb ''goodbye alloc'') (b_new ops) w1 = Some (Ok (), b, w2)"
    "cursor_data (sw_writer w2) = cursor_data (sw_writer w1) @ encode_frame (\<lambda>_. []) (enc ''goodbye alloc'')" by blast
  with w1 show ?thesis
    by (simp add: custom_allocator_main_def run_writer_def bindp_Ok)
qed

lemma custom_framer_example_passes:
  assumes "string_roots ops sb enc" and "root_of (enc ''message with magic header'') = Ok ''message with magic header''"
    and "length (enc ''message with magic header'') \<le> MAX_FRAME_LEN"
  shows "custom_framer_main ops sb root_of = Some (Ok ())"
proof -
  let ?p = "enc ''message with magic header''" and ?item = "str_serialize (fst sb) (snd sb) ''message with magic header''"
  let ?w = "writer_new ops (cursor_new []) (MagicHeaderFramer cursor_write) () :: (cursor, unit, 'a, unit, unit) stream_writer"
  have small: "list_all (\<lambda>p. length p \<le> u32_max) [?p]" using assms(3) by (simp add: MAX_FRAME_LEN_def u32_max_def)
  have items: "list_all2 (encodes ops (\<lambda>_. True)) [?item] [?p]" using string_encodes [OF assms(1)] by simp
  have w: "writer_ok (\<lambda>_. True) ?w" "sw_framer ?w = MagicHeaderFramer cursor_write"
    "cursor_pos (sw_writer ?w) = length (cursor_data (sw_writer ?w))" "cursor_data (sw_writer ?w) = []"
    by (simp_all add: writer_ok_def writer_new_def cursor_new_def)
  from reliable_sink.write_items_magic [OF cursor_sink.reliable_sink_axioms items small w(1-3)] w(4)
  obtain w' where "write_items ops [?item] ?w = Some (Ok (), w')" "cursor_data (sw_writer w') = magic_frame ?p" by auto
  then have wire: "run_writer (writer_write ops ?item) ?w = Some (Ok ((), magic_frame ?p))"
    by (auto simp: run_writer_def bindp_def ret_def split: option.splits prod.splits outcome.splits)
  have "list_all (\<lambda>p. length p \<le> MAX_FRAME_LEN) [?p]" using assms(3) by simp
  from reliable_source.process_all_magic [OF cursor_source.reliable_source_axioms test_reader_simps(1) TrueI _ this,
      of "magic_frame ?p" "push_decoded root_of" "[]"]
  have "map_option (\<lambda>(out, s', u'). (out, u'))
      (process_all (push_decoded root_of) (test_reader (magic_frame ?p) (MagicHeaderDeframer cursor_read), [])) =
    Some (Ok (), [''message with magic header''])"
    by (simp add: push_decoded_def assms(2) prog_simps)
  then have "run_reader (push_decoded root_of) (MagicHeaderDeframer cursor_read) (magic_frame ?p) [] =
      Some (Ok [''message with magic header''])"
    by (auto simp: run_reader_def)
  with wire show ?thesis by (simp add: custom_framer_main_def assert_then_def)
qed

text \<open>A frame whose payload is not the one its field was computed from, as far as the algorithm can tell.\<close>

lemma corrupted_frame:
  assumes "lawful_checksum alg" and "length q = length p" and "length p \<le> u32_max" and "length p \<le> limit"
    and "cs_verify alg (cs_calculate alg p AND width_mask (cs_SIZE alg)) q \<noteq> Ok ()"
  shows "\<exists>a b. next_frame (checksum_format alg limit) (le_bytes 4 (u32_of_usize (length p)) @ checksum_field alg p @ q) =
    Bad (checksum_mismatch a b)"
proof -
  from lawful_checksum.verify_result [OF assms(1)] assms(5) obtain a b where
    bad: "cs_verify alg (cs_calculate alg p AND width_mask (cs_SIZE alg)) q = Err (checksum_mismatch a b)" by blast
  have "cs_read_bytes alg (checksum_field alg p) = Some (cs_calculate alg p AND width_mask (cs_SIZE alg))"
    using lawful_checksum.read_back [OF assms(1), of "cs_calculate alg p" "[]"] lawful_checksum.wire_form [OF assms(1)]
    by (simp add: checksum_field_def)
  moreover have "length (checksum_field alg p) = cs_SIZE alg"
    using lawful_checksum.scratch_length [OF assms(1)] lawful_checksum.size_le_8 [OF assms(1)] by (simp add: checksum_field_def)
  moreover have "declared_len (le_bytes 4 (u32_of_usize (length p)) @ checksum_field alg p @ q) = length p"
    using assms(3) unat_header_roundtrip [of "length p"] by (simp add: declared_len_def)
  ultimately have "next_frame (checksum_format alg limit) (le_bytes 4 (u32_of_usize (length p)) @ checksum_field alg p @ q) =
      Bad (checksum_mismatch a b)"
    using assms(2,4) bad by (simp add: next_frame_def checksum_format_def error_of_def Let_def flip: length_0_conv)
  then show ?thesis by blast
qed

definition flipped :: "bytes \<Rightarrow> bytes" where
  "flipped p = butlast p @ [last p XOR 1]"

lemma flip_last_frame: "p \<noteq> [] \<Longrightarrow> flip_last (xs @ p) = Some (xs @ flipped p)"
  by (cases p rule: rev_cases) (simp_all add: flip_last_def flipped_def list_update_append nth_append)

lemma corruption_is_noticed:
  assumes "lawful_checksum alg" and "vector_roots ops vb enc" and "enc (replicate 1024 0xA5) = p" and "p \<noteq> []"
    and "length p \<le> fb_max" and "fb_max \<le> u32_max"
    and "cs_verify alg (cs_calculate alg p AND width_mask (cs_SIZE alg)) (flipped p) \<noteq> Ok ()"
  shows "corruption_demo fb_max ops vb alg = Some (Ok ())"
proof -
  let ?w = "writer_new ops (cursor_new []) (ChecksumFramer alg cursor_write) () :: (cursor, unit, 'a, unit, unit) stream_writer"
  let ?d = "\<lparr>cd_checksum_alg = alg, cd_max_frame_len = fb_max\<rparr>"
  let ?bad = "le_bytes 4 (u32_of_usize (length p)) @ checksum_field alg p @ flipped p"
  have lib: "library_framer cursor_write (checksum_field alg) (\<lambda>p. length p \<le> u32_max) (sw_framer ?w)"
    by (simp add: writer_new_def checksummed_framer assms(1))
  from write_at_end [OF lib blob_encodes [OF assms(2), of "replicate 1024 0xA5"]] assms(3,5,6)
  have wire: "run_writer (bindp (writer_write ops (blob_serialize vb (replicate 1024 0xA5))) (\<lambda>_. writer_flush cursor_flush)) ?w =
      Some (Ok ((), encode_frame (checksum_field alg) p))"
    by (auto simp: run_writer_def writer_new_def cursor_new_def bindp_Ok)
  have flip: "flip_last (encode_frame (checksum_field alg) p) = Some ?bad"
    using flip_last_frame [OF assms(4), of "le_bytes 4 (u32_of_usize (length p)) @ checksum_field alg p"]
    by (simp add: encode_frame_def)
  have dfr: "library_deframer cursor_read (checksum_format alg fb_max) (ChecksumDeframer cursor_read ?d)"
    using checksummed_deframer [where d = ?d] assms(1) by simp
  have "length (flipped p) = length p" "length p \<le> u32_max" using assms(4-6) by (simp_all add: flipped_def)
  from corrupted_frame [OF assms(1) this assms(5,7)] obtain a b where
    "next_frame (checksum_format alg fb_max) ?bad = Bad (checksum_mismatch a b)" by blast
  with fault_reader.read_message_or_fault [OF library_deframer_or_fault [OF dfr cursor_source.byte_source_axioms]
      test_reader_simps(1) TrueI, of ?bad]
  obtain s' where "read_message (test_reader ?bad (ChecksumDeframer cursor_read ?d)) = Some (Err (checksum_mismatch a b), s')"
    by (auto simp: cursor_source.not_faulted)
  with lawful_checksum.size_le_8 [OF assms(1)] wire flip show ?thesis
    by (simp add: corruption_demo_def checksum_framer_new_def checksum_deframer_new_def DEFAULT_MAX_FRAME_LEN_def
        checksum_mismatch_def error_of_kind_def into_kind_def)
qed

subsection \<open>Typed reading of a generated schema\<close>

text \<open>
  What the run needs of the builder beyond the contract of the generated code: a reset builder is idle, a
  string is an object of its own, a finished buffer is handed out as the payload, and the checked entry
  point accepts the event, which is no longer than a frame may be.
\<close>

definition event_contract :: "nat \<Rightarrow> 'b builder_ops \<Rightarrow> ('f, 'b, 's, 'off) fb_builder \<Rightarrow> (string \<Rightarrow> 'b \<Rightarrow> 'off \<times> 'b) \<Rightarrow>
    ('f, bytes, 'tab, 'v, 'tv, 'e, 'opts) fb_access \<Rightarrow> ('f, 'b, 's, 'off) builder_view \<Rightarrow> ('b \<Rightarrow> bytes) \<Rightarrow> bool" where
  "event_contract fb_max ops fb create_string acc view finished \<longleftrightarrow>
     (\<forall>b. bv_phase view (b_reset ops b) = Idle) \<and>
     (\<forall>b s off b'. bv_phase view b = Idle \<longrightarrow> create_string s b = (off, b') \<longrightarrow>
        bv_phase view b' = Idle \<and> bv_object view b' off = Some (Leaf (Str s))) \<and>
     (\<forall>b. \<forall>i < 3. let b' = event_builder ops fb create_string i b in
        b_finished_data ops b' = Some (finished b') \<and> length (finished b') \<le> fb_max \<and>
        (\<exists>t. root_as_telemetry_event acc (finished b') = Ok t))"

lemma event_reads_back:
  assumes c: "event_contract fb_max ops fb create_string acc view finished"
    and "builder_contract fb acc feq view finished root_pos prefixed_pos"
    and "access_contract acc buffer place root_pos prefixed_pos" and "i < 3"
  shows "\<exists>t. root_as_telemetry_event acc (finished (event_builder ops fb create_string i b)) = Ok t \<and>
    te_message acc t = Some (Ok (Some (''event-'' @ dec i))) \<and> te_timestamp acc t = Some (Ok (word_of_nat i))"
proof -
  obtain msg b1 where b1: "create_string (''event-'' @ dec i) (b_reset ops b) = (msg, b1)" by fastforce
  obtain event b2 where b2: "telemetry_event_create fb \<lparr>tea_message = Some msg, tea_timestamp = word_of_nat i\<rparr> b1 = (event, b2)"
    by fastforce
  have builder: "event_builder ops fb create_string i b = fb_finish fb event b2"
    by (simp only: event_builder_def b1 b2 Let_def prod.case)
  from c have "\<exists>t. root_as_telemetry_event acc (finished (event_builder ops fb create_string i b)) = Ok t"
    using assms(4) unfolding event_contract_def Let_def by blast
  then obtain t where t: "root_as_telemetry_event acc (finished (fb_finish fb event b2)) = Ok t"
    unfolding builder by blast
  from c b1 have idle: "bv_phase view b1 = Idle" "bv_object view b1 msg = Some (Leaf (Str (''event-'' @ dec i)))"
    unfolding event_contract_def by blast+
  from telemetry_event_reads_back [OF assms(2,3) idle(1) b2, of "''event-'' @ dec i" "finished (fb_finish fb event b2)" t] idle(2) t
  have "te_message acc t = Some (Ok (Some (''event-'' @ dec i))) \<and> te_timestamp acc t = Some (Ok (word_of_nat i))"
    by (simp add: finish_telemetry_event_buffer_def)
  with t builder show ?thesis by auto
qed

text \<open>What the checked entry point makes of that event, whatever the order its fields were added in.\<close>

lemma built_telemetry_event_reads_back:
  assumes builder: "builder_contract fb acc feq view finished root_pos prefixed_pos"
    and access: "access_contract acc buffer place root_pos prefixed_pos"
    and b: "create_string ''hello'' (b_new ops) = (msg, b)" "bv_phase view b = Idle" "bv_object view b msg = Some (Leaf (Str ''hello''))"
    and handed: "\<And>event b'. b_finished_data ops (fb_finish fb event b') = Some (finished (fb_finish fb event b'))"
  shows "\<exists>buf. build_telemetry_event ops fb create_string = Some buf \<and>
    (\<forall>t. root_as_telemetry_event acc buf = Ok t \<longrightarrow>
       te_message acc t = Some (Ok (Some ''hello'')) \<and> te_timestamp acc t = Some (Ok 123))"
proof -
  let ?ops = "[Always te_VT_MESSAGE msg, Push te_VT_TIMESTAMP (U64 123) (U64 0)]"
  obtain event b' where build: "build_table fb ?ops b = (event, b')" by fastforce
  then have "build_telemetry_event ops fb create_string = Some (finished (fb_finish fb event b'))"
    using handed by (simp add: build_telemetry_event_def b(1) create_defs Let_def split: prod.splits)
  moreover have "te_message acc t = Some (Ok (Some ''hello'')) \<and> te_timestamp acc t = Some (Ok 123)"
    if t: "root_as_telemetry_event acc (finished (fb_finish fb event b')) = Ok t" for t
  proof -
    have at: "tab_of t = acc_table_new acc (finished (fb_finish fb event b')) (root_pos (finished (fb_finish fb event b')))"
      using opened_at(1) [OF access, of "te_run_verifier acc" "te_follow acc" "finished (fb_finish fb event b')" t] t
      by (simp add: root_as_telemetry_event_def te_follow_def)
    have "distinct (map push_slot_of ?ops)" by (simp add: te_slots)
    from built_table_reads_back [OF builder b(2) this build, of "finished (fb_finish fb event b')" t] at obtain m where
      m: "reads_back acc (tab_of t) (bv_object view b') m" "laid_out feq m ?ops" "bv_object view b \<subseteq>\<^sub>m bv_object view b'" by auto
    have "bv_object view b' msg = Some (Leaf (Str ''hello''))" using b(3) m(3) by (auto simp: map_le_def dom_def)
    with get_opt_laid_out(1) [OF m(1,2), of te_VT_MESSAGE msg "Str ''hello''" StrT of_Str]
      get_or_laid_out [OF m(1,2), of te_VT_TIMESTAMP "U64 123" "U64 0" U64T of_U64]
    show ?thesis by (auto simp: te_message_def te_timestamp_def)
  qed
  ultimately show ?thesis by blast
qed

lemma write_events_exact:
  assumes "library_framer cursor_write field accept (sw_framer w)"
    and "event_contract fb_max ops fb create_string acc view finished" and "\<And>p. length p \<le> fb_max \<Longrightarrow> accept p"
    and "cursor_pos (sw_writer w) = length (cursor_data (sw_writer w))" and "list_all (\<lambda>i. i < 3) is"
  shows "\<exists>w' ps. write_events ops fb create_string is b w = Some (Ok (), w') \<and>
    cursor_data (sw_writer w') = cursor_data (sw_writer w) @ encode_stream field ps \<and>
    list_all2 (\<lambda>i p. \<exists>b. p = finished (event_builder ops fb create_string i b) \<and> length p \<le> fb_max) is ps"
  using assms(1,4,5)
proof (induction "is" arbitrary: b w)
  case Nil
  then show ?case by (intro exI [of _ w] exI [of _ "[]"]) (simp add: prog_simps)
next
  case (Cons i "is")
  let ?b = "event_builder ops fb create_string i b"
  have data: "b_finished_data ops ?b = Some (finished ?b)" "length (finished ?b) \<le> fb_max"
    using assms(2) Cons.prems(3) by (simp_all add: event_contract_def Let_def)
  from write_finished_at_end [OF Cons.prems(1) data(1) assms(3) [OF data(2)] Cons.prems(2)] obtain w1 where w1:
    "write_finished ops ?b w = Some (Ok (), w1)" "sw_framer w1 = sw_framer w"
    "cursor_pos (sw_writer w1) = length (cursor_data (sw_writer w1))"
    "cursor_data (sw_writer w1) = cursor_data (sw_writer w) @ encode_frame field (finished ?b)" by blast
  with Cons.IH [of w1 ?b] Cons.prems(1,3) obtain w' ps where rest:
    "write_events ops fb create_string is ?b w1 = Some (Ok (), w')"
    "cursor_data (sw_writer w') = cursor_data (sw_writer w1) @ encode_stream field ps"
    "list_all2 (\<lambda>i p. \<exists>b. p = finished (event_builder ops fb create_string i b) \<and> length p \<le> fb_max) is ps" by auto
  with w1 data(2) show ?case
    by (intro exI [of _ w'] exI [of _ "finished ?b # ps"]) (auto simp: Let_def bindp_Ok)
qed

lemma feed_events:
  assumes "event_contract fb_max ops fb create_string acc view finished"
    and "builder_contract fb acc feq view finished root_pos prefixed_pos"
    and "access_contract acc buffer place root_pos prefixed_pos"
    and "list_all2 (\<lambda>i p. \<exists>b. p = finished (event_builder ops fb create_string i b) \<and> length p \<le> fb_max) is ps"
    and "list_all (\<lambda>i. i < 3) is"
  shows "feed (\<lambda>payload. bindp (lift_outcome (telemetry_root_from_payload acc render payload)) (check_event acc)) ps seen =
    Some (Ok (), [], seen + of_nat (length is))"
  using assms(4,5)
proof (induction "is" ps arbitrary: seen rule: list_all2_induct)
  case (Cons i "is" p ps)
  from Cons.hyps(1) obtain b where p: "p = finished (event_builder ops fb create_string i b)" by blast
  from event_reads_back [OF assms(1-3), of i b] Cons.prems obtain t where
    "root_as_telemetry_event acc p = Ok t" "te_message acc t = Some (Ok (Some (''event-'' @ dec i)))"
    unfolding p by auto
  then have "bindp (lift_outcome (telemetry_root_from_payload acc render p)) (check_event acc) seen = Some (Ok (), seen + 1)"
    by (simp add: telemetry_root_from_payload_def check_event_def prog_simps)
  with Cons.IH Cons.prems show ?case by (simp add: add.assoc)
qed simp

lemma typed_flatc_example_passes:
  assumes "event_contract fb_max ops fb create_string acc view finished"
    and "builder_contract fb acc feq view finished root_pos prefixed_pos"
    and "access_contract acc buffer place root_pos prefixed_pos" and "fb_max \<le> u32_max"
  shows "typed_flatc_main fb_max ops fb create_string acc render = Some (Ok ())"
proof -
  let ?w = "writer_new ops (cursor_new []) (DefaultFramer cursor_write) () :: (cursor, unit, 'a, unit, unit) stream_writer"
  have lib: "library_framer cursor_write (\<lambda>_. []) (\<lambda>p. length p \<le> u32_max) (sw_framer ?w)"
    by (simp add: writer_new_def plain_framer)
  have w: "cursor_pos (sw_writer ?w) = length (cursor_data (sw_writer ?w))" "cursor_data (sw_writer ?w) = []"
    by (simp_all add: writer_new_def cursor_new_def)
  from write_events_exact [OF lib assms(1) _ w(1), of "[0, 1, 2]" "b_new ops"] assms(4) w(2) obtain w' ps where
    run: "write_events ops fb create_string [0, 1, 2] (b_new ops) ?w = Some (Ok (), w')"
    "cursor_data (sw_writer w') = encode_stream (\<lambda>_. []) ps" and
    ps: "list_all2 (\<lambda>i p. \<exists>b. p = finished (event_builder ops fb create_string i b) \<and> length p \<le> fb_max) [0, 1, 2] ps"
    by auto
  have three: "list_all (\<lambda>i. i < 3) [0, 1, 2 :: nat]" by simp
  from run have wrote: "run_writer (write_events ops fb create_string [0, 1, 2] (b_new ops)) ?w =
      Some (Ok ((), encode_stream (\<lambda>_. []) ps))" by (simp add: run_writer_def)
  have dfr: "library_deframer cursor_read (plain_format fb_max) (DefaultDeframer cursor_read (default_deframer_new fb_max))"
    using plain_deframer [where d = "default_deframer_new fb_max"]
    by (simp add: default_deframer_new_def DEFAULT_MAX_FRAME_LEN_def)
  have "list_all (\<lambda>p. fits (plain_format fb_max) p \<and> True) ps"
    using ps assms(4) by (auto simp: list_all_length list_all2_conv_all_nth fits_def plain_format_def)
  note read = run_reader_frames [OF dfr speaks_plain this feed_events [OF assms(1-3) ps three, of render 0], unfolded run_reader_def]
  show ?thesis
    unfolding typed_flatc_main_def wrote demo_bind_simps prod.case process_typed_def read
    by (simp add: assert_then_def)
qed

end
