(* ===== verification/FS_Wire_Check.thy ===== *)
theory FS_Wire_Check
  imports FS_Demos
begin

text \<open>
  \<^verbatim>\<open>experiments/v2_6/wire_format_verification.rs\<close>, which takes the bytes of written messages apart to
  compare them with the documented format. What a part of it prints is its result: the fields it reads at
  fixed places, and where it finds the text. An index out of range is the outcome \<open>Panic\<close>.
\<close>

section \<open>The program\<close>

text \<open>\<^verbatim>\<open>haystack.windows(needle.len()).position(|window| window == needle)\<close>; windows of size zero panic.\<close>

fun position_of :: "'a list \<Rightarrow> nat \<Rightarrow> 'a list \<Rightarrow> nat option" where
  "position_of needle i haystack =
     (if length haystack < length needle then None
      else if take (length needle) haystack = needle then Some i
      else case haystack of [] \<Rightarrow> None | _ # rest \<Rightarrow> position_of needle (i + 1) rest)"

declare position_of.simps [simp del]

definition find_pattern :: "bytes \<Rightarrow> bytes \<Rightarrow> ('e, nat option) outcome" where
  "find_pattern haystack needle = (if needle = [] then Panic else Ok (position_of needle 0 haystack))"

text \<open>\<^verbatim>\<open>&buffer[from..to]\<close>\<close>

definition slice_of :: "bytes \<Rightarrow> nat \<Rightarrow> nat \<Rightarrow> ('e, bytes) outcome" where
  "slice_of buffer from_idx to_idx =
     (if from_idx \<le> to_idx \<and> to_idx \<le> length buffer then Ok (take (to_idx - from_idx) (drop from_idx buffer)) else Panic)"

text \<open>A message written, with the unwrapping of the result.\<close>

definition written_wire :: "'b builder_ops \<Rightarrow> ('b, 'offset) string_builder \<Rightarrow> (cursor, unit) framer \<Rightarrow> string \<Rightarrow>
    (error, bytes) outcome option" where
  "written_wire ops sb framer test_data =
     map_option (\<lambda>out. case out of Ok (_, wire) \<Rightarrow> Ok wire | _ \<Rightarrow> Panic)
       (run_writer (writer_write ops (str_serialize (fst sb) (snd sb) test_data))
         (writer_new ops (cursor_new []) framer ()))"

definition length_field :: "bytes \<Rightarrow> ('e, u32) outcome" where
  "length_field buffer = and_then (slice_of buffer 0 4) (\<lambda>length_bytes. Ok (from_le length_bytes))"

text \<open>The fields, and where the text is in the payload, counted from its start.\<close>

definition verify_default_framer_format :: "'b builder_ops \<Rightarrow> ('b, 'offset) string_builder \<Rightarrow>
    (error, u32 \<times> nat option) outcome option" where
  "verify_default_framer_format ops sb =
     demo_bind (written_wire ops sb (DefaultFramer cursor_write) ''Hello, World!'') (\<lambda>buffer.
     Some (and_then (length_field buffer) (\<lambda>len.
       and_then (slice_of buffer 4 (length buffer)) (\<lambda>payload.
       and_then (find_pattern payload (byte_string ''Hello, World!'')) (\<lambda>pos.
       Ok (len, pos))))))"

text \<open>Without a checksum algorithm for the framer there is nothing to write.\<close>

definition with_framer :: "checksum \<Rightarrow> (checksum \<Rightarrow> ('e, 'a) outcome option) \<Rightarrow> ('e, 'a) outcome option" where
  "with_framer alg f = (case checksum_framer_new alg of None \<Rightarrow> Some Panic | Some framer_alg \<Rightarrow> f framer_alg)"

definition verify_xxhash_framer_format :: "'b builder_ops \<Rightarrow> ('b, 'offset) string_builder \<Rightarrow> (bytes \<Rightarrow> u64) \<Rightarrow>
    (error, u32 \<times> u64 \<times> nat option) outcome option" where
  "verify_xxhash_framer_format ops sb xxh3_64 =
     with_framer (XxHash64 xxh3_64) (\<lambda>alg.
     demo_bind (written_wire ops sb (ChecksumFramer alg cursor_write) ''Checksummed data'') (\<lambda>buffer.
     Some (and_then (length_field buffer) (\<lambda>len.
       and_then (slice_of buffer 4 12) (\<lambda>checksum_bytes.
       and_then (slice_of buffer 12 (length buffer)) (\<lambda>payload.
       and_then (find_pattern payload (byte_string ''Checksummed data'')) (\<lambda>pos.
       Ok (len, from_le checksum_bytes, pos))))))))"

definition verify_crc32_framer_format :: "'b builder_ops \<Rightarrow> ('b, 'offset) string_builder \<Rightarrow> (bytes \<Rightarrow> u32) \<Rightarrow>
    (error, u32) outcome option" where
  "verify_crc32_framer_format ops sb crc32fast_hash =
     with_framer (Crc32 crc32fast_hash) (\<lambda>alg.
     demo_bind (written_wire ops sb (ChecksumFramer alg cursor_write) ''CRC32 test'') (\<lambda>buffer.
     Some (and_then (slice_of buffer 0 4) (\<lambda>length_bytes.
       and_then (slice_of buffer 4 8) (\<lambda>checksum_bytes. Ok (from_le checksum_bytes))))))"

definition verify_crc16_framer_format :: "'b builder_ops \<Rightarrow> ('b, 'offset) string_builder \<Rightarrow> (bytes \<Rightarrow> 16 word) \<Rightarrow>
    (error, 16 word) outcome option" where
  "verify_crc16_framer_format ops sb crc16_xmodem =
     with_framer (Crc16 crc16_xmodem) (\<lambda>alg.
     demo_bind (written_wire ops sb (ChecksumFramer alg cursor_write) ''CRC16 test'') (\<lambda>buffer.
     Some (and_then (slice_of buffer 0 4) (\<lambda>length_bytes.
       and_then (slice_of buffer 4 6) (\<lambda>checksum_bytes. Ok (from_le checksum_bytes))))))"

text \<open>Whether one of the two notices about the byte order is printed.\<close>

definition verify_endianness :: "'b builder_ops \<Rightarrow> ('b, 'offset) string_builder \<Rightarrow> (error, bool) outcome option" where
  "verify_endianness ops sb =
     demo_bind (written_wire ops sb (DefaultFramer cursor_write) ''Test'') (\<lambda>buffer.
     Some (and_then (slice_of buffer 0 4) (\<lambda>length_bytes.
       Ok (length_bytes ! 0 \<noteq> 0 \<and> length_bytes ! 3 = 0 \<or> (from_le length_bytes :: u32) < 256))))"

section \<open>Patterns\<close>

lemma position_of_cases:
  "(case position_of needle i haystack of
      Some k \<Rightarrow> i \<le> k \<and> take (length needle) (drop (k - i) haystack) = needle \<and>
        (\<forall>j < k - i. take (length needle) (drop j haystack) \<noteq> needle)
    | None \<Rightarrow> \<not> sublist needle haystack)"
proof (induction needle i haystack rule: position_of.induct)
  case (1 needle i haystack)
  show ?case
  proof (cases "length haystack < length needle \<or> take (length needle) haystack = needle")
    case True
    then show ?thesis by (subst position_of.simps) (auto dest: sublist_length_le)
  next
    case False
    show ?thesis
    proof (cases haystack)
      case Nil
      with False show ?thesis by auto
    next
      case (Cons x rest)
      from False have no_prefix: "\<not> prefix needle haystack" by (auto simp: prefix_def)
      have step: "position_of needle i haystack = position_of needle (i + 1) rest"
        using False by (subst position_of.simps) (simp add: Cons)
      from 1 [OF _ _ Cons] False have IH: "case position_of needle (i + 1) rest of
          Some k \<Rightarrow> i + 1 \<le> k \<and> take (length needle) (drop (k - (i + 1)) rest) = needle \<and>
            (\<forall>j < k - (i + 1). take (length needle) (drop j rest) \<noteq> needle)
        | None \<Rightarrow> \<not> sublist needle rest" by simp
      show ?thesis
      proof (cases "position_of needle (i + 1) rest")
        case None
        with IH no_prefix show ?thesis unfolding step by (simp add: Cons sublist_Cons_right)
      next
        case (Some k)
        with IH have k: "i + 1 \<le> k" "take (length needle) (drop (k - (i + 1)) rest) = needle"
          "\<forall>j < k - (i + 1). take (length needle) (drop j rest) \<noteq> needle" by simp_all
        have "take (length needle) (drop j haystack) \<noteq> needle" if "j < k - i" for j
          using k(3) that False by (cases j) (auto simp: Cons)
        with k Some show ?thesis unfolding step by (auto simp: Cons drop_Cons' diff_diff_add)
      qed
    qed
  qed
qed

text \<open>The pattern is found where it first occurs, and only if it occurs.\<close>

lemma find_pattern_first:
  assumes "needle \<noteq> []" and "sublist needle haystack"
  shows "\<exists>pos. find_pattern haystack needle = Ok (Some pos) \<and> take (length needle) (drop pos haystack) = needle \<and>
    (\<forall>j < pos. take (length needle) (drop j haystack) \<noteq> needle)"
  using position_of_cases [where needle = needle and i = 0 and haystack = haystack] assms
  by (auto simp: find_pattern_def split: option.splits)

section \<open>The format is the documented one\<close>

lemma written_wire_exact:
  assumes "library_framer cursor_write field (\<lambda>p. length p \<le> u32_max) framer" and "string_roots ops sb enc"
    and "length (enc s) \<le> u32_max"
  shows "written_wire ops sb framer s = Some (Ok (encode_frame field (enc s)))"
proof -
  let ?w = "writer_new ops (cursor_new []) framer () :: (cursor, unit, 'a, unit, unit) stream_writer"
  have lib: "library_framer cursor_write field (\<lambda>p. length p \<le> u32_max) (sw_framer ?w)"
    using assms(1) by (simp add: writer_new_def)
  from write_at_end [OF lib string_encodes [OF assms(2), of s]] assms(3)
  obtain w' where "writer_write ops (str_serialize (fst sb) (snd sb) s) ?w = Some (Ok (), w')"
    "cursor_data (sw_writer w') = encode_frame field (enc s)"
    by (auto simp: writer_new_def cursor_new_def)
  then show ?thesis by (simp add: written_wire_def run_writer_def)
qed

lemma frame_slices:
  assumes "length (field p) = k"
  shows "slice_of (encode_frame field p) 0 4 = Ok (le_bytes 4 (u32_of_usize (length p)))"
    and "slice_of (encode_frame field p) 4 (4 + k) = Ok (field p)"
    and "slice_of (encode_frame field p) (4 + k) (length (encode_frame field p)) = Ok p"
  using assms by (simp_all add: slice_of_def encode_frame_def)

lemma from_le_u32: "(from_le (le_bytes 4 (w :: u32)) :: u32) = w"
proof -
  have "take_bit 32 w = w" by (rule bit_word_eqI) (simp add: bit_simps)
  then show ?thesis by (simp add: from_le_bytes)
qed

lemma default_checksum_field:
  assumes "sz \<le> 8"
  shows "checksum_field (checksum_default sz calc) p = le_bytes sz (calc p)"
  using assms by (simp add: checksum_field_def checksum_default_def write_bytes_default_def take_le_bytes)

lemma le_bytes_ucast: "n * 8 \<le> LENGTH('a) \<Longrightarrow> le_bytes n (ucast (w :: 'a::len word) :: u64) = le_bytes n w" if "LENGTH('a) \<le> 64"
proof (induction n arbitrary: w)
  case (Suc n)
  have "(ucast (ucast w :: u64) :: u8) = ucast w"
    using Suc.prems that by (intro bit_word_eqI) (auto simp: bit_simps)
  moreover have "drop_bit 8 (ucast w :: u64) = ucast (drop_bit 8 w)"
    using that by (intro bit_word_eqI) (auto simp: bit_simps dest: bit_imp_le_length)
  ultimately show ?case using Suc by simp
qed simp

lemma from_le_word: "8 * n = LENGTH('a) \<Longrightarrow> (from_le (le_bytes n (w :: 'a::len word)) :: 'a word) = w"
proof -
  assume "8 * n = LENGTH('a)"
  then have "take_bit (8 * n) w = w" by (intro bit_word_eqI) (auto simp: bit_simps dest: bit_imp_le_length)
  then show ?thesis by (simp add: from_le_bytes)
qed

lemma le_bytes_ends:
  assumes "n \<le> u32_max"
  shows "le_bytes 4 (u32_of_usize n) ! 0 = 0 \<longleftrightarrow> n mod 256 = 0" and "le_bytes 4 (u32_of_usize n) ! 3 = 0 \<longleftrightarrow> n < 2 ^ 24"
proof -
  have n: "unat (u32_of_usize n) = n" using assms by (simp add: unat_u32_of_usize u32_max_def)
  have four: "le_bytes 4 w = [ucast w, ucast (drop_bit 8 w), ucast (drop_bit 16 w), ucast (drop_bit 24 w)]" for w :: u32
    by (simp add: numeral_eq_Suc)
  have "(ucast (u32_of_usize n) :: u8) = 0 \<longleftrightarrow> n mod 256 = 0"
    by (simp add: word_unat_eq_iff unsigned_ucast_eq take_bit_eq_mod n)
  then show "le_bytes 4 (u32_of_usize n) ! 0 = 0 \<longleftrightarrow> n mod 256 = 0" by (simp add: four)
  have top: "unat (drop_bit 24 (u32_of_usize n)) = n div 2 ^ 24" unfolding unat_drop_bit_eq n by (rule drop_bit_eq_div)
  have "n div 2 ^ 24 < 256" using assms by (simp add: u32_max_def)
  then have "(ucast (drop_bit 24 (u32_of_usize n)) :: u8) = 0 \<longleftrightarrow> n div 2 ^ 24 = 0"
    unfolding word_unat_eq_iff unsigned_ucast_eq top take_bit_eq_mod by simp
  then show "le_bytes 4 (u32_of_usize n) ! 3 = 0 \<longleftrightarrow> n < 2 ^ 24" by (simp add: four div_eq_0_iff)
qed

text \<open>What the five parts print, for a builder whose payloads hold the text.\<close>

lemma wire_format_verified:
  assumes "string_roots ops sb enc" and "\<And>s. sublist (byte_string s) (enc s)"
    and "\<And>s. s \<in> {''Hello, World!'', ''Checksummed data'', ''CRC32 test'', ''CRC16 test'', ''Test''} \<Longrightarrow> length (enc s) \<le> u32_max"
  shows "\<exists>pos. verify_default_framer_format ops sb = Some (Ok (word_of_nat (length (enc ''Hello, World!'')), Some pos))"
    and "\<exists>pos. verify_xxhash_framer_format ops sb xxh3_64 =
      Some (Ok (word_of_nat (length (enc ''Checksummed data'')), xxh3_64 (enc ''Checksummed data''), Some pos))"
    and "verify_crc32_framer_format ops sb crc32fast_hash = Some (Ok (crc32fast_hash (enc ''CRC32 test'')))"
    and "verify_crc16_framer_format ops sb crc16_xmodem = Some (Ok (crc16_xmodem (enc ''CRC16 test'')))"
    and "verify_endianness ops sb = (let n = length (enc ''Test'') in
      Some (Ok (n mod 256 \<noteq> 0 \<and> n < 2 ^ 24 \<or> n < 256)))"
proof -
  have found: "\<exists>pos. find_pattern (enc s) (byte_string s) = (Ok (Some pos) :: (error, nat option) outcome)" if "s \<noteq> []" for s
    using find_pattern_first [of "byte_string s" "enc s"] assms(2) that by (auto simp: byte_string_def)
  have plain: "library_framer cursor_write (\<lambda>_. []) (\<lambda>p. length p \<le> u32_max) (DefaultFramer cursor_write :: (cursor, unit) framer)"
    by (rule plain_framer)
  note slices = frame_slices [where field = "\<lambda>_. []" and k = 0, simplified]
  from found [of "''Hello, World!''"] show "\<exists>pos. verify_default_framer_format ops sb =
      Some (Ok (word_of_nat (length (enc ''Hello, World!'')), Some pos))"
    using assms(3) by (auto simp: verify_default_framer_format_def written_wire_exact [OF plain assms(1)] length_field_def
        slices and_then_def from_le_u32 u32_of_usize_def)
  have "length (checksum_field (XxHash64 xxh3_64) p) = 8" "length (checksum_field (Crc32 crc32fast_hash) p) = 4"
    "length (checksum_field (Crc16 crc16_xmodem) p) = 2" for p
    by (simp_all add: XxHash64_def Crc32_def Crc16_def default_checksum_field)
  note fields = frame_slices [where field = "checksum_field (XxHash64 xxh3_64)", OF this(1), simplified]
    frame_slices [where field = "checksum_field (Crc32 crc32fast_hash)", OF this(2), simplified]
    frame_slices [where field = "checksum_field (Crc16 crc16_xmodem)", OF this(3), simplified]
  have lib: "library_framer cursor_write (checksum_field alg) (\<lambda>p. length p \<le> u32_max) (ChecksumFramer alg cursor_write :: (cursor, unit) framer)"
    if "lawful_checksum alg" for alg using that by (rule checksummed_framer)
  have new: "checksum_framer_new (XxHash64 xxh3_64) = Some (XxHash64 xxh3_64)"
    "checksum_framer_new (Crc32 crc32fast_hash) = Some (Crc32 crc32fast_hash)"
    "checksum_framer_new (Crc16 crc16_xmodem) = Some (Crc16 crc16_xmodem)"
    by (simp_all add: checksum_framer_new_def XxHash64_def Crc32_def Crc16_def checksum_default_def)
  from found [of "''Checksummed data''"] show "\<exists>pos. verify_xxhash_framer_format ops sb xxh3_64 =
      Some (Ok (word_of_nat (length (enc ''Checksummed data'')), xxh3_64 (enc ''Checksummed data''), Some pos))"
    using assms(3) by (auto simp: verify_xxhash_framer_format_def with_framer_def new length_field_def
        written_wire_exact [OF lib [OF xxhash64.lawful_checksum_axioms] assms(1)] fields and_then_def from_le_u32 u32_of_usize_def)
      (simp add: XxHash64_def default_checksum_field from_le_word)
  show "verify_crc32_framer_format ops sb crc32fast_hash = Some (Ok (crc32fast_hash (enc ''CRC32 test'')))"
    using assms(3) by (simp add: verify_crc32_framer_format_def with_framer_def new
        written_wire_exact [OF lib [OF crc32.lawful_checksum_axioms] assms(1)] fields and_then_def)
      (simp add: Crc32_def default_checksum_field le_bytes_ucast from_le_word)
  show "verify_crc16_framer_format ops sb crc16_xmodem = Some (Ok (crc16_xmodem (enc ''CRC16 test'')))"
    using assms(3) by (simp add: verify_crc16_framer_format_def with_framer_def new
        written_wire_exact [OF lib [OF crc16.lawful_checksum_axioms] assms(1)] fields and_then_def)
      (simp add: Crc16_def default_checksum_field le_bytes_ucast from_le_word)
  have small: "length (enc ''Test'') \<le> u32_max" using assms(3) by simp
  then have "(u32_of_usize (length (enc ''Test'')) < 256) = (length (enc ''Test'') < 256)"
    by (simp add: u32_of_usize_def word_less_nat_alt unat_of_nat u32_max_def)
  with small show "verify_endianness ops sb = (let n = length (enc ''Test'') in
      Some (Ok (n mod 256 \<noteq> 0 \<and> n < 2 ^ 24 \<or> n < 256)))"
    by (simp add: verify_endianness_def written_wire_exact [OF plain assms(1)] slices and_then_def from_le_u32
        le_bytes_ends Let_def)
qed

end
