(* ===== verification/FS_Modes.thy ===== *)
theory FS_Modes
  imports FS_Demos FS_Float
begin

text \<open>
  The measuring programs under \<^verbatim>\<open>experiments/v2_6/\<close> that compare the writer's simple mode (it owns the
  builder) with its expert mode (the caller does): \<^verbatim>\<open>performance_comparison.rs\<close>,
  \<^verbatim>\<open>overhead_analysis.rs\<close>, \<^verbatim>\<open>large_message_test.rs\<close>, \<^verbatim>\<open>memory_usage_test.rs\<close>,
  \<^verbatim>\<open>builder_reuse_verification.rs\<close> and \<^verbatim>\<open>throughput_measurement.rs\<close>. Modelled is what they write and
  read; the times they measure and print are not, except where a loop ends by the clock. They were written
  for version 2.6 of the crate, and what they call is modelled as it is today. An \<^verbatim>\<open>unwrap\<close> of an error is
  the outcome \<open>Panic\<close>; the calls of the FlatBuffers builder are arguments.
\<close>

section \<open>The two modes\<close>

definition unwrapped :: "('s, 'e, 'a) prog \<Rightarrow> ('s, 'e, 'a) prog" where
  "unwrapped m s = map_option (\<lambda>(out, s'). (case out of Ok a \<Rightarrow> Ok a | _ \<Rightarrow> Panic, s')) (m s)"

text \<open>\<^verbatim>\<open>for msg in messages { writer.write(msg).unwrap(); }\<close>\<close>

fun simple_loop :: "'b builder_ops \<Rightarrow> 'b serialize list \<Rightarrow> (('w, 'o, 'b, 'p, 'm) stream_writer, error, unit) prog" where
  "simple_loop ops [] = ret ()"
| "simple_loop ops (item # items) = bindp (unwrapped (writer_write ops item)) (\<lambda>_. simple_loop ops items)"

text \<open>
  \<^verbatim>\<open>builder.reset(); msg.serialize(&mut builder).unwrap(); writer.write_finished(&mut builder).unwrap();\<close>
\<close>

definition expert_step :: "'b builder_ops \<Rightarrow> 'b serialize \<Rightarrow>
    ('b \<times> ('w, 'o, 'b, 'p, 'm) stream_writer, error, unit) prog" where
  "expert_step ops item = (\<lambda>(builder, w).
     (case unwrapped item (b_reset ops builder) of
        None \<Rightarrow> None
      | Some (Err e, b) \<Rightarrow> Some (Err e, b, w)
      | Some (Panic, b) \<Rightarrow> Some (Panic, b, w)
      | Some (Ok _, b) \<Rightarrow> map_option (\<lambda>(out, w'). (out, b, w')) (unwrapped (write_finished ops b) w)))"

fun expert_loop :: "'b builder_ops \<Rightarrow> 'b serialize list \<Rightarrow>
    ('b \<times> ('w, 'o, 'b, 'p, 'm) stream_writer, error, unit) prog" where
  "expert_loop ops [] = ret ()"
| "expert_loop ops (item # items) = bindp (expert_step ops item) (\<lambda>_. expert_loop ops items)"

text \<open>Expert mode with a builder for each kind of message; an item comes with its kind.\<close>

fun separate_loop :: "'b builder_ops \<Rightarrow> ('k \<times> 'b serialize) list \<Rightarrow>
    (('k \<Rightarrow> 'b) \<times> ('w, 'o, 'b, 'p, 'm) stream_writer, error, unit) prog" where
  "separate_loop ops [] = ret ()"
| "separate_loop ops ((k, item) # items) =
     bindp (\<lambda>(bs, w). map_option (\<lambda>(out, b, w'). (out, bs(k := b), w')) (expert_step ops item (bs k, w)))
       (\<lambda>_. separate_loop ops items)"

text \<open>Runs on a writer over an empty vector; the result is what is in the vector.\<close>

definition vec_writer :: "'b builder_ops \<Rightarrow> (cursor, unit, 'b, unit, unit) stream_writer" where
  "vec_writer ops = writer_new ops (cursor_new []) (DefaultFramer cursor_write) ()"

definition run_simple :: "'b builder_ops \<Rightarrow> 'b serialize list \<Rightarrow> (error, bytes) outcome option" where
  "run_simple ops items =
     map_option (\<lambda>(out, w). map_ok (\<lambda>_. cursor_data (sw_writer w)) out) (simple_loop ops items (vec_writer ops))"

definition run_expert :: "'b builder_ops \<Rightarrow> 'b serialize list \<Rightarrow> (error, bytes) outcome option" where
  "run_expert ops items =
     map_option (\<lambda>(out, _, w). map_ok (\<lambda>_. cursor_data (sw_writer w)) out)
       (expert_loop ops items (b_new ops, vec_writer ops))"

section \<open>Comparing the performance\<close>

record test_message =
  tm_id :: u32
  tm_data :: string

definition test_message_serialize :: "('b, 'offset) string_builder \<Rightarrow> test_message \<Rightarrow> 'b serialize" where
  "test_message_serialize sb msg builder =
     (let (data_offset, b) = fst sb (tm_data msg) builder in Some (Ok (), snd sb data_offset b))"

definition test_messages :: "test_message list" where
  "test_messages = map (\<lambda>i. \<lparr>tm_id = word_of_nat i, tm_data = ''Test message number '' @ dec i\<rparr>) [0..<1000]"

definition run_simple_mode :: "'b builder_ops \<Rightarrow> ('b, 'offset) string_builder \<Rightarrow> test_message list \<Rightarrow>
    (error, bytes) outcome option" where
  "run_simple_mode ops sb messages = run_simple ops (map (test_message_serialize sb) messages)"

definition run_expert_mode :: "'b builder_ops \<Rightarrow> ('b, 'offset) string_builder \<Rightarrow> test_message list \<Rightarrow>
    (error, bytes) outcome option" where
  "run_expert_mode ops sb messages = run_expert ops (map (test_message_serialize sb) messages)"

text \<open>After a run of each to warm up; the result is what the measured runs wrote.\<close>

definition performance_main :: "'b builder_ops \<Rightarrow> ('b, 'offset) string_builder \<Rightarrow> (error, bytes \<times> bytes) outcome option" where
  "performance_main ops sb =
     demo_bind (run_simple_mode ops sb test_messages) (\<lambda>_.
     demo_bind (run_expert_mode ops sb test_messages) (\<lambda>_.
     demo_bind (run_simple_mode ops sb test_messages) (\<lambda>simple.
     demo_bind (run_expert_mode ops sb test_messages) (\<lambda>expert.
     Some (Ok (simple, expert))))))"

section \<open>Where the overhead comes from\<close>

definition ITERATIONS :: nat where
  "ITERATIONS = 10000"

definition dummy_serialize :: "('b, 'offset) string_builder \<Rightarrow> 'b serialize" where
  "dummy_serialize sb builder = (let (s, b) = fst sb ''x'' builder in Some (Ok (), snd sb s b))"

text \<open>\<^verbatim>\<open>finished_data\<close> panics where the builder is not finished.\<close>

fun builder_only :: "'b builder_ops \<Rightarrow> ('b, 'offset) string_builder \<Rightarrow> nat \<Rightarrow> ('b, error, unit) prog" where
  "builder_only ops sb 0 = ret ()"
| "builder_only ops sb (Suc n) =
     bindp (\<lambda>builder.
       let (s, b) = fst sb ''x'' (b_reset ops builder);
           b = snd sb s b
       in case b_finished_data ops b of None \<Rightarrow> Some (Panic, b) | Some _ \<Rightarrow> Some (Ok (), b))
     (\<lambda>_. builder_only ops sb n)"

fun raw_framing :: "('w, 'o) framer \<Rightarrow> nat \<Rightarrow> (('w, 'o) tx, error, unit) prog" where
  "raw_framing framer 0 = ret ()"
| "raw_framing framer (Suc n) = bindp (unwrapped (framer (byte_string ''test''))) (\<lambda>_. raw_framing framer n)"

definition overhead_main :: "'b builder_ops \<Rightarrow> ('b, 'offset) string_builder \<Rightarrow>
    (error, bytes \<times> bytes \<times> bytes) outcome option" where
  "overhead_main ops sb =
     demo_bind (map_option fst (builder_only ops sb ITERATIONS (b_new ops))) (\<lambda>_.
     demo_bind (run_simple ops (replicate ITERATIONS (dummy_serialize sb))) (\<lambda>simple_mode.
     demo_bind (run_expert ops (replicate ITERATIONS (dummy_serialize sb))) (\<lambda>expert_mode.
     demo_bind (map_option (\<lambda>(out, t). map_ok (\<lambda>_. cursor_data (tx_sink t)) out)
       (raw_framing (DefaultFramer cursor_write) ITERATIONS \<lparr>tx_sink = cursor_new [], tx_world = ()\<rparr>)) (\<lambda>raw.
     Some (Ok (simple_mode, expert_mode, raw))))))"

section \<open>Large messages\<close>

definition large_message :: bytes where
  "large_message = replicate (10 * 1024 * 1024) 0xAB"

definition large_serialize :: "('b, 'offset) vector_builder \<Rightarrow> bytes \<Rightarrow> 'b serialize" where
  "large_serialize vb data builder = (let (data_vec, b) = fst vb data builder in Some (Ok (), snd vb data_vec b))"

definition small_serialize :: "('b, 'offset) string_builder \<Rightarrow> u32 \<Rightarrow> 'b serialize" where
  "small_serialize sb i builder =
     (let (s, b) = fst sb (''msg_'' @ dec (unat i)) builder in Some (Ok (), snd sb s b))"

text \<open>Every other message is a large one.\<close>

definition alternating :: "('b, 'offset) vector_builder \<Rightarrow> ('b, 'offset2) string_builder \<Rightarrow> nat \<Rightarrow> 'b serialize" where
  "alternating vb sb i = (if i mod 2 = 0 then large_serialize vb large_message else small_serialize sb 42)"

definition test_large_messages_only :: "'b builder_ops \<Rightarrow> ('b, 'offset) vector_builder \<Rightarrow>
    (error, bytes \<times> bytes) outcome option" where
  "test_large_messages_only ops vb =
     (let large_messages = replicate 10 large_message
      in demo_bind (run_simple ops (map (large_serialize vb) large_messages)) (\<lambda>simple.
         demo_bind (run_expert ops (map (large_serialize vb) large_messages)) (\<lambda>expert.
         Some (Ok (simple, expert)))))"

definition test_mixed_message_sizes :: "'b builder_ops \<Rightarrow> ('b, 'offset) vector_builder \<Rightarrow> ('b, 'offset2) string_builder \<Rightarrow>
    (error, bytes \<times> bytes) outcome option" where
  "test_mixed_message_sizes ops vb sb =
     demo_bind (run_simple ops (map (alternating vb sb) [0..<20])) (\<lambda>simple.
     demo_bind (run_expert ops (map (alternating vb sb) [0..<20])) (\<lambda>expert_single.
     Some (Ok (simple, expert_single))))"

text \<open>The builder of index \<open>True\<close> is the large one.\<close>

definition test_multiple_builders :: "'b builder_ops \<Rightarrow> ('b, 'offset) vector_builder \<Rightarrow> ('b, 'offset2) string_builder \<Rightarrow>
    (error, bytes) outcome option" where
  "test_multiple_builders ops vb sb =
     map_option (\<lambda>(out, _, w). map_ok (\<lambda>_. cursor_data (sw_writer w)) out)
       (separate_loop ops (map (\<lambda>i. (i mod 2 = 0, alternating vb sb i)) [0..<20]) (\<lambda>_. b_new ops, vec_writer ops))"

definition large_message_main :: "'b builder_ops \<Rightarrow> ('b, 'offset) vector_builder \<Rightarrow> ('b, 'offset2) string_builder \<Rightarrow>
    (error, unit) outcome option" where
  "large_message_main ops vb sb =
     demo_bind (test_large_messages_only ops vb) (\<lambda>_.
     demo_bind (test_mixed_message_sizes ops vb sb) (\<lambda>_.
     demo_bind (test_multiple_builders ops vb sb) (\<lambda>_. Some (Ok ()))))"

section \<open>Memory\<close>

definition tiny_serialize :: "('b, 'offset) string_builder \<Rightarrow> u32 \<Rightarrow> 'b serialize" where
  "tiny_serialize sb i builder = (let (s, b) = fst sb (dec (unat i)) builder in Some (Ok (), snd sb s b))"

definition huge_message :: bytes where
  "huge_message = replicate (50 * 1024 * 1024) 0xFF"

definition tiny_messages :: "('b, 'offset) string_builder \<Rightarrow> 'b serialize list" where
  "tiny_messages sb = map (\<lambda>i. tiny_serialize sb (word_of_nat i)) [0..<1000]"

definition memory_simple :: "'b builder_ops \<Rightarrow> ('b, 'offset) vector_builder \<Rightarrow> ('b, 'offset2) string_builder \<Rightarrow>
    ((cursor, unit, 'b, unit, unit) stream_writer, error, unit) prog" where
  "memory_simple ops vb sb =
     bindp (unwrapped (writer_write ops (large_serialize vb huge_message))) (\<lambda>_. simple_loop ops (tiny_messages sb))"

text \<open>A first builder is dropped after the huge message, and a second one serves the tiny ones.\<close>

definition temporary_builder :: "'b builder_ops \<Rightarrow> 'b serialize \<Rightarrow> 'b serialize list \<Rightarrow>
    (cursor, unit, 'b, unit, unit) stream_writer \<Rightarrow>
    ((error, unit) outcome \<times> 'b \<times> (cursor, unit, 'b, unit, unit) stream_writer) option" where
  "temporary_builder ops item items w =
     (case expert_step ops item (b_new ops, w) of
        None \<Rightarrow> None
      | Some (Ok _, _, w') \<Rightarrow> expert_loop ops items (b_new ops, w')
      | Some (Err e, b, w') \<Rightarrow> Some (Err e, b, w')
      | Some (Panic, b, w') \<Rightarrow> Some (Panic, b, w'))"

definition memory_usage_main :: "'b builder_ops \<Rightarrow> ('b, 'offset) vector_builder \<Rightarrow> ('b, 'offset2) string_builder \<Rightarrow>
    (error, unit) outcome option" where
  "memory_usage_main ops vb sb =
     demo_bind (map_option fst (memory_simple ops vb sb (vec_writer ops))) (\<lambda>_.
     map_option fst (temporary_builder ops (large_serialize vb huge_message) (tiny_messages sb) (vec_writer ops)))"

section \<open>Reuse of builders\<close>

record memory_tracking_message =
  mt_size :: nat
  mt_content :: string

definition tracking_serialize :: "('b, 'offset) string_builder \<Rightarrow> memory_tracking_message \<Rightarrow> 'b serialize" where
  "tracking_serialize sb msg builder =
     (let (offset, b) = fst sb (mt_content msg) builder in Some (Ok (), snd sb offset b))"

text \<open>The number of bytes that each message adds to the vector.\<close>

fun simple_reuse :: "'b builder_ops \<Rightarrow> ('b, 'offset) string_builder \<Rightarrow> nat list \<Rightarrow> nat list \<Rightarrow>
    ((cursor, unit, 'b, unit, unit) stream_writer, error, nat list) prog" where
  "simple_reuse ops sb [] added = ret added"
| "simple_reuse ops sb (i # is) added = (\<lambda>w.
     let msg = \<lparr>mt_size = 100, mt_content = ''Message '' @ dec i\<rparr>;
         before_size = length (cursor_data (sw_writer w))
     in bindp (unwrapped (writer_write ops (tracking_serialize sb msg))) (\<lambda>_ w'.
          let after_size = length (cursor_data (sw_writer w'))
          in simple_reuse ops sb is (added @ [after_size - before_size]) w') w)"

definition verify_simple_mode_reuse :: "'b builder_ops \<Rightarrow> ('b, 'offset) string_builder \<Rightarrow>
    (error, nat list) outcome option" where
  "verify_simple_mode_reuse ops sb = map_option fst (simple_reuse ops sb [0..<5] [] (vec_writer ops))"

fun expert_reuse :: "'b builder_ops \<Rightarrow> ('b, 'offset) string_builder \<Rightarrow> nat list \<Rightarrow> nat list \<Rightarrow>
    'b \<times> (cursor, unit, 'b, unit, unit) stream_writer \<Rightarrow> (error, nat list) outcome option" where
  "expert_reuse ops sb [] capacities (builder, w) = Some (Ok capacities)"
| "expert_reuse ops sb (i # is) capacities (builder, w) =
     (let msg = \<lparr>mt_size = 100, mt_content = ''Expert message '' @ dec i\<rparr>
      in case unwrapped (tracking_serialize sb msg) (b_reset ops builder) of
           Some (Ok _, b) \<Rightarrow>
             (case b_finished_data ops b of
                None \<Rightarrow> Some Panic
              | Some data \<Rightarrow>
                  (case unwrapped (write_finished ops b) w of
                     Some (Ok _, w') \<Rightarrow> expert_reuse ops sb is (capacities @ [length data]) (b, w')
                   | Some _ \<Rightarrow> Some Panic
                   | None \<Rightarrow> None))
         | Some _ \<Rightarrow> Some Panic
         | None \<Rightarrow> None)"

definition verify_expert_mode_reuse :: "'b builder_ops \<Rightarrow> ('b, 'offset) string_builder \<Rightarrow>
    (error, nat list) outcome option" where
  "verify_expert_mode_reuse ops sb = expert_reuse ops sb [0..<5] [] (b_new ops, vec_writer ops)"

text \<open>A message serialized into the reset builder, and the length of what it is finished as.\<close>

definition serialized_size :: "'b builder_ops \<Rightarrow> ('b, 'offset) string_builder \<Rightarrow> memory_tracking_message \<Rightarrow>
    ('b, error, nat) prog" where
  "serialized_size ops sb msg =
     bindp (\<lambda>b. unwrapped (tracking_serialize sb msg) (b_reset ops b)) (\<lambda>_ b.
     case b_finished_data ops b of None \<Rightarrow> Some (Panic, b) | Some data \<Rightarrow> Some (Ok (length data), b))"

definition demonstrate_builder_growth :: "'b builder_ops \<Rightarrow> ('b, 'offset) string_builder \<Rightarrow>
    ((error, nat \<times> nat) outcome \<times> 'b) option" where
  "demonstrate_builder_growth ops sb =
     (let small_msg = \<lparr>mt_size = 10, mt_content = ''Small''\<rparr>;
          large_msg = \<lparr>mt_size = 5000, mt_content = replicate 5000 (CHR ''X'')\<rparr>
      in bindp (serialized_size ops sb small_msg) (\<lambda>small_size.
         bindp (serialized_size ops sb large_msg) (\<lambda>large_size.
         bindp (\<lambda>b. unwrapped (tracking_serialize sb small_msg) (b_reset ops b)) (\<lambda>_. ret (small_size, large_size))))
         (b_new ops))"

definition bloat_large :: memory_tracking_message where
  "bloat_large = \<lparr>mt_size = 1000000, mt_content = replicate 1000000 (CHR ''L'')\<rparr>"

definition bloat_tiny :: "memory_tracking_message list" where
  "bloat_tiny = map (\<lambda>i. \<lparr>mt_size = 10, mt_content = dec i\<rparr>) [0..<10]"

definition demonstrate_memory_bloat :: "'b builder_ops \<Rightarrow> ('b, 'offset) string_builder \<Rightarrow> (error, unit) outcome option" where
  "demonstrate_memory_bloat ops sb =
     demo_bind (map_option fst (bindp (unwrapped (writer_write ops (tracking_serialize sb bloat_large)))
       (\<lambda>_. simple_loop ops (map (tracking_serialize sb) bloat_tiny)) (vec_writer ops))) (\<lambda>_.
     map_option fst (temporary_builder ops (tracking_serialize sb bloat_large) (map (tracking_serialize sb) bloat_tiny)
       (vec_writer ops)))"

definition builder_reuse_main :: "'b builder_ops \<Rightarrow> ('b, 'offset) string_builder \<Rightarrow> (error, unit) outcome option" where
  "builder_reuse_main ops sb =
     demo_bind (verify_simple_mode_reuse ops sb) (\<lambda>_.
     demo_bind (verify_expert_mode_reuse ops sb) (\<lambda>_.
     demo_bind (map_option fst (demonstrate_builder_growth ops sb)) (\<lambda>_.
     demonstrate_memory_bloat ops sb)))"

section \<open>Throughput\<close>

record 'f throughput_event =
  tpe_timestamp :: u64
  tpe_sensor_id :: u32
  tpe_value :: 'f

definition throughput_serialize :: "('b, 'offset) string_builder \<Rightarrow> 'f throughput_event \<Rightarrow> 'b serialize" where
  "throughput_serialize sb event builder =
     (let sensor_name = ''sensor_'' @ dec (unat (tpe_sensor_id event));
          (offset, b) = fst sb sensor_name builder
      in Some (Ok (), snd sb offset b))"

definition generate_events :: "'f f64_ops \<Rightarrow> nat \<Rightarrow> 'f throughput_event list" where
  "generate_events F count = map (\<lambda>i.
     \<lparr>tpe_timestamp = word_of_nat (1000000 + i), tpe_sensor_id = word_of_nat (i mod 100),
      tpe_value = f_mul F (f_of_nat F i) (f_lit F (1 / 10))\<rparr>) [0..<count]"

text \<open>What is printed beside the times: the number of messages and of bytes.\<close>

definition measure_write_throughput_simple :: "'f f64_ops \<Rightarrow> 'b builder_ops \<Rightarrow> ('b, 'offset) string_builder \<Rightarrow>
    (error, nat \<times> nat) outcome option" where
  "measure_write_throughput_simple F ops sb =
     (let events = generate_events F 10000
      in demo_bind (run_simple ops (map (throughput_serialize sb) events)) (\<lambda>buffer.
         Some (Ok (length events, length buffer))))"

definition measure_write_throughput_expert :: "'f f64_ops \<Rightarrow> 'b builder_ops \<Rightarrow> ('b, 'offset) string_builder \<Rightarrow>
    (error, nat \<times> nat) outcome option" where
  "measure_write_throughput_expert F ops sb =
     (let events = generate_events F 10000
      in demo_bind (run_expert ops (map (throughput_serialize sb) events)) (\<lambda>buffer.
         Some (Ok (length events, length buffer))))"

text \<open>\<^verbatim>\<open>process_all(..).unwrap()\<close>\<close>

definition unwrap_run :: "('e, 'a) outcome option \<Rightarrow> ('e, 'a) outcome option" where
  "unwrap_run = map_option (\<lambda>out. case out of Ok a \<Rightarrow> Ok a | _ \<Rightarrow> Panic)"

definition measure_read_throughput :: "nat \<Rightarrow> 'f f64_ops \<Rightarrow> 'b builder_ops \<Rightarrow> ('b, 'offset) string_builder \<Rightarrow>
    (error, nat \<times> nat) outcome option" where
  "measure_read_throughput fb_max F ops sb =
     (let events = generate_events F 10000
      in demo_bind (run_simple ops (map (throughput_serialize sb) events)) (\<lambda>buffer.
         demo_bind (unwrap_run (run_reader count_frames (DefaultDeframer cursor_read (default_deframer_new fb_max)) buffer 0))
           (\<lambda>count. assert_then (count = length events) (Some (Ok (length events, length buffer))))))"

definition measure_end_to_end :: "nat \<Rightarrow> 'f f64_ops \<Rightarrow> 'b builder_ops \<Rightarrow> ('b, 'offset) string_builder \<Rightarrow>
    (error, nat \<times> nat) outcome option" where
  "measure_end_to_end fb_max F ops sb =
     (let events = generate_events F 1000
      in demo_bind (run_expert ops (map (throughput_serialize sb) events)) (\<lambda>buffer.
         demo_bind (unwrap_run (run_reader (\<lambda>_ u. Some (Ok (), u))
           (DefaultDeframer cursor_read (default_deframer_new fb_max)) buffer ()))
           (\<lambda>_. Some (Ok (length events, length buffer)))))"

text \<open>
  The loop that captures for a given time. \<open>now\<close> reads the time since the start, in nanoseconds; the state
  is the number of events, the clock, the builder and the writer.
\<close>

definition agent_event :: "'f f64_ops \<Rightarrow> duration \<Rightarrow> nat \<Rightarrow> 'f throughput_event" where
  "agent_event F elapsed event_count =
     \<lparr>tpe_timestamp = word_of_nat (elapsed div 1000), tpe_sensor_id = word_of_nat (event_count mod 100),
      tpe_value = f_mul F (f_of_nat F event_count) (f_lit F (1 / 10))\<rparr>"

partial_function (option) simulate_loop :: "'f f64_ops \<Rightarrow> 'c clock \<Rightarrow> duration \<Rightarrow> 'b builder_ops \<Rightarrow>
    ('b, 'offset) string_builder \<Rightarrow> nat \<times> 'c \<times> 'b \<times> (cursor, unit, 'b, unit, unit) stream_writer \<Rightarrow>
    ((error, unit) outcome \<times> nat \<times> 'c \<times> 'b \<times> (cursor, unit, 'b, unit, unit) stream_writer) option" where
  "simulate_loop F now limit ops sb st =
     (case st of (event_count, c, builder, w) \<Rightarrow>
        (case now c of (t, c1) \<Rightarrow>
           if t < limit
           then (case now c1 of (t1, c2) \<Rightarrow>
             (case expert_step ops (throughput_serialize sb (agent_event F t1 event_count)) (builder, w) of
                None \<Rightarrow> None
              | Some (out, b, w') \<Rightarrow>
                  (case out of
                     Err e \<Rightarrow> Some (Err e, event_count, c2, b, w')
                   | Panic \<Rightarrow> Some (Panic, event_count, c2, b, w')
                   | Ok _ \<Rightarrow>
                       if (event_count + 1) mod 1000 = 0
                       then (case now c2 of (t2, c3) \<Rightarrow>
                               if limit \<le> t2 then Some (Ok (), event_count + 1, c3, b, w')
                               else simulate_loop F now limit ops sb (event_count + 1, c3, b, w'))
                       else simulate_loop F now limit ops sb (event_count + 1, c2, b, w'))))
           else Some (Ok (), event_count, c1, builder, w)))"

text \<open>The events captured in a second, and what was written.\<close>

definition simulate_telemetry_agent :: "'f f64_ops \<Rightarrow> 'c clock \<Rightarrow> 'c \<Rightarrow> 'b builder_ops \<Rightarrow> ('b, 'offset) string_builder \<Rightarrow>
    (error, nat \<times> bytes) outcome option" where
  "simulate_telemetry_agent F now start ops sb =
     map_option (\<lambda>(out, total_events, _, _, w). map_ok (\<lambda>_. (total_events, cursor_data (sw_writer w))) out)
       (simulate_loop F now (10 ^ 9) ops sb (0, start, b_new ops, vec_writer ops))"

definition throughput_main :: "nat \<Rightarrow> 'f f64_ops \<Rightarrow> 'c clock \<Rightarrow> 'c \<Rightarrow> 'b builder_ops \<Rightarrow> ('b, 'offset) string_builder \<Rightarrow>
    (error, nat) outcome option" where
  "throughput_main fb_max F now start ops sb =
     demo_bind (measure_write_throughput_simple F ops sb) (\<lambda>_.
     demo_bind (measure_write_throughput_expert F ops sb) (\<lambda>_.
     demo_bind (measure_read_throughput fb_max F ops sb) (\<lambda>_.
     demo_bind (measure_end_to_end fb_max F ops sb) (\<lambda>_.
     demo_bind (simulate_telemetry_agent F now start ops sb) (\<lambda>(total_events, _).
     Some (Ok total_events))))))"

section \<open>What the modes leave\<close>

lemma unwrapped_eval:
  "m s = Some (Ok a, s') \<Longrightarrow> unwrapped m s = Some (Ok a, s')"
  "m s = Some (Err e, s') \<Longrightarrow> unwrapped m s = Some (Panic, s')"
  "m s = Some (Panic, s') \<Longrightarrow> unwrapped m s = Some (Panic, s')"
  by (simp_all add: unwrapped_def)

context exact_frame_writer
begin

lemma unwrapped_write_exact:
  assumes "writer_ok good s" and "encodes ops good item p" and "sw_framer s = fr" and "open_sink (sw_writer s)"
  shows "\<exists>s'. unwrapped (writer_write ops item) s = Some (if accept p then Ok () else Panic, s') \<and>
    writer_ok good s' \<and> sw_framer s' = fr \<and> open_sink (sw_writer s') \<and>
    written (sw_writer s') = written (sw_writer s) @ (if accept p then encode_frame field p else [])"
  using writer_write_exact [OF assms] assms(4) by (fastforce simp: unwrapped_eval split: if_splits)

text \<open>A loop of \<^verbatim>\<open>unwrap\<close>ed writes ends at the first payload that is rejected, by a panic.\<close>

lemma simple_loop_exact:
  assumes "list_all2 (encodes ops good) items ps"
    and "writer_ok good s" and "sw_framer s = fr" and "open_sink (sw_writer s)"
  shows "\<exists>s'. simple_loop ops items s = Some (if list_all accept ps then Ok () else Panic, s') \<and>
    written (sw_writer s') = written (sw_writer s) @ encode_stream field (takeWhile accept ps)"
  using assms
proof (induction items ps arbitrary: s rule: list_all2_induct)
  case Nil
  then show ?case by (simp add: prog_simps)
next
  case (Cons item items p ps)
  from unwrapped_write_exact [OF Cons.prems(1) Cons.hyps(1) Cons.prems(2,3)] obtain s1 where
    s1: "unwrapped (writer_write ops item) s = Some (if accept p then Ok () else Panic, s1)"
    "writer_ok good s1" "sw_framer s1 = fr" "open_sink (sw_writer s1)"
    "written (sw_writer s1) = written (sw_writer s) @ (if accept p then encode_frame field p else [])" by blast
  with Cons.IH [OF s1(2-4)] show ?case by (cases "accept p") (auto simp: prog_simps)
qed

lemma expert_step_exact:
  assumes "encodes ops good item p" and "good b" and "sw_framer w = fr" and "open_sink (sw_writer w)"
  shows "\<exists>b' w'. expert_step ops item (b, w) = Some (if accept p then Ok () else Panic, b', w') \<and>
    good b' \<and> sw_framer w' = fr \<and> open_sink (sw_writer w') \<and> item (b_reset ops b) = Some (Ok (), b') \<and>
    written (sw_writer w') = written (sw_writer w) @ (if accept p then encode_frame field p else [])"
proof -
  from assms(1,2) obtain b' n where b': "item (b_reset ops b) = Some (Ok (), b')" "good b'"
    "b_finished_data ops b' = Some p" by (auto simp: encodes_def)
  have "exact_frame_writer wr written wpatience open_sink (sw_framer w) field accept"
    using assms(3) exact_frame_writer_axioms by simp
  from write_finished_exact [OF this assms(4) b'(3)] obtain out w' where w': "write_finished ops b' w = Some (out, w')"
    "if accept p then out = Ok () \<and> open_sink (sw_writer w') \<and> written (sw_writer w') = written (sw_writer w) @ encode_frame field p
     else (\<exists>e. out = Err e) \<and> sw_writer w' = sw_writer w" by blast
  with write_finished_keeps(3) [OF w'(1)] b' assms(3,4) show ?thesis
    by (cases "accept p") (auto simp: expert_step_def unwrapped_eval)
qed

lemma expert_loop_exact:
  assumes "list_all2 (encodes ops good) items ps" and "good b" and "sw_framer w = fr" and "open_sink (sw_writer w)"
  shows "\<exists>b' w'. expert_loop ops items (b, w) = Some (if list_all accept ps then Ok () else Panic, b', w') \<and>
    written (sw_writer w') = written (sw_writer w) @ encode_stream field (takeWhile accept ps)"
  using assms
proof (induction items ps arbitrary: b w rule: list_all2_induct)
  case Nil
  then show ?case by (simp add: prog_simps)
next
  case (Cons item items p ps)
  from expert_step_exact [OF Cons.hyps(1) Cons.prems] obtain b1 w1 where
    w1: "expert_step ops item (b, w) = Some (if accept p then Ok () else Panic, b1, w1)"
    "good b1" "sw_framer w1 = fr" "open_sink (sw_writer w1)"
    "written (sw_writer w1) = written (sw_writer w) @ (if accept p then encode_frame field p else [])" by blast
  with Cons.IH [OF w1(2-4)] show ?case by (cases "accept p") (auto simp: prog_simps)
qed

lemma separate_loop_exact:
  assumes "list_all2 (encodes ops good) items ps" and "length ks = length items" and "\<And>k. good (bs k)"
    and "sw_framer w = fr" and "open_sink (sw_writer w)"
  shows "\<exists>bs' w'. separate_loop ops (zip ks items) (bs, w) = Some (if list_all accept ps then Ok () else Panic, bs', w') \<and>
    written (sw_writer w') = written (sw_writer w) @ encode_stream field (takeWhile accept ps)"
  using assms
proof (induction items ps arbitrary: ks bs w rule: list_all2_induct)
  case Nil
  then show ?case by (simp add: prog_simps)
next
  case (Cons item items p ps)
  from Cons.prems(1) obtain k ks' where ks: "ks = k # ks'" "length ks' = length items" by (cases ks) auto
  from expert_step_exact [OF Cons.hyps(1) Cons.prems(2) [of k] Cons.prems(3,4)] obtain b1 w1 where
    w1: "expert_step ops item (bs k, w) = Some (if accept p then Ok () else Panic, b1, w1)"
    "good b1" "sw_framer w1 = fr" "open_sink (sw_writer w1)"
    "written (sw_writer w1) = written (sw_writer w) @ (if accept p then encode_frame field p else [])" by blast
  have "\<And>j. good ((bs(k := b1)) j)" using w1(2) Cons.prems(2) by simp
  from Cons.IH [of ks' "bs(k := b1)" w1, OF ks(2) this w1(3,4)] w1 show ?case
    by (cases "accept p") (auto simp: ks(1) prog_simps simp del: fun_upd_apply)
qed

end

section \<open>What a builder keeps\<close>

text \<open>
  An item of a builder whose buffer only grows: it fits what is finished in it, is kept by \<^verbatim>\<open>reset\<close>, and
  a growth is at most a doubling of what is needed.
\<close>

definition growing_item :: "'b builder_ops \<Rightarrow> ('b \<Rightarrow> nat) \<Rightarrow> 'b serialize \<Rightarrow> bytes \<Rightarrow> bool" where
  "growing_item ops cap item p \<longleftrightarrow> (\<forall>b. \<exists>b'. item (b_reset ops b) = Some (Ok (), b') \<and>
     b_finished_data ops b' = Some p \<and> b_mut_finished_buffer ops b' = Some (cap b') \<and>
     (if length p \<le> cap b then cap b' = cap b else length p \<le> cap b' \<and> cap b' \<le> 2 * length p))"

lemma growing_encodes: "growing_item ops cap item p \<Longrightarrow> encodes ops (\<lambda>_. True) item p"
  unfolding growing_item_def encodes_def by blast

lemma growing_vectors_item: "growing_vectors ops vb cap enc \<Longrightarrow> growing_item ops cap (blob_serialize vb data) (enc data)"
  by (simp add: growing_vectors_def growing_item_def)

text \<open>
  The capacity after some payloads: that before, unless one of them did not fit, and then enough for the
  largest and at most twice one of those that did not fit.
\<close>

definition holds_largest :: "nat \<Rightarrow> bytes list \<Rightarrow> nat \<Rightarrow> bool" where
  "holds_largest before ps after \<longleftrightarrow> before \<le> after \<and> (\<forall>p \<in> set ps. length p \<le> after) \<and>
     (after = before \<or> (\<exists>p \<in> set ps. before < length p \<and> after \<le> 2 * length p))"

lemma holds_largest_Nil: "holds_largest c [] c"
  by (simp add: holds_largest_def)

lemma holds_largest_append: "holds_largest c ps c1 \<Longrightarrow> holds_largest c1 qs c2 \<Longrightarrow> holds_largest c (ps @ qs) c2"
  unfolding holds_largest_def by (auto intro: le_trans)

lemma growing_holds:
  assumes "growing_item ops cap item p" and "item (b_reset ops b) = Some (Ok (), b')"
  shows "holds_largest (cap b) [p] (cap b')"
proof -
  from assms have "if length p \<le> cap b then cap b' = cap b else length p \<le> cap b' \<and> cap b' \<le> 2 * length p"
    unfolding growing_item_def by (metis Pair_inject option.inject)
  then show ?thesis by (auto simp: holds_largest_def split: if_splits)
qed

lemma holds_largest_Cons: "holds_largest c [p] c1 \<Longrightarrow> holds_largest c1 ps c2 \<Longrightarrow> holds_largest c (p # ps) c2"
  using holds_largest_append [of c "[p]"] by simp

lemma writer_write_builder:
  assumes "writer_write ops item s = Some (Ok u, s')" and "sw_policy s = None"
  shows "item (b_reset ops (sw_builder s)) = Some (Ok (), sw_builder s') \<and> sw_policy s' = None"
proof -
  from assms(1) obtain b p where item: "item (b_reset ops (sw_builder s)) = Some (Ok (), b)" and
    run: "bindp (frame_and_write p) (\<lambda>_ s2. if sw_policy s2 \<noteq> None then writer_evaluate_memory_policy ops (length p) s2
      else Some (Ok (), s2)) (s\<lparr>sw_builder := b\<rparr>) = Some (Ok u, s')"
    by (auto simp: writer_write_def Let_def split: option.splits prod.splits outcome.splits)
  from run obtain v s2 where s2: "frame_and_write p (s\<lparr>sw_builder := b\<rparr>) = Some (Ok v, s2)"
    "(if sw_policy s2 \<noteq> None then writer_evaluate_memory_policy ops (length p) s2 else Some (Ok (), s2)) = Some (Ok u, s')"
    by (rule bindp_OkE)
  from frame_and_write_keeps(1,2) [OF s2(1)] assms(2) have "sw_builder s2 = b" "sw_policy s2 = None" by simp_all
  with item s2(2) show ?thesis by simp
qed

section \<open>What a builder has seen\<close>

text \<open>The state of a builder that nothing but these items has been built in, one after the other.\<close>

fun built :: "'b builder_ops \<Rightarrow> 'b serialize list \<Rightarrow> 'b \<Rightarrow> 'b option" where
  "built ops [] b = Some b"
| "built ops (item # items) b =
     (case item (b_reset ops b) of
        Some (Ok _, b') \<Rightarrow> built ops items b'
      | _ \<Rightarrow> None)"

definition items_of :: "'k \<Rightarrow> ('k \<times> 'a) list \<Rightarrow> 'a list" where
  "items_of k kis = map snd (filter (\<lambda>(j, _). j = k) kis)"

lemma items_of_simps [simp]:
  "items_of k [] = []"
  "items_of k ((j, item) # kis) = (if j = k then item # items_of k kis else items_of k kis)"
  by (simp_all add: items_of_def)

context exact_frame_writer
begin

lemma simple_loop_builds:
  assumes "list_all2 (encodes ops good) items ps" and "list_all accept ps" and "writer_ok good s"
    and "sw_framer s = fr" and "open_sink (sw_writer s)" and "sw_policy s = None"
  shows "\<exists>s'. simple_loop ops items s = Some (Ok (), s') \<and>
    written (sw_writer s') = written (sw_writer s) @ encode_stream field ps \<and>
    built ops items (sw_builder s) = Some (sw_builder s')"
  using assms
proof (induction items ps arbitrary: s rule: list_all2_induct)
  case Nil
  then show ?case by (simp add: prog_simps)
next
  case (Cons item items p ps)
  from writer_write_exact [OF Cons.prems(2) Cons.hyps(1) Cons.prems(3,4)] Cons.prems(1) obtain s1 where
    s1: "writer_write ops item s = Some (Ok (), s1)" "writer_ok good s1" "sw_framer s1 = fr" "open_sink (sw_writer s1)"
    "written (sw_writer s1) = written (sw_writer s) @ encode_frame field p" by auto
  from writer_write_builder [OF s1(1) Cons.prems(5)] have
    b: "item (b_reset ops (sw_builder s)) = Some (Ok (), sw_builder s1)" "sw_policy s1 = None" by simp_all
  from Cons.IH [OF _ s1(2-4) b(2)] Cons.prems(1) s1 b(1) show ?case
    by (auto simp: bindp_Ok unwrapped_eval)
qed

lemma expert_loop_builds:
  assumes "list_all2 (encodes ops good) items ps" and "list_all accept ps" and "good b"
    and "sw_framer w = fr" and "open_sink (sw_writer w)"
  shows "\<exists>b' w'. expert_loop ops items (b, w) = Some (Ok (), b', w') \<and>
    written (sw_writer w') = written (sw_writer w) @ encode_stream field ps \<and> built ops items b = Some b'"
  using assms
proof (induction items ps arbitrary: b w rule: list_all2_induct)
  case Nil
  then show ?case by (simp add: prog_simps)
next
  case (Cons item items p ps)
  from expert_step_exact [OF Cons.hyps(1) Cons.prems(2-4)] Cons.prems(1) obtain b1 w1 where
    w1: "expert_step ops item (b, w) = Some (Ok (), b1, w1)" "good b1" "sw_framer w1 = fr" "open_sink (sw_writer w1)"
    "item (b_reset ops b) = Some (Ok (), b1)"
    "written (sw_writer w1) = written (sw_writer w) @ encode_frame field p" by auto
  from Cons.IH [OF _ w1(2-4)] Cons.prems(1) w1 show ?case by (auto simp: bindp_Ok)
qed

text \<open>With a builder for each kind, a builder sees the items of its kind, in order, and no other.\<close>

lemma separate_loop_builds:
  assumes "list_all2 (encodes ops good) items ps" and "list_all accept ps" and "length ks = length items"
    and "\<And>k. good (bs k)" and "sw_framer w = fr" and "open_sink (sw_writer w)"
  shows "\<exists>bs' w'. separate_loop ops (zip ks items) (bs, w) = Some (Ok (), bs', w') \<and>
    written (sw_writer w') = written (sw_writer w) @ encode_stream field ps \<and>
    (\<forall>k. built ops (items_of k (zip ks items)) (bs k) = Some (bs' k))"
  using assms
proof (induction items ps arbitrary: ks bs w rule: list_all2_induct)
  case Nil
  then show ?case by (simp add: prog_simps)
next
  case (Cons item items p ps)
  from Cons.prems(2) obtain k ks' where ks: "ks = k # ks'" "length ks' = length items" by (cases ks) auto
  from expert_step_exact [OF Cons.hyps(1) Cons.prems(3) [of k] Cons.prems(4,5)] Cons.prems(1) obtain b1 w1 where
    w1: "expert_step ops item (bs k, w) = Some (Ok (), b1, w1)" "good b1" "sw_framer w1 = fr" "open_sink (sw_writer w1)"
    "item (b_reset ops (bs k)) = Some (Ok (), b1)"
    "written (sw_writer w1) = written (sw_writer w) @ encode_frame field p" by auto
  have "\<And>j. good ((bs(k := b1)) j)" using w1(2) Cons.prems(3) by simp
  from Cons.IH [of ks' "bs(k := b1)" w1, OF _ ks(2) this w1(3,4)] Cons.prems(1) obtain bs' w' where rest:
    "separate_loop ops (zip ks' items) (bs(k := b1), w1) = Some (Ok (), bs', w')"
    "written (sw_writer w') = written (sw_writer w1) @ encode_stream field ps"
    "\<And>j. built ops (items_of j (zip ks' items)) ((bs(k := b1)) j) = Some (bs' j)"
    by (auto simp del: fun_upd_apply)
  have "built ops (items_of j (zip ks (item # items))) (bs j) = Some (bs' j)" for j
    using rest(3) [of j] w1(5) by (simp add: ks(1) split: if_splits)
  with w1 rest(1,2) show ?case by (auto simp: ks(1) bindp_Ok simp del: fun_upd_apply)
qed

end

section \<open>The programs\<close>

lemma plain_vec_writer:
  "library_framer cursor_write (\<lambda>_. []) (\<lambda>p. length p \<le> u32_max) (sw_framer (vec_writer ops))"
  "writer_ok (\<lambda>_. True) (vec_writer ops)" "sw_policy (vec_writer ops) = None" "sw_builder (vec_writer ops) = b_new ops"
  "cursor_pos (sw_writer (vec_writer ops)) = length (cursor_data (sw_writer (vec_writer ops)))"
  "cursor_data (sw_writer (vec_writer ops)) = []"
  by (simp_all add: vec_writer_def writer_new_def plain_framer writer_ok_def cursor_new_def)

lemmas vec_writer_exact = library_framer_exact [OF plain_vec_writer(1) cursor_sink.reliable_sink_axioms]

lemma run_simple_exact:
  assumes "list_all2 (encodes ops (\<lambda>_. True)) items ps" and "list_all (\<lambda>p. length p \<le> u32_max) ps"
  shows "run_simple ops items = Some (Ok (encode_stream (\<lambda>_. []) ps))"
proof -
  from assms(2) have "takeWhile (\<lambda>p. length p \<le> u32_max) ps = ps" by (simp add: list_all_iff)
  with exact_frame_writer.simple_loop_exact [OF vec_writer_exact [of ops] assms(1) plain_vec_writer(2) refl plain_vec_writer(5)] assms(2)
  show ?thesis by (auto simp: run_simple_def plain_vec_writer(6))
qed

lemma run_expert_exact:
  assumes "list_all2 (encodes ops (\<lambda>_. True)) items ps" and "list_all (\<lambda>p. length p \<le> u32_max) ps"
  shows "run_expert ops items = Some (Ok (encode_stream (\<lambda>_. []) ps))"
proof -
  from assms(2) have "takeWhile (\<lambda>p. length p \<le> u32_max) ps = ps" by (simp add: list_all_iff)
  with exact_frame_writer.expert_loop_exact [OF vec_writer_exact [of ops] assms(1) TrueI refl plain_vec_writer(5), of "b_new ops"] assms(2)
  show ?thesis by (auto simp: run_expert_def plain_vec_writer(6))
qed

text \<open>Every kind of message of these programs is a string or a vector.\<close>

lemma message_encodes:
  assumes "string_roots ops sb enc"
  shows "encodes ops (\<lambda>_. True) (test_message_serialize sb m) (enc (tm_data m))"
    and "encodes ops (\<lambda>_. True) (dummy_serialize sb) (enc ''x'')"
    and "encodes ops (\<lambda>_. True) (small_serialize sb i) (enc (''msg_'' @ dec (unat i)))"
    and "encodes ops (\<lambda>_. True) (tiny_serialize sb i) (enc (dec (unat i)))"
    and "encodes ops (\<lambda>_. True) (tracking_serialize sb t) (enc (mt_content t))"
    and "encodes ops (\<lambda>_. True) (throughput_serialize sb e) (enc (''sensor_'' @ dec (unat (tpe_sensor_id e))))"
  using string_encodes [OF assms]
  by (simp_all add: encodes_def str_serialize_def test_message_serialize_def dummy_serialize_def small_serialize_def
      tiny_serialize_def tracking_serialize_def throughput_serialize_def)

lemma large_encodes: "vector_roots ops vb enc \<Longrightarrow> encodes ops (\<lambda>_. True) (large_serialize vb data) (enc data)"
  using blob_encodes [of ops vb enc data] by (simp add: encodes_def blob_serialize_def large_serialize_def)

lemma map_encodes:
  assumes "\<And>x. encodes ops good (f x) (g x)"
  shows "list_all2 (encodes ops good) (map f xs) (map g xs)"
  using assms by (simp add: list_all2_conv_all_nth)

lemma performance_compared:
  assumes "string_roots ops sb enc" and "list_all (\<lambda>m. length (enc (tm_data m)) \<le> u32_max) test_messages"
  shows "performance_main ops sb =
    (let wire = encode_stream (\<lambda>_. []) (map (enc \<circ> tm_data) test_messages) in Some (Ok (wire, wire)))"
proof -
  have items: "list_all2 (encodes ops (\<lambda>_. True)) (map (test_message_serialize sb) test_messages) (map (enc \<circ> tm_data) test_messages)"
    by (rule map_encodes) (simp add: message_encodes(1) [OF assms(1)])
  have "list_all (\<lambda>p. length p \<le> u32_max) (map (enc \<circ> tm_data) test_messages)"
    using assms(2) by (simp add: list_all_iff)
  from run_simple_exact [OF items this] run_expert_exact [OF items this] show ?thesis
    by (simp add: performance_main_def run_simple_mode_def run_expert_mode_def Let_def)
qed

lemma builder_only_returns:
  assumes "string_roots ops sb enc"
  shows "\<exists>b'. builder_only ops sb n b = Some (Ok (), b')"
proof (induction n arbitrary: b)
  case (Suc n)
  obtain b1 where one: "(let (s, b) = fst sb ''x'' (b_reset ops b); b = snd sb s b
      in case b_finished_data ops b of None \<Rightarrow> Some (Panic, b) | Some _ \<Rightarrow> Some (Ok (), b)) =
      (Some (Ok (), b1) :: ((error, unit) outcome \<times> _) option)"
    using assms by (simp add: string_roots_def string_root_def split_beta Let_def)
  obtain b' where "builder_only ops sb n b1 = Some (Ok (), b')" using Suc by blast
  then show ?case by (simp only: builder_only.simps bindp_def one option.case prod.case outcome.case) blast
qed (simp add: prog_simps)

lemma raw_framing_exact:
  assumes "exact_frame_writer wr written wpatience open_sink fr field accept" and "accept (byte_string ''test'')"
    and "open_sink (tx_sink t)"
  shows "\<exists>t'. raw_framing fr n t = Some (Ok (), t') \<and>
    written (tx_sink t') = written (tx_sink t) @ encode_stream field (replicate n (byte_string ''test''))"
  using assms(3)
proof (induction n arbitrary: t)
  case (Suc n)
  from exact_frame_writer.frame_exact [OF assms(1) Suc.prems, of "byte_string ''test''"] assms(2) obtain t1 where
    "fr (byte_string ''test'') t = Some (Ok (), t1)" "open_sink (tx_sink t1)"
    "written (tx_sink t1) = written (tx_sink t) @ encode_frame field (byte_string ''test'')" by auto
  with Suc.IH [of t1] show ?case by (auto simp: bindp_Ok unwrapped_eval)
qed (simp add: prog_simps)

lemma overhead_measured:
  assumes "string_roots ops sb enc" and "length (enc ''x'') \<le> u32_max"
  shows "overhead_main ops sb =
    (let wire = encode_stream (\<lambda>_. []) (replicate ITERATIONS (enc ''x''))
     in Some (Ok (wire, wire, encode_stream (\<lambda>_. []) (replicate ITERATIONS (byte_string ''test'')))))"
proof -
  have items: "list_all2 (encodes ops (\<lambda>_. True)) (replicate ITERATIONS (dummy_serialize sb)) (replicate ITERATIONS (enc ''x''))"
    using message_encodes(2) [OF assms(1)] by (simp add: list_all2_conv_all_nth)
  have small: "list_all (\<lambda>p. length p \<le> u32_max) (replicate ITERATIONS (enc ''x''))"
    using assms(2) by (simp add: list_all_iff)
  obtain b' where one: "builder_only ops sb ITERATIONS (b_new ops) = Some (Ok (), b')"
    using builder_only_returns [OF assms(1)] by blast
  have "length (byte_string ''test'') \<le> u32_max" by (simp add: byte_string_def u32_max_def)
  from raw_framing_exact [OF library_framer_exact [OF plain_framer cursor_sink.reliable_sink_axioms] this,
      of "\<lparr>tx_sink = cursor_new [], tx_world = ()\<rparr>" ITERATIONS]
  obtain t' :: "(cursor, unit) tx" where
    "raw_framing (DefaultFramer cursor_write) ITERATIONS \<lparr>tx_sink = cursor_new [], tx_world = ()\<rparr> = Some (Ok (), t')"
    "cursor_data (tx_sink t') = encode_stream (\<lambda>_. []) (replicate ITERATIONS (byte_string ''test''))"
    by (auto simp: cursor_new_def)
  with one run_simple_exact [OF items small] run_expert_exact [OF items small] show ?thesis
    by (simp add: overhead_main_def Let_def)
qed

text \<open>The payloads of the alternating messages; the lengths are assumed, not computed.\<close>

lemma large_messages_written:
  assumes "vector_roots ops vb venc" and "string_roots ops sb senc"
    and "length (venc large_message) \<le> u32_max" and "length (senc (''msg_'' @ dec 42)) \<le> u32_max"
  shows "large_message_main ops vb sb = Some (Ok ())"
    and "test_multiple_builders ops vb sb = Some (Ok (encode_stream (\<lambda>_. [])
      (map (\<lambda>i. if i mod 2 = 0 then venc large_message else senc (''msg_'' @ dec 42)) [0..<20])))"
proof -
  let ?p = "\<lambda>i :: nat. if i mod 2 = 0 then venc large_message else senc (''msg_'' @ dec 42)"
  have alt: "list_all2 (encodes ops (\<lambda>_. True)) (map (alternating vb sb) [0..<20]) (map ?p [0..<20])"
    by (rule map_encodes) (use large_encodes [OF assms(1)] message_encodes(3) [OF assms(2), of 42] in \<open>simp add: alternating_def\<close>)
  have small: "list_all (\<lambda>p. length p \<le> u32_max) (map ?p [0..<20])"
    using assms(3,4) by (auto simp: list_all_iff)
  have large: "list_all2 (encodes ops (\<lambda>_. True)) (map (large_serialize vb) (replicate 10 large_message)) (map venc (replicate 10 large_message))"
    by (rule map_encodes) (rule large_encodes [OF assms(1)])
  have large_small: "list_all (\<lambda>p. length p \<le> u32_max) (map venc (replicate 10 large_message))"
    using assms(3) by (simp add: list_all_iff)
  have "zip (map (\<lambda>i. i mod 2 = 0) [0..<20]) (map (alternating vb sb) [0..<20]) = map (\<lambda>i. (i mod 2 = 0, alternating vb sb i)) [0..<20]"
    by (rule nth_equalityI) simp_all
  with exact_frame_writer.separate_loop_exact [where bs = "\<lambda>_. b_new ops", OF vec_writer_exact [of ops] alt _ TrueI refl plain_vec_writer(5),
      of "map (\<lambda>i. i mod 2 = 0) [0..<20]"] small
  have "\<exists>bs' w'. separate_loop ops (map (\<lambda>i. (i mod 2 = 0, alternating vb sb i)) [0..<20]) (\<lambda>_. b_new ops, vec_writer ops) =
      Some (Ok (), bs', w') \<and> cursor_data (sw_writer w') = encode_stream (\<lambda>_. []) (takeWhile (\<lambda>p. length p \<le> u32_max) (map ?p [0..<20]))"
    by (simp add: plain_vec_writer(6) del: upt_rec_numeral takeWhile_eq_all_conv)
  moreover have "takeWhile (\<lambda>p. length p \<le> u32_max) (map ?p [0..<20]) = map ?p [0..<20]"
    using small unfolding list_all_iff by (simp del: upt_rec_numeral)
  ultimately show multi: "test_multiple_builders ops vb sb = Some (Ok (encode_stream (\<lambda>_. []) (map ?p [0..<20])))"
    by (auto simp: test_multiple_builders_def simp del: upt_rec_numeral)
  from run_simple_exact [OF alt small] run_expert_exact [OF alt small] run_simple_exact [OF large large_small]
    run_expert_exact [OF large large_small] multi
  show "large_message_main ops vb sb = Some (Ok ())"
    unfolding large_message_main_def test_large_messages_only_def test_mixed_message_sizes_def Let_def
    by (simp del: upt_rec_numeral)
qed

text \<open>Whichever the builders, and with a temporary one, the frames are the same.\<close>

lemma temporary_builder_exact:
  assumes "encodes ops (\<lambda>_. True) item p" and "list_all2 (encodes ops (\<lambda>_. True)) items ps"
    and "list_all (\<lambda>p. length p \<le> u32_max) (p # ps)"
  shows "\<exists>b' w'. temporary_builder ops item items (vec_writer ops) = Some (Ok (), b', w') \<and>
    cursor_data (sw_writer w') = encode_stream (\<lambda>_. []) (p # ps)"
proof -
  from exact_frame_writer.expert_step_exact [OF vec_writer_exact [of ops] assms(1) TrueI refl plain_vec_writer(5), of "b_new ops"]
    assms(3) obtain b1 w1 where w1: "expert_step ops item (b_new ops, vec_writer ops) = Some (Ok (), b1, w1)"
    "sw_framer w1 = sw_framer (vec_writer ops)" "cursor_pos (sw_writer w1) = length (cursor_data (sw_writer w1))"
    "cursor_data (sw_writer w1) = encode_frame (\<lambda>_. []) p" by (auto simp: plain_vec_writer(6))
  from exact_frame_writer.expert_loop_exact [OF vec_writer_exact [of ops] assms(2) TrueI w1(2,3), of "b_new ops"] assms(3)
  obtain b' w' where "expert_loop ops items (b_new ops, w1) = Some (Ok (), b', w')"
    "cursor_data (sw_writer w') = cursor_data (sw_writer w1) @ encode_stream (\<lambda>_. []) (takeWhile (\<lambda>p. length p \<le> u32_max) ps)"
    by (auto simp: list_all_iff)
  moreover have "takeWhile (\<lambda>p. length p \<le> u32_max) ps = ps" using assms(3) by (simp add: list_all_iff)
  ultimately show ?thesis using w1 by (simp add: temporary_builder_def)
qed

lemma memory_usage_runs:
  assumes "vector_roots ops vb venc" and "string_roots ops sb senc"
    and "length (venc huge_message) \<le> u32_max" and "\<And>i. i < 1000 \<Longrightarrow> length (senc (dec i)) \<le> u32_max"
  shows "memory_usage_main ops vb sb = Some (Ok ())"
proof -
  let ?ps = "map (\<lambda>i. senc (dec (unat (word_of_nat i :: u32)))) [0..<1000]"
  have huge: "encodes ops (\<lambda>_. True) (large_serialize vb huge_message) (venc huge_message)" by (rule large_encodes [OF assms(1)])
  have tiny: "list_all2 (encodes ops (\<lambda>_. True)) (tiny_messages sb) ?ps"
    unfolding tiny_messages_def by (rule map_encodes) (rule message_encodes(4) [OF assms(2)])
  have small: "list_all (\<lambda>p. length p \<le> u32_max) (venc huge_message # ?ps)"
    using assms(3,4) by (auto simp: list_all_iff unat_of_nat simp del: upt_rec_numeral)
  from temporary_builder_exact [OF huge tiny small] obtain b' w' where
    two: "temporary_builder ops (large_serialize vb huge_message) (tiny_messages sb) (vec_writer ops) = Some (Ok (), b', w')"
    by blast
  have items: "list_all2 (encodes ops (\<lambda>_. True)) (large_serialize vb huge_message # tiny_messages sb) (venc huge_message # ?ps)"
    using huge tiny by simp
  from exact_frame_writer.simple_loop_exact [OF vec_writer_exact [of ops] items plain_vec_writer(2) refl plain_vec_writer(5)] small
  obtain w1 where "memory_simple ops vb sb (vec_writer ops) = Some (Ok (), w1)"
    unfolding memory_simple_def by (auto simp del: upt_rec_numeral)
  with two show ?thesis by (simp add: memory_usage_main_def)
qed

lemma simple_reuse_exact:
  assumes "string_roots ops sb enc" and "list_all (\<lambda>i. length (enc (''Message '' @ dec i)) \<le> u32_max) is"
    and "library_framer cursor_write (\<lambda>_. []) (\<lambda>p. length p \<le> u32_max) (sw_framer w)"
    and "cursor_pos (sw_writer w) = length (cursor_data (sw_writer w))"
  shows "\<exists>w'. simple_reuse ops sb is added w =
    Some (Ok (added @ map (\<lambda>i. 4 + length (enc (''Message '' @ dec i))) is), w')"
  using assms(2,3,4)
proof (induction "is" arbitrary: added w)
  case (Cons i "is")
  let ?msg = "\<lparr>mt_size = 100, mt_content = ''Message '' @ dec i\<rparr>" and ?p = "enc (''Message '' @ dec i)"
  have item: "encodes ops (\<lambda>_. True) (tracking_serialize sb ?msg) ?p"
    using message_encodes(5) [OF assms(1), of ?msg] by simp
  have ok: "writer_ok (\<lambda>_. True) w" by (simp add: writer_ok_def)
  from exact_frame_writer.unwrapped_write_exact [OF library_framer_exact [OF Cons.prems(2) cursor_sink.reliable_sink_axioms]
      ok item refl Cons.prems(3)] Cons.prems(1)
  obtain w1 where w1: "unwrapped (writer_write ops (tracking_serialize sb ?msg)) w = Some (Ok (), w1)"
    "sw_framer w1 = sw_framer w" "cursor_pos (sw_writer w1) = length (cursor_data (sw_writer w1))"
    "cursor_data (sw_writer w1) = cursor_data (sw_writer w) @ encode_frame (\<lambda>_. []) ?p" by auto
  have "length (encode_frame (\<lambda>_. []) ?p) = 4 + length ?p" by (simp add: encode_frame_def)
  with Cons.IH [of w1 "added @ [4 + length ?p]"] Cons.prems(1,2) w1 show ?case
    by (simp add: Let_def bindp_Ok append_Cons [of _ "[]"] del: append.simps) (simp del: append_Cons)
qed (simp add: prog_simps)

lemma expert_reuse_exact:
  assumes "string_roots ops sb enc" and "list_all (\<lambda>i. length (enc (''Expert message '' @ dec i)) \<le> u32_max) is"
    and "library_framer cursor_write (\<lambda>_. []) (\<lambda>p. length p \<le> u32_max) (sw_framer w)"
    and "cursor_pos (sw_writer w) = length (cursor_data (sw_writer w))"
  shows "expert_reuse ops sb is capacities (b, w) =
    Some (Ok (capacities @ map (\<lambda>i. length (enc (''Expert message '' @ dec i))) is))"
  using assms(2,3,4)
proof (induction "is" arbitrary: capacities b w)
  case (Cons i "is")
  let ?msg = "\<lparr>mt_size = 100, mt_content = ''Expert message '' @ dec i\<rparr>" and ?p = "enc (''Expert message '' @ dec i)"
  from message_encodes(5) [OF assms(1), of ?msg] obtain b1 where
    b1: "tracking_serialize sb ?msg (b_reset ops b) = Some (Ok (), b1)" "b_finished_data ops b1 = Some ?p"
    unfolding encodes_def by fastforce
  from write_finished_at_end [OF Cons.prems(2) b1(2) _ Cons.prems(3)] Cons.prems(1) obtain w1 where
    w1: "write_finished ops b1 w = Some (Ok (), w1)" "sw_framer w1 = sw_framer w"
    "cursor_pos (sw_writer w1) = length (cursor_data (sw_writer w1))" by auto
  with Cons.IH [of w1 "capacities @ [length ?p]" b1] Cons.prems(1,2) b1 show ?case
    by (simp add: Let_def unwrapped_eval del: append.simps)
qed simp

text \<open>The builder of the demonstration has grown for the large message, and keeps that.\<close>

lemma builder_growth_shown:
  assumes "\<And>msg. growing_item ops cap (tracking_serialize sb msg) (enc (mt_content msg))"
  shows "\<exists>b. demonstrate_builder_growth ops sb =
      Some (Ok (length (enc ''Small''), length (enc (replicate 5000 (CHR ''X'')))), b) \<and>
    holds_largest (cap (b_new ops)) [enc ''Small'', enc (replicate 5000 (CHR ''X'')), enc ''Small''] (cap b)"
proof -
  let ?small = "\<lparr>mt_size = 10, mt_content = ''Small''\<rparr>"
  let ?large = "\<lparr>mt_size = 5000, mt_content = replicate 5000 (CHR ''X'')\<rparr>"
  have step: "\<exists>b'. tracking_serialize sb msg (b_reset ops b) = Some (Ok (), b') \<and>
      b_finished_data ops b' = Some (enc (mt_content msg)) \<and> holds_largest (cap b) [enc (mt_content msg)] (cap b')" for msg b
    using assms [of msg] growing_holds [OF assms [of msg], of b] unfolding growing_item_def by blast
  from step [of ?small "b_new ops"] obtain b1 where b1: "tracking_serialize sb ?small (b_reset ops (b_new ops)) = Some (Ok (), b1)"
    "b_finished_data ops b1 = Some (enc ''Small'')" "holds_largest (cap (b_new ops)) [enc ''Small''] (cap b1)" by auto
  from step [of ?large b1] obtain b2 where b2: "tracking_serialize sb ?large (b_reset ops b1) = Some (Ok (), b2)"
    "b_finished_data ops b2 = Some (enc (replicate 5000 (CHR ''X'')))"
    "holds_largest (cap b1) [enc (replicate 5000 (CHR ''X''))] (cap b2)" by auto
  from step [of ?small b2] obtain b3 where b3: "tracking_serialize sb ?small (b_reset ops b2) = Some (Ok (), b3)"
    "holds_largest (cap b2) [enc ''Small''] (cap b3)" by auto
  have "demonstrate_builder_growth ops sb = Some (Ok (length (enc ''Small''), length (enc (replicate 5000 (CHR ''X'')))), b3)"
    using b1(1,2) b2(1,2) b3(1)
    by (simp add: demonstrate_builder_growth_def serialized_size_def Let_def bindp_def unwrapped_def ret_def)
  with holds_largest_Cons [OF b1(3) holds_largest_Cons [OF b2(3) b3(2)]] show ?thesis by blast
qed

lemma builder_reuse_runs:
  assumes "\<And>msg. growing_item ops cap (tracking_serialize sb msg) (enc (mt_content msg))" and "string_roots ops sb enc"
    and "list_all (\<lambda>s. length (enc s) \<le> u32_max) (mt_content bloat_large # map mt_content bloat_tiny @
      map (\<lambda>i. ''Message '' @ dec i) [0..<5] @ map (\<lambda>i. ''Expert message '' @ dec i) [0..<5])"
  shows "verify_simple_mode_reuse ops sb = Some (Ok (map (\<lambda>i. 4 + length (enc (''Message '' @ dec i))) [0..<5]))"
    and "verify_expert_mode_reuse ops sb = Some (Ok (map (\<lambda>i. length (enc (''Expert message '' @ dec i))) [0..<5]))"
    and "builder_reuse_main ops sb = Some (Ok ())"
proof -
  let ?large = "tracking_serialize sb bloat_large" and ?tiny = "map (tracking_serialize sb) bloat_tiny"
  have lens: "list_all (\<lambda>i. length (enc (''Message '' @ dec i)) \<le> u32_max) [0..<5]"
    "list_all (\<lambda>i. length (enc (''Expert message '' @ dec i)) \<le> u32_max) [0..<5]"
    "list_all (\<lambda>p. length p \<le> u32_max) (enc (mt_content bloat_large) # map (enc \<circ> mt_content) bloat_tiny)"
    using assms(3) by (simp_all add: list_all_iff del: upt_rec_numeral append.simps)
  from simple_reuse_exact [OF assms(2) lens(1) plain_vec_writer(1,5), of "[]"]
  show one: "verify_simple_mode_reuse ops sb = Some (Ok (map (\<lambda>i. 4 + length (enc (''Message '' @ dec i))) [0..<5]))"
    unfolding verify_simple_mode_reuse_def by (auto simp del: upt_rec_numeral)
  from expert_reuse_exact [OF assms(2) lens(2) plain_vec_writer(1,5)]
  show two: "verify_expert_mode_reuse ops sb = Some (Ok (map (\<lambda>i. length (enc (''Expert message '' @ dec i))) [0..<5]))"
    unfolding verify_expert_mode_reuse_def by (simp del: upt_rec_numeral append.simps)
  have items: "encodes ops (\<lambda>_. True) ?large (enc (mt_content bloat_large))"
    "list_all2 (encodes ops (\<lambda>_. True)) ?tiny (map (enc \<circ> mt_content) bloat_tiny)"
    using message_encodes(5) [OF assms(2)] by (simp_all add: list_all2_conv_all_nth)
  then have "list_all2 (encodes ops (\<lambda>_. True)) (?large # ?tiny) (enc (mt_content bloat_large) # map (enc \<circ> mt_content) bloat_tiny)"
    by simp
  from exact_frame_writer.simple_loop_exact [OF vec_writer_exact [of ops] this plain_vec_writer(2) refl plain_vec_writer(5)] lens(3)
  obtain w1 where "bindp (unwrapped (writer_write ops ?large)) (\<lambda>_. simple_loop ops ?tiny) (vec_writer ops) = Some (Ok (), w1)"
    by auto
  with temporary_builder_exact [OF items lens(3)] have "demonstrate_memory_bloat ops sb = Some (Ok ())"
    by (auto simp: demonstrate_memory_bloat_def)
  with one two builder_growth_shown [OF assms(1)] show "builder_reuse_main ops sb = Some (Ok ())"
    by (auto simp: builder_reuse_main_def simp del: upt_rec_numeral append.simps)
qed

section \<open>The throughput runs\<close>

definition sensor_payload :: "(string \<Rightarrow> bytes) \<Rightarrow> nat \<Rightarrow> bytes" where
  "sensor_payload enc i = enc (''sensor_'' @ dec (i mod 100))"

lemma generated_events:
  assumes "string_roots ops sb enc"
  shows "list_all2 (encodes ops (\<lambda>_. True)) (map (throughput_serialize sb) (generate_events F n)) (map (sensor_payload enc) [0..<n])"
    and "encodes ops (\<lambda>_. True) (throughput_serialize sb (agent_event F t i)) (sensor_payload enc i)"
proof -
  have "unat (word_of_nat (i mod 100) :: u32) = i mod 100" for i by (simp add: unat_of_nat)
  note sensor = message_encodes(6) [OF assms] this
  show "list_all2 (encodes ops (\<lambda>_. True)) (map (throughput_serialize sb) (generate_events F n)) (map (sensor_payload enc) [0..<n])"
    unfolding generate_events_def map_map
    by (rule map_encodes) (use sensor(1) in \<open>auto simp: sensor_payload_def sensor(2) simp del: append.simps
        dest: meta_spec [of _ "\<lparr>tpe_timestamp = _, tpe_sensor_id = word_of_nat (_ mod 100), tpe_value = _\<rparr>"]\<close>)
  show "encodes ops (\<lambda>_. True) (throughput_serialize sb (agent_event F t i)) (sensor_payload enc i)"
    using sensor(1) [of "agent_event F t i"] by (simp add: sensor_payload_def agent_event_def sensor(2) del: append.simps)
qed

lemma sensors_fit:
  assumes "\<And>i. i < 100 \<Longrightarrow> length (enc (''sensor_'' @ dec i)) \<le> limit"
  shows "length (sensor_payload enc i) \<le> limit"
  unfolding sensor_payload_def by (rule assms) simp

text \<open>\<open>advancing now elapsed d\<close>: every reading of the clock is at least \<open>d\<close> after the one before it.\<close>

definition advancing :: "'c clock \<Rightarrow> ('c \<Rightarrow> duration) \<Rightarrow> nat \<Rightarrow> bool" where
  "advancing now elapsed d \<longleftrightarrow> 0 < d \<and> (\<forall>c. elapsed c + d \<le> fst (now c) \<and> elapsed (snd (now c)) = fst (now c))"

text \<open>The capture ends, and it cannot have captured more than the readings allow.\<close>

lemma simulate_loop_returns:
  assumes clock: "advancing now elapsed d" and roots: "string_roots ops sb enc"
    and small: "\<And>i. i < 100 \<Longrightarrow> length (enc (''sensor_'' @ dec i)) \<le> u32_max"
    and w: "library_framer cursor_write (\<lambda>_. []) (\<lambda>p. length p \<le> u32_max) (sw_framer w)"
      "cursor_pos (sw_writer w) = length (cursor_data (sw_writer w))"
  shows "\<exists>n c' b' w'. simulate_loop F now limit ops sb (k, c, b, w) = Some (Ok (), k + n, c', b', w') \<and>
    cursor_data (sw_writer w') = cursor_data (sw_writer w) @ encode_stream (\<lambda>_. []) (map (sensor_payload enc) [k..<k + n]) \<and>
    (n = 0 \<or> elapsed c + 2 * d * n < limit + d)"
  using w
proof (induction "limit - elapsed c" arbitrary: k c b w rule: less_induct)
  case less
  obtain t c1 where t: "now c = (t, c1)" by (cases "now c")
  with clock have c1: "elapsed c + d \<le> t" "elapsed c1 = t" "0 < d" by (auto simp: advancing_def dest: spec [of _ c])
  obtain t1 c2 where t1: "now c1 = (t1, c2)" by (cases "now c1")
  with clock c1(2) have c2: "t + d \<le> t1" "elapsed c2 = t1" by (auto simp: advancing_def dest: spec [of _ c1])
  obtain t2 c3 where t2: "now c2 = (t2, c3)" by (cases "now c2")
  with clock c2(2) have c3: "t1 + d \<le> t2" "elapsed c3 = t2" by (auto simp: advancing_def dest: spec [of _ c2])
  show ?case
  proof (cases "t < limit")
    case False
    then have "simulate_loop F now limit ops sb (k, c, b, w) = Some (Ok (), k + 0, c1, b, w)"
      by (subst simulate_loop.simps) (simp add: t)
    then show ?thesis by (intro exI [of _ "0 :: nat"] exI [of _ c1] exI [of _ b] exI [of _ w]) simp
  next
    case True
    from exact_frame_writer.expert_step_exact [OF library_framer_exact [OF less.prems(1) cursor_sink.reliable_sink_axioms]
        generated_events(2) [OF roots] TrueI refl less.prems(2), of F t1 k b] sensors_fit [where enc = enc and limit = u32_max, OF small, of k]
    obtain b1 w1 where w1: "expert_step ops (throughput_serialize sb (agent_event F t1 k)) (b, w) = Some (Ok (), b1, w1)"
      "sw_framer w1 = sw_framer w" "cursor_pos (sw_writer w1) = length (cursor_data (sw_writer w1))"
      "cursor_data (sw_writer w1) = cursor_data (sw_writer w) @ encode_frame (\<lambda>_. []) (sensor_payload enc k)" by auto
    have one: "map (sensor_payload enc) [k..<k + 1] = [sensor_payload enc k]" by simp
    show ?thesis
    proof (cases "(k + 1) mod 1000 = 0 \<and> limit \<le> t2")
      case stop: True
      have "elapsed c + 2 * d * 1 < limit + d" using True c1 by simp
      moreover have "simulate_loop F now limit ops sb (k, c, b, w) = Some (Ok (), k + 1, c3, b1, w1)"
        using stop w1(1) True t t1 t2 by (subst simulate_loop.simps) simp
      ultimately show ?thesis using w1(4) one
        by (intro exI [of _ "1 :: nat"] exI [of _ c3] exI [of _ b1] exI [of _ w1]) simp
    next
      case False
      define c4 where "c4 = (if (k + 1) mod 1000 = 0 then c3 else c2)"
      have c4: "elapsed c + 2 * d \<le> elapsed c4" using c1 c2 c3 by (simp add: c4_def)
      have step: "simulate_loop F now limit ops sb (k, c, b, w) = simulate_loop F now limit ops sb (k + 1, c4, b1, w1)"
        using False w1(1) True t t1 t2 by (subst simulate_loop.simps) (auto simp: c4_def)
      have "limit - elapsed c4 < limit - elapsed c" using c4 c1 True by simp
      moreover have "library_framer cursor_write (\<lambda>_. []) (\<lambda>p. length p \<le> u32_max) (sw_framer w1)" using less.prems(1) w1(2) by simp
      ultimately obtain n c' b' w' where rest: "simulate_loop F now limit ops sb (k + 1, c4, b1, w1) = Some (Ok (), k + 1 + n, c', b', w')"
        "cursor_data (sw_writer w') = cursor_data (sw_writer w1) @ encode_stream (\<lambda>_. []) (map (sensor_payload enc) [k + 1..<k + 1 + n])"
        "n = 0 \<or> elapsed c4 + 2 * d * n < limit + d"
        using less.hyps [of c4 w1 "k + 1" b1] w1(3) by blast
      have "[k..<k + Suc n] = k # [k + 1..<k + 1 + n]" by (simp add: upt_conv_Cons)
      moreover have "elapsed c + 2 * d * Suc n < limit + d"
        using rest(3) c4 c1 True by (cases "n = 0") (simp_all add: algebra_simps)
      ultimately show ?thesis using step rest(1,2) w1(4)
        by (intro exI [of _ "Suc n"] exI [of _ c'] exI [of _ b'] exI [of _ w']) simp
    qed
  qed
qed

lemma throughput_measured:
  assumes "advancing now elapsed d" and "string_roots ops sb enc" and "fb_max \<le> u32_max"
    and fits: "\<And>i. i < 100 \<Longrightarrow> length (enc (''sensor_'' @ dec i)) \<le> fb_max"
  shows "\<exists>n. throughput_main fb_max F now start ops sb = Some (Ok n)"
proof -
  have fit: "length (sensor_payload enc i) \<le> fb_max" for i by (rule sensors_fit [where enc = enc and limit = fb_max, OF fits])
  have small: "list_all (\<lambda>p. length p \<le> u32_max) (map (sensor_payload enc) [0..<n])" for n
    using fit assms(3) by (auto simp: list_all_iff intro: le_trans)
  have dfr: "library_deframer cursor_read (plain_format fb_max) (DefaultDeframer cursor_read (default_deframer_new fb_max))"
    using plain_deframer [where d = "default_deframer_new fb_max"]
    by (simp add: default_deframer_new_def DEFAULT_MAX_FRAME_LEN_def)
  have fmt: "list_all (\<lambda>p. fits (plain_format fb_max) p \<and> True) (map (sensor_payload enc) [0..<n])" for n
    using fit assms(3) by (auto simp: list_all_iff fits_def plain_format_def intro: le_trans)
  have feed_unit: "feed (\<lambda>_ u. Some (Ok (), u)) ps () = Some (Ok (), [], ())" for ps
    by (induction ps) simp_all
  note simple = run_simple_exact [OF generated_events(1) [OF assms(2)] small]
  note expert = run_expert_exact [OF generated_events(1) [OF assms(2)] small]
  have len: "length (generate_events F n) = n" for n by (simp add: generate_events_def)
  have one: "\<exists>m. measure_write_throughput_simple F ops sb = Some (Ok m)"
    and two: "\<exists>m. measure_write_throughput_expert F ops sb = Some (Ok m)"
    by (simp_all only: measure_write_throughput_simple_def measure_write_throughput_expert_def Let_def simple expert demo_bind_simps) blast+
  have three: "\<exists>m. measure_read_throughput fb_max F ops sb = Some (Ok m)"
    using run_reader_frames [where u = 0, OF dfr speaks_plain fmt feed_count, of 10000]
    by (simp only: measure_read_throughput_def Let_def simple demo_bind_simps unwrap_run_def option.map outcome.case
        assert_then_def len length_map length_upt add_0 diff_zero simp_thms if_True) blast
  have four: "\<exists>m. measure_end_to_end fb_max F ops sb = Some (Ok m)"
    using run_reader_frames [where u = "()", OF dfr speaks_plain fmt feed_unit, of 1000]
    by (simp only: measure_end_to_end_def Let_def expert demo_bind_simps unwrap_run_def option.map outcome.case) blast
  have "i < 100 \<Longrightarrow> length (enc (''sensor_'' @ dec i)) \<le> u32_max" for i using fits [of i] assms(3) by simp
  from simulate_loop_returns [OF assms(1,2) this plain_vec_writer(1) [of ops] plain_vec_writer(5), of F "10 ^ 9" 0 start "b_new ops"]
  have "\<exists>m. simulate_telemetry_agent F now start ops sb = Some (Ok m)"
    unfolding simulate_telemetry_agent_def by (auto simp del: power_numeral)
  with one two three four show ?thesis by (auto simp: throughput_main_def)
qed

section \<open>Samples\<close>

text \<open>Strings as payloads of a builder whose buffer grows to what it is given.\<close>

definition sample_strings :: "(nat \<times> bytes option, bytes) string_builder" where
  "sample_strings = (\<lambda>s b. (byte_string s, b), \<lambda>off b. (max (fst b) (length off), Some off))"

lemma sample_string_roots: "string_roots sample_builder sample_strings byte_string"
  by (simp add: string_roots_def string_root_def sample_strings_def sample_builder_def)

lemma sample_growing: "growing_item sample_builder fst (sample_item p) p"
  by (simp add: growing_item_def sample_builder_def sample_item_def)

section \<open>Properties\<close>

text \<open>C37: The writer's modes are equivalent: items written in simple mode under any memory policy, in expert
  mode through one builder, and in expert mode through a builder for each kind of item, leave the same bytes on
  the same kind of sink and end alike, by a panic at the first payload that the framer rejects.\<close>

theorem modes_leave_the_same_stream:
  assumes "library_framer wr field accept (sw_framer s)" and "reliable_sink wr written wpatience open_sink"
    and "list_all2 (encodes ops good) items ps" and "writer_ok good s" and "open_sink (sw_writer s)"
    and "good b" and "\<forall>k. good (bs k)" and "sw_framer t = sw_framer s" and "sw_writer t = sw_writer s"
    and "length ks = length items"
  shows "\<exists>out s' b' t1 bs' t2. simple_loop ops items s = Some (out, s') \<and>
    expert_loop ops items (b, t) = Some (out, b', t1) \<and>
    separate_loop ops (zip ks items) (bs, t) = Some (out, bs', t2) \<and>
    out = (if list_all accept ps then Ok () else Panic) \<and>
    written (sw_writer s') = written (sw_writer s) @ encode_stream field (takeWhile accept ps) \<and>
    written (sw_writer t1) = written (sw_writer s') \<and> written (sw_writer t2) = written (sw_writer s')"
proof -
  note ex = library_framer_exact [OF assms(1,2)]
  have t: "sw_framer t = sw_framer s" "open_sink (sw_writer t)" using assms(5,8,9) by simp_all
  have bs: "good (bs k)" for k using assms(7) by simp
  from exact_frame_writer.simple_loop_exact [OF ex assms(3,4) refl assms(5)]
    exact_frame_writer.expert_loop_exact [OF ex assms(3,6) t]
    exact_frame_writer.separate_loop_exact [OF ex assms(3,10) bs t] assms(9)
  show ?thesis by fastforce
qed

theorem modes_leave_the_same_stream_witness:
  "\<exists>s' b' t1. simple_loop sample_builder [sample_item [1], sample_item [2, 3]] sample_writer = Some (Ok (), s') \<and>
     expert_loop sample_builder [sample_item [1], sample_item [2, 3]] ((9, None), sample_writer) = Some (Ok (), b', t1) \<and>
     sw_writer s' = encode_stream (\<lambda>_. []) [[1], [2, 3]] \<and> sw_writer t1 = sw_writer s'"
proof -
  have lib: "library_framer vec_write (\<lambda>_. []) (\<lambda>p. length p \<le> u32_max) (sw_framer sample_writer)"
    by (simp add: sample_writer_fields plain_framer)
  have items: "list_all2 (encodes sample_builder (\<lambda>_. True)) [sample_item [1], sample_item [2, 3]] [[1], [2, 3]]"
    by (simp add: sample_encodes)
  from modes_leave_the_same_stream [OF lib vec_sink.reliable_sink_axioms items sample_writer_fields(5) TrueI TrueI _ refl refl,
      where b = "(9, None)" and bs = "\<lambda>_. (0, None)" and ks = "[0, 1 :: nat]"]
  show ?thesis by (auto simp: sample_writer_fields u32_max_def)
qed

text \<open>C38: Builders are isolated. As long as every message is accepted, the builder that writes in simple mode
  without a policy, and the one builder of expert mode, end in the state of a builder in which all the
  messages were built, in order; with a builder for each kind of message, the builder of a kind ends in the
  state of one in which the messages of its kind were built, in order, and nothing else, however the kinds
  are interleaved - so that it retains nothing of another kind's messages, whatever a builder retains. All
  three leave the same stream.\<close>

theorem builders_see_only_their_own_messages:
  assumes "library_framer wr field accept (sw_framer s)" and "reliable_sink wr written wpatience open_sink"
    and "list_all2 (encodes ops good) items ps" and "list_all accept ps" and "writer_ok good s"
    and "open_sink (sw_writer s)" and "sw_policy s = None" and "good b" and "\<forall>k. good (bs k)"
    and "length ks = length items"
  shows "\<exists>s' b' t bs' t'.
    simple_loop ops items s = Some (Ok (), s') \<and> built ops items (sw_builder s) = Some (sw_builder s') \<and>
    expert_loop ops items (b, s) = Some (Ok (), b', t) \<and> built ops items b = Some b' \<and>
    separate_loop ops (zip ks items) (bs, s) = Some (Ok (), bs', t') \<and>
    (\<forall>k. built ops (items_of k (zip ks items)) (bs k) = Some (bs' k)) \<and>
    written (sw_writer s') = written (sw_writer s) @ encode_stream field ps \<and>
    written (sw_writer t) = written (sw_writer s') \<and> written (sw_writer t') = written (sw_writer s')"
proof -
  note ex = library_framer_exact [OF assms(1,2)]
  have bs: "good (bs k)" for k using assms(9) by simp
  from exact_frame_writer.simple_loop_builds [OF ex assms(3-5) refl assms(6,7)]
    exact_frame_writer.expert_loop_builds [OF ex assms(3,4,8) refl assms(6)]
    exact_frame_writer.separate_loop_builds [OF ex assms(3,4,10) bs refl assms(6)]
  show ?thesis by fastforce
qed

text \<open>The capacity of a builder whose buffer only grows: the large message of one kind is not seen by the other.\<close>

theorem builders_see_only_their_own_messages_witness:
  "\<exists>s' bs' t. simple_loop sample_builder [sample_item (replicate 100 1), sample_item [2]]
      (writer_new sample_builder [] (DefaultFramer vec_write) () :: (bytes, unit, nat \<times> bytes option, unit, unit) stream_writer) =
      Some (Ok (), s') \<and> fst (sw_builder s') = 100 \<and>
    separate_loop sample_builder [(True, sample_item (replicate 100 1)), (False, sample_item [2])]
      (\<lambda>_. (0, None), writer_new sample_builder [] (DefaultFramer vec_write) () :: (bytes, unit, nat \<times> bytes option, unit, unit) stream_writer) =
      Some (Ok (), bs', t) \<and> fst (bs' False) = 1 \<and> fst (bs' True) = 100 \<and> sw_writer t = sw_writer s'"
proof -
  let ?w = "writer_new sample_builder [] (DefaultFramer vec_write) () :: (bytes, unit, nat \<times> bytes option, unit, unit) stream_writer"
  let ?items = "[sample_item (replicate 100 1), sample_item [2]]"
  have lib: "library_framer vec_write (\<lambda>_. []) (\<lambda>p. length p \<le> u32_max) (sw_framer ?w)"
    by (simp add: writer_new_def plain_framer)
  have items: "list_all2 (encodes sample_builder (\<lambda>_. True)) ?items [replicate 100 1, [2]]"
    by (simp add: sample_encodes)
  have small: "list_all (\<lambda>p :: bytes. length p \<le> u32_max) [replicate 100 1, [2]]" by (simp add: u32_max_def)
  have new: "writer_ok (\<lambda>_. True) ?w" "sw_policy ?w = None" "fst (sw_builder ?w) = 0"
    by (simp_all add: writer_ok_def writer_new_def sample_builder_def)
  have len: "length [True, False] = length ?items" by simp
  from builders_see_only_their_own_messages [OF lib vec_sink.reliable_sink_axioms items small new(1) TrueI new(2) TrueI _ len,
      where b = "(0, None)" and bs = "\<lambda>_. (0, None)"]
  obtain s' bs' t where run: "simple_loop sample_builder ?items ?w = Some (Ok (), s')"
    "built sample_builder ?items (sw_builder ?w) = Some (sw_builder s')"
    "separate_loop sample_builder (zip [True, False] ?items) (\<lambda>_. (0, None), ?w) = Some (Ok (), bs', t)"
    "\<And>k. built sample_builder (items_of k (zip [True, False] ?items)) (0, None) = Some (bs' k)"
    "sw_writer t = sw_writer s'" by blast
  from run(2) new(3) have "fst (sw_builder s') = 100"
    by (auto dest: arg_cong [of _ _ fst] simp: sample_builder_def sample_item_def simp del: replicate.simps)
  moreover from run(4) [of True] run(4) [of False] have "fst (bs' False) = 1" "fst (bs' True) = 100"
    by (auto dest!: arg_cong [of _ _ fst] simp: sample_builder_def sample_item_def simp del: replicate.simps)
  ultimately show ?thesis using run by auto
qed

text \<open>C39: A capture that runs for a given time ends, whatever is captured, on any clock of which every reading
  is some time after the one before it: it has then captured at most one event for every two readings that
  fit in the time, and one more, and the journal holds exactly one frame for every event counted.\<close>

theorem timed_capture_returns:
  assumes "advancing now elapsed d" and "string_roots ops sb enc" and "elapsed start = 0"
    and "\<forall>i < 100. length (enc (''sensor_'' @ dec i)) \<le> u32_max"
  shows "\<exists>n. simulate_telemetry_agent F now start ops sb =
      Some (Ok (n, encode_stream (\<lambda>_. []) (map (sensor_payload enc) [0..<n]))) \<and>
    (n = 0 \<or> 2 * d * n < 10 ^ 9 + d)"
proof -
  have small: "i < 100 \<Longrightarrow> length (enc (''sensor_'' @ dec i)) \<le> u32_max" for i using assms(4) by simp
  from simulate_loop_returns [OF assms(1,2) small plain_vec_writer(1) [of ops] plain_vec_writer(5), of F "10 ^ 9" 0 start "b_new ops"]
  obtain n c' b' w' where run: "simulate_loop F now (10 ^ 9) ops sb (0, start, b_new ops, vec_writer ops) = Some (Ok (), n, c', b', w')"
    "cursor_data (sw_writer w') = encode_stream (\<lambda>_. []) (map (sensor_payload enc) [0..<n])"
    "n = 0 \<or> elapsed start + 2 * d * n < 10 ^ 9 + d"
    by (auto simp: plain_vec_writer(6))
  have "simulate_telemetry_agent F now start ops sb =
      Some (Ok (n, encode_stream (\<lambda>_. []) (map (sensor_payload enc) [0..<n])))"
    using run(2) by (simp only: simulate_telemetry_agent_def run(1)) simp
  with run(3) assms(3) show ?thesis by auto
qed

theorem timed_capture_returns_witness:
  "\<exists>n wire. simulate_telemetry_agent exact_ops (\<lambda>c. (c + 10 ^ 8, c + 10 ^ 8)) 0 sample_builder sample_strings =
    Some (Ok (n, wire)) \<and> n \<le> 5"
proof -
  have clock: "advancing (\<lambda>c. (c + 10 ^ 8, c + 10 ^ 8)) (\<lambda>c. c) (10 ^ 8)" by (simp add: advancing_def)
  have small: "\<forall>i < 100. length (byte_string (''sensor_'' @ dec i)) \<le> u32_max"
  proof (intro allI impI)
    fix i :: nat assume "i < 100"
    then have "length (dec i) \<le> 2" by (subst dec.simps) (simp, subst dec.simps, simp)
    then show "length (byte_string (''sensor_'' @ dec i)) \<le> u32_max" by (simp add: byte_string_def u32_max_def)
  qed
  from timed_capture_returns [OF clock sample_string_roots refl small, of exact_ops] show ?thesis by fastforce
qed

end
