(* ===== verification/FS_Experiments.thy ===== *)
theory FS_Experiments
  imports FS_Modes FS_Wire_Check FS_Clients "HOL-Library.Multiset"
begin

text \<open>
  The programs under \<^verbatim>\<open>experiments/v2_6/\<close> that check claims of the documentation:
  \<^verbatim>\<open>error_handling_verification.rs\<close>, \<^verbatim>\<open>zero_copy_verification.rs\<close>, \<^verbatim>\<open>trait_composability_demo.rs\<close> and
  \<^verbatim>\<open>checksum_performance_comparison.rs\<close>. They were written for version 2.6, where the error variants were
  matched directly, the default deframer was a value and a checksum had its width as a method; modelled is
  the same run on the crate of today (\<^verbatim>\<open>err.kind()\<close>, \<^verbatim>\<open>DefaultDeframer::new()\<close>, the constant \<^verbatim>\<open>SIZE\<close>). What a
  check prints is its verdict; addresses, times and sizes of types are not modelled. The calls of the
  FlatBuffers builder and the hash functions are arguments.
\<close>

section \<open>Error handling\<close>

text \<open>A tick, a cross with the error that came instead, and a cross because no error came.\<close>

datatype 'a verdict = Confirmed 'a | WrongError error_kind | NoError

definition judged :: "(error_kind \<Rightarrow> 'a option) \<Rightarrow> (error, 'b) outcome option \<Rightarrow> (error, 'a verdict) outcome option" where
  "judged expected = map_option (\<lambda>out. case out of
     Ok _ \<Rightarrow> Ok NoError
   | Err e \<Rightarrow> Ok (case expected (into_kind e) of Some a \<Rightarrow> Confirmed a | None \<Rightarrow> WrongError (into_kind e))
   | Panic \<Rightarrow> Panic)"

definition text_serialize :: "('b, 'offset) string_builder \<Rightarrow> string \<Rightarrow> 'b serialize" where
  "text_serialize sb text builder = (let (offset, b) = fst sb text builder in Some (Ok (), snd sb offset b))"

text \<open>The writer that is to fail after a number of bytes.\<close>

record breaking_writer =
  bw_written :: nat
  bw_fail_after :: nat

definition breaking_write :: "breaking_writer write_op" where
  "breaking_write w buf =
     (if bw_fail_after w \<le> bw_written w then (Err broken_pipe, w)
      else (Ok (length buf), w\<lparr>bw_written := bw_written w + length buf\<rparr>))"

definition io_part :: "error_kind \<Rightarrow> io_error option" where
  "io_part k = (case k of Io e \<Rightarrow> Some e | _ \<Rightarrow> None)"

definition test_io_error :: "'b builder_ops \<Rightarrow> ('b, 'offset) string_builder \<Rightarrow> (error, io_error verdict) outcome option" where
  "test_io_error ops sb =
     judged io_part (map_option fst (writer_write ops (text_serialize sb ''This message will fail to write completely'')
       (writer_new ops \<lparr>bw_written = 0, bw_fail_after = 10\<rparr> (DefaultFramer breaking_write) ()
         :: (breaking_writer, unit, 'b, unit, unit) stream_writer)))"

text \<open>The bytes printed are those at 4 to 7, and the one at 5 is changed.\<close>

definition flip_checksum :: "bytes \<Rightarrow> bytes option" where
  "flip_checksum buffer = (if length buffer \<le> 7 then None else Some (buffer[5 := buffer ! 5 XOR 0xFF]))"

definition mismatch_part :: "error_kind \<Rightarrow> (u64 \<times> u64) option" where
  "mismatch_part k = (case k of ChecksumMismatch expected calculated \<Rightarrow> Some (expected, calculated) | _ \<Rightarrow> None)"

definition deframer_for :: "nat \<Rightarrow> checksum \<Rightarrow> (checksum_deframer \<Rightarrow> ('e, 'a) outcome option) \<Rightarrow> ('e, 'a) outcome option" where
  "deframer_for fb_max alg f = (case checksum_deframer_new fb_max alg of None \<Rightarrow> Some Panic | Some d \<Rightarrow> f d)"

definition test_checksum_mismatch :: "nat \<Rightarrow> 'b builder_ops \<Rightarrow> ('b, 'offset) string_builder \<Rightarrow> (bytes \<Rightarrow> u64) \<Rightarrow>
    (error, (u64 \<times> u64) verdict) outcome option" where
  "test_checksum_mismatch fb_max ops sb xxh3_64 =
     with_framer (XxHash64 xxh3_64) (\<lambda>alg.
     demo_bind (written_wire ops sb (ChecksumFramer alg cursor_write) ''Valid message'') (\<lambda>buffer.
     case flip_checksum buffer of
       None \<Rightarrow> Some Panic
     | Some buffer \<Rightarrow>
         deframer_for fb_max (XxHash64 xxh3_64) (\<lambda>d.
         judged mismatch_part (map_option fst (read_message (test_reader buffer (ChecksumDeframer cursor_read d)))))))"

definition plain_reader :: "nat \<Rightarrow> bytes \<Rightarrow> (cursor, unit, unit) stream_reader" where
  "plain_reader fb_max wire = test_reader wire (DefaultDeframer cursor_read (default_deframer_new fb_max))"

text \<open>Two kinds of error are taken for a detected invalid frame.\<close>

definition test_invalid_frame :: "nat \<Rightarrow> (error, unit verdict) outcome option" where
  "test_invalid_frame fb_max =
     (let buffer = le_bytes 4 (100000000 :: u32) @ byte_string ''some data''
      in judged (\<lambda>k. case k of InvalidFrame _ _ _ _ \<Rightarrow> Some () | UnexpectedEof \<Rightarrow> Some () | _ \<Rightarrow> None)
           (map_option fst (read_message (plain_reader fb_max buffer))))"

definition test_unexpected_eof :: "nat \<Rightarrow> (error, unit verdict) outcome option" where
  "test_unexpected_eof fb_max =
     (let buffer = le_bytes 4 (100 :: u32)
      in judged (\<lambda>k. case k of UnexpectedEof \<Rightarrow> Some () | _ \<Rightarrow> None)
           (map_option fst (read_message (plain_reader fb_max buffer))))"

text \<open>The manual loop; an error is printed and ends it.\<close>

partial_function (option) count_until_eof :: "('r, 'o, 'p) stream_reader \<times> nat \<Rightarrow> (error, nat verdict) outcome option" where
  "count_until_eof st =
     (case read_message (fst st) of
        None \<Rightarrow> None
      | Some (out, s') \<Rightarrow>
          (case out of
             Ok got \<Rightarrow> (case got of None \<Rightarrow> Some (Ok (Confirmed (snd st))) | Some _ \<Rightarrow> count_until_eof (s', snd st + 1))
           | Err e \<Rightarrow> Some (Ok (WrongError (into_kind e)))
           | Panic \<Rightarrow> Some Panic))"

definition test_clean_eof :: "nat \<Rightarrow> 'b builder_ops \<Rightarrow> ('b, 'offset) string_builder \<Rightarrow>
    (error, nat verdict \<times> nat verdict) outcome option" where
  "test_clean_eof fb_max ops sb =
     demo_bind (run_simple ops (map (text_serialize sb) [''Message 1'', ''Message 2''])) (\<lambda>buffer.
     demo_bind (count_until_eof (plain_reader fb_max buffer, 0)) (\<lambda>manual.
     map_option (\<lambda>(out, _, count2). case out of
         Ok _ \<Rightarrow> Ok (manual, Confirmed count2) | Err e \<Rightarrow> Ok (manual, WrongError (into_kind e)) | Panic \<Rightarrow> Panic)
       (process_all count_frames (plain_reader fb_max buffer, 0))))"

definition error_handling_main :: "nat \<Rightarrow> 'b builder_ops \<Rightarrow> ('b, 'offset) string_builder \<Rightarrow> (bytes \<Rightarrow> u64) \<Rightarrow>
    (error, unit) outcome option" where
  "error_handling_main fb_max ops sb xxh3_64 =
     demo_bind (test_io_error ops sb) (\<lambda>_.
     demo_bind (test_checksum_mismatch fb_max ops sb xxh3_64) (\<lambda>_.
     demo_bind (test_invalid_frame fb_max) (\<lambda>_.
     demo_bind (test_unexpected_eof fb_max) (\<lambda>_.
     demo_bind (test_clean_eof fb_max ops sb) (\<lambda>_. Some (Ok ()))))))"

section \<open>Zero copies\<close>

definition zero_copy_data :: string where
  "zero_copy_data = ''ABCDEFGHIJKLMNOPQRSTUVWXYZ0123456789''"

text \<open>Where the text is found in what was written.\<close>

definition pattern_in :: "bytes \<Rightarrow> (error, nat option) outcome option" where
  "pattern_in buffer = Some (find_pattern buffer (byte_string ''ABCDEFGHIJKLMNOPQRSTUVWXYZ0123456789''))"

definition verify_simple_mode_zero_copy :: "'b builder_ops \<Rightarrow> ('b, 'offset) string_builder \<Rightarrow> string \<Rightarrow>
    (error, nat option) outcome option" where
  "verify_simple_mode_zero_copy ops sb msg = demo_bind (run_simple ops [text_serialize sb msg]) pattern_in"

text \<open>The payload's address is asked for before it is written, which panics where the builder is not finished.\<close>

definition verify_expert_mode_zero_copy :: "'b builder_ops \<Rightarrow> ('b, 'offset) string_builder \<Rightarrow> string \<Rightarrow>
    (error, nat option) outcome option" where
  "verify_expert_mode_zero_copy ops sb msg =
     (case unwrapped (text_serialize sb msg) (b_reset ops (b_new ops)) of
        None \<Rightarrow> None
      | Some (Ok _, b) \<Rightarrow>
          (case b_finished_data ops b of
             None \<Rightarrow> Some Panic
           | Some finished_data \<Rightarrow>
               demo_bind (run_writer (unwrapped (write_finished ops b)) (vec_writer ops)) (\<lambda>(_, buffer). pattern_in buffer))
      | Some _ \<Rightarrow> Some Panic)"

text \<open>The closure of the reading part records where it finds the pattern in each payload.\<close>

definition note_pattern :: "bytes \<Rightarrow> (nat option list, error, unit) prog" where
  "note_pattern payload found =
     (case find_pattern payload (byte_string ''UNIQUEPATTERN'') of
        Ok pos \<Rightarrow> Some (Ok (), found @ [pos])
      | Err e \<Rightarrow> Some (Err e, found)
      | Panic \<Rightarrow> Some (Panic, found))"

definition zero_copy_messages :: "string list" where
  "zero_copy_messages = map (\<lambda>i. ''Message_'' @ dec i @ ''_UNIQUEPATTERN'') [0..<3]"

definition verify_reading_zero_copy :: "nat \<Rightarrow> 'b builder_ops \<Rightarrow> ('b, 'offset) string_builder \<Rightarrow>
    (error, nat option list) outcome option" where
  "verify_reading_zero_copy fb_max ops sb =
     demo_bind (run_simple ops (map (text_serialize sb) zero_copy_messages)) (\<lambda>buffer.
     unwrap_run (run_reader note_pattern (DefaultDeframer cursor_read (default_deframer_new fb_max)) buffer []))"

definition zero_copy_main :: "nat \<Rightarrow> 'b builder_ops \<Rightarrow> ('b, 'offset) string_builder \<Rightarrow> (error, unit) outcome option" where
  "zero_copy_main fb_max ops sb =
     demo_bind (verify_simple_mode_zero_copy ops sb zero_copy_data) (\<lambda>_.
     demo_bind (verify_expert_mode_zero_copy ops sb zero_copy_data) (\<lambda>_.
     demo_bind (verify_reading_zero_copy fb_max ops sb) (\<lambda>_. Some (Ok ()))))"

section \<open>Composability\<close>

record 'f sensor_reading =
  sr_sensor_id :: u32
  sr_value :: 'f

record log_message =
  lm_level :: string
  lm_message :: string

text \<open>\<open>show_f64\<close> is the display form of an \<^verbatim>\<open>f64\<close>.\<close>

definition sensor_serialize :: "('f \<Rightarrow> string) \<Rightarrow> ('b, 'offset) string_builder \<Rightarrow> 'f sensor_reading \<Rightarrow> 'b serialize" where
  "sensor_serialize show_f64 sb s builder =
     (let msg = ''sensor:'' @ dec (unat (sr_sensor_id s)) @ '',value:'' @ show_f64 (sr_value s);
          (offset, b) = fst sb msg builder
      in Some (Ok (), snd sb offset b))"

definition log_serialize :: "('b, 'offset) string_builder \<Rightarrow> log_message \<Rightarrow> 'b serialize" where
  "log_serialize sb s builder =
     (let msg = ''['' @ lm_level s @ ''] '' @ lm_message s;
          (offset, b) = fst sb msg builder
      in Some (Ok (), snd sb offset b))"

definition binary_serialize :: "('b, 'offset) vector_builder \<Rightarrow> bytes \<Rightarrow> 'b serialize" where
  "binary_serialize vb data builder = (let (offset, b) = fst vb data builder in Some (Ok (), snd vb offset b))"

definition CustomHeaderFramer :: "string \<Rightarrow> 'w write_op \<Rightarrow> ('w, 'o) framer" where
  "CustomHeaderFramer header wr payload =
     bindp (write_all_tx wr (byte_string header)) (\<lambda>_.
     let len = u32_of_usize (length payload)
     in bindp (write_all_tx wr (le_bytes 4 len)) (\<lambda>_.
        write_all_tx wr payload))"

text \<open>A checksum with methods of its own; the sum of the bytes does not leave \<^verbatim>\<open>u64\<close> for any payload in memory.\<close>

definition simple_sum_calculate :: "bytes \<Rightarrow> u64" where
  "simple_sum_calculate payload = sum_list (map ucast payload) AND 0xFFFFFFFF"

definition simple_sum_verify :: "u64 \<Rightarrow> bytes \<Rightarrow> (error, unit) outcome" where
  "simple_sum_verify expected payload =
     (let calculated = simple_sum_calculate payload
      in if calculated = expected then Ok () else Err (checksum_mismatch expected calculated))"

definition SimpleSum :: checksum where
  "SimpleSum = (checksum_default 4 simple_sum_calculate)\<lparr>cs_verify := simple_sum_verify\<rparr>"

text \<open>Three types of messages through one writer; the result is the number of bytes.\<close>

definition demonstrate_message_types :: "'f f64_ops \<Rightarrow> ('f \<Rightarrow> string) \<Rightarrow> 'b builder_ops \<Rightarrow> ('b, 'offset) string_builder \<Rightarrow>
    ('b, 'offset2) vector_builder \<Rightarrow> (error, nat) outcome option" where
  "demonstrate_message_types F show_f64 ops sb vb =
     (let sensor = \<lparr>sr_sensor_id = 42, sr_value = f_lit F (235 / 10)\<rparr>;
          log = \<lparr>lm_level = ''INFO'', lm_message = ''System started''\<rparr>;
          binary = [0xDE, 0xAD, 0xBE, 0xEF]
      in demo_bind (run_simple ops [sensor_serialize show_f64 sb sensor, log_serialize sb log, binary_serialize vb binary])
           (\<lambda>buffer. Some (Ok (length buffer))))"

text \<open>The first eight bytes under two framers, and a write under a third.\<close>

definition demonstrate_framer_strategies :: "'b builder_ops \<Rightarrow> ('b, 'offset) string_builder \<Rightarrow> (bytes \<Rightarrow> u64) \<Rightarrow>
    (error, bytes \<times> bytes) outcome option" where
  "demonstrate_framer_strategies ops sb xxh3_64 =
     demo_bind (written_wire ops sb (DefaultFramer cursor_write) ''Default framing'') (\<lambda>buffer1.
     demo_bind (written_wire ops sb (CustomHeaderFramer ''HDR:'' cursor_write) ''Custom framing'') (\<lambda>buffer2.
     demo_bind (Some (slice_of buffer1 0 8)) (\<lambda>head1.
     demo_bind (Some (slice_of buffer2 0 8)) (\<lambda>head2.
     demo_bind (with_framer (XxHash64 xxh3_64) (\<lambda>alg.
       written_wire ops sb (ChecksumFramer alg cursor_write) ''Checksummed data'')) (\<lambda>_.
     Some (Ok (head1, head2)))))))"

text \<open>The payload's size, if the checksum is accepted.\<close>

definition demonstrate_custom_checksum :: "nat \<Rightarrow> 'b builder_ops \<Rightarrow> ('b, 'offset) string_builder \<Rightarrow>
    (error, nat verdict) outcome option" where
  "demonstrate_custom_checksum fb_max ops sb =
     demo_bind (with_framer SimpleSum (\<lambda>alg.
       written_wire ops sb (ChecksumFramer alg cursor_write) ''Test data for simple sum'')) (\<lambda>buffer.
     deframer_for fb_max SimpleSum (\<lambda>d.
     map_option (\<lambda>(out, _). case out of
         Ok (Some payload) \<Rightarrow> Ok (Confirmed (length payload))
       | Ok None \<Rightarrow> Ok NoError
       | Err e \<Rightarrow> Ok (WrongError (into_kind e))
       | Panic \<Rightarrow> Panic)
       (read_message (test_reader buffer (ChecksumDeframer cursor_read d)))))"

definition composability_main :: "nat \<Rightarrow> 'f f64_ops \<Rightarrow> ('f \<Rightarrow> string) \<Rightarrow> 'b builder_ops \<Rightarrow> ('b, 'offset) string_builder \<Rightarrow>
    ('b, 'offset2) vector_builder \<Rightarrow> (bytes \<Rightarrow> u64) \<Rightarrow> (error, unit) outcome option" where
  "composability_main fb_max F show_f64 ops sb vb xxh3_64 =
     demo_bind (demonstrate_message_types F show_f64 ops sb vb) (\<lambda>_.
     demo_bind (demonstrate_framer_strategies ops sb xxh3_64) (\<lambda>_.
     demo_bind (demonstrate_custom_checksum fb_max ops sb) (\<lambda>_. Some (Ok ()))))"

section \<open>Checksums compared\<close>

text \<open>A run of writes of one message and a run over what was written; the result is its length.\<close>

definition measure_checksum_performance :: "'b builder_ops \<Rightarrow> ('b, 'offset) string_builder \<Rightarrow> string \<Rightarrow> nat \<Rightarrow>
    (cursor, unit) framer \<Rightarrow> (cursor, unit) deframer \<Rightarrow> (error, nat) outcome option" where
  "measure_checksum_performance ops sb msg iterations framer deframer =
     demo_bind (run_writer (simple_loop ops (replicate iterations (str_serialize (fst sb) (snd sb) msg)))
       (writer_new ops (cursor_new []) framer ())) (\<lambda>(_, buffer).
     demo_bind (unwrap_run (run_reader (\<lambda>_ u. Some (Ok (), u)) deframer buffer ())) (\<lambda>_.
     Some (Ok (length buffer))))"

definition measure_with :: "nat \<Rightarrow> 'b builder_ops \<Rightarrow> ('b, 'offset) string_builder \<Rightarrow> string \<Rightarrow> nat \<Rightarrow> checksum \<Rightarrow>
    (error, nat) outcome option" where
  "measure_with fb_max ops sb msg iterations alg =
     with_framer alg (\<lambda>framer_alg. deframer_for fb_max alg (\<lambda>d.
       measure_checksum_performance ops sb msg iterations
         (ChecksumFramer framer_alg cursor_write) (ChecksumDeframer cursor_read d)))"

text \<open>Without a checksum, and with each of the three.\<close>

definition compare_checksums :: "nat \<Rightarrow> 'b builder_ops \<Rightarrow> ('b, 'offset) string_builder \<Rightarrow> (bytes \<Rightarrow> u64) \<Rightarrow> (bytes \<Rightarrow> u32) \<Rightarrow>
    (bytes \<Rightarrow> 16 word) \<Rightarrow> string \<Rightarrow> nat \<Rightarrow> (error, nat list) outcome option" where
  "compare_checksums fb_max ops sb xxh3_64 crc32fast_hash crc16_xmodem msg iterations =
     demo_bind (measure_checksum_performance ops sb msg iterations (DefaultFramer cursor_write)
       (DefaultDeframer cursor_read (default_deframer_new fb_max))) (\<lambda>no_checksum.
     demo_bind (measure_with fb_max ops sb msg iterations (Crc16 crc16_xmodem)) (\<lambda>crc16.
     demo_bind (measure_with fb_max ops sb msg iterations (Crc32 crc32fast_hash)) (\<lambda>crc32.
     demo_bind (measure_with fb_max ops sb msg iterations (XxHash64 xxh3_64)) (\<lambda>xxhash.
     Some (Ok [no_checksum, crc16, crc32, xxhash])))))"

definition small_text :: string where
  "small_text = ''Small telemetry data''"

definition medium_text :: string where
  "medium_text = ''Medium sized message with more content that represents typical application data''"

definition large_text :: string where
  "large_text = concat (replicate 1000 ''Large message content'')"

definition checksum_comparison_main :: "nat \<Rightarrow> 'b builder_ops \<Rightarrow> ('b, 'offset) string_builder \<Rightarrow> (bytes \<Rightarrow> u64) \<Rightarrow>
    (bytes \<Rightarrow> u32) \<Rightarrow> (bytes \<Rightarrow> 16 word) \<Rightarrow> (error, nat list list) outcome option" where
  "checksum_comparison_main fb_max ops sb xxh3_64 crc32fast_hash crc16_xmodem =
     demo_bind (compare_checksums fb_max ops sb xxh3_64 crc32fast_hash crc16_xmodem small_text 1000) (\<lambda>small.
     demo_bind (compare_checksums fb_max ops sb xxh3_64 crc32fast_hash crc16_xmodem medium_text 1000) (\<lambda>medium.
     demo_bind (compare_checksums fb_max ops sb xxh3_64 crc32fast_hash crc16_xmodem large_text 100) (\<lambda>large.
     Some (Ok [small, medium, large]))))"

section \<open>The verdicts on errors\<close>

lemma text_encodes: "string_roots ops sb enc \<Longrightarrow> encodes ops (\<lambda>_. True) (text_serialize sb s) (enc s)"
  using string_encodes [of ops sb enc s] by (simp add: encodes_def text_serialize_def str_serialize_def)

lemma breaking_write_all:
  "bw_written w < bw_fail_after w \<Longrightarrow> write_all breaking_write buf w = Some (Ok (), w\<lparr>bw_written := bw_written w + length buf\<rparr>)"
  by (cases "buf = []") (simp_all add: write_all.simps [of _ buf] breaking_write_def)

lemma breaking_write_broken:
  "bw_fail_after w \<le> bw_written w \<Longrightarrow> buf \<noteq> [] \<Longrightarrow> write_all breaking_write buf w = Some (Err broken_pipe, w)"
  by (simp add: write_all.simps breaking_write_def broken_pipe_def)

text \<open>A frame is two writes, and only the first of them can meet the limit of a writer that is past its header.\<close>

lemma breaking_frame:
  assumes "length p \<le> u32_max"
  shows "bw_written w + 4 < bw_fail_after w \<Longrightarrow> DefaultFramer breaking_write p \<lparr>tx_sink = w, tx_world = x\<rparr> =
      Some (Ok (), \<lparr>tx_sink = w\<lparr>bw_written := bw_written w + 4 + length p\<rparr>, tx_world = x\<rparr>)"
    and "bw_fail_after w \<le> bw_written w \<Longrightarrow> DefaultFramer breaking_write p \<lparr>tx_sink = w, tx_world = x\<rparr> =
      Some (Err (error_of_io broken_pipe), \<lparr>tx_sink = w, tx_world = x\<rparr>)"
proof -
  have four: "length (le_bytes 4 v) = 4" "le_bytes 4 v \<noteq> []" for v :: u32
    using length_le_bytes [of 4 v] by (simp, metis list.size(3) zero_neq_numeral)
  show "DefaultFramer breaking_write p \<lparr>tx_sink = w, tx_world = x\<rparr> =
      Some (Ok (), \<lparr>tx_sink = w\<lparr>bw_written := bw_written w + 4 + length p\<rparr>, tx_world = x\<rparr>)" if "bw_written w + 4 < bw_fail_after w"
    using assms that four(1) by (simp add: DefaultFramer_def write_all_tx_def bindp_def breaking_write_all Let_def)
  show "DefaultFramer breaking_write p \<lparr>tx_sink = w, tx_world = x\<rparr> =
      Some (Err (error_of_io broken_pipe), \<lparr>tx_sink = w, tx_world = x\<rparr>)" if "bw_fail_after w \<le> bw_written w"
    using assms that four(2) by (simp add: DefaultFramer_def write_all_tx_def bindp_def breaking_write_broken Let_def)
qed

lemma breaking_write_message:
  assumes "encodes ops good item p" and "writer_ok good s" and "sw_framer s = DefaultFramer breaking_write" and "length p \<le> u32_max"
  shows "bw_written (sw_writer s) + 4 < bw_fail_after (sw_writer s) \<Longrightarrow> \<exists>s'. writer_write ops item s = Some (Ok (), s') \<and>
      writer_ok good s' \<and> sw_framer s' = DefaultFramer breaking_write \<and>
      sw_writer s' = (sw_writer s)\<lparr>bw_written := bw_written (sw_writer s) + 4 + length p\<rparr>"
    and "bw_fail_after (sw_writer s) \<le> bw_written (sw_writer s) \<Longrightarrow>
      \<exists>s'. writer_write ops item s = Some (Err (error_of_io broken_pipe), s') \<and> sw_writer s' = sw_writer s"
proof -
  show "\<exists>s'. writer_write ops item s = Some (Ok (), s') \<and>
      writer_ok good s' \<and> sw_framer s' = DefaultFramer breaking_write \<and>
      sw_writer s' = (sw_writer s)\<lparr>bw_written := bw_written (sw_writer s) + 4 + length p\<rparr>"
    if "bw_written (sw_writer s) + 4 < bw_fail_after (sw_writer s)"
    using writer_write_after [OF assms(2,1), unfolded assms(3), OF breaking_frame(1) [OF assms(4) that]] by auto
  show "\<exists>s'. writer_write ops item s = Some (Err (error_of_io broken_pipe), s') \<and> sw_writer s' = sw_writer s"
    if "bw_fail_after (sw_writer s) \<le> bw_written (sw_writer s)"
    using writer_write_after [OF assms(2,1), unfolded assms(3), OF breaking_frame(2) [OF assms(4) that]] by auto
qed

lemma io_error_test_sees_no_error:
  assumes "string_roots ops sb enc" and "length (enc ''This message will fail to write completely'') \<le> u32_max"
  shows "test_io_error ops sb = Some (Ok NoError)"
proof -
  let ?s = "writer_new ops \<lparr>bw_written = 0, bw_fail_after = 10\<rparr> (DefaultFramer breaking_write) ()
    :: (breaking_writer, unit, 'a, unit, unit) stream_writer"
  have "writer_ok (\<lambda>_. True) ?s" "sw_framer ?s = DefaultFramer breaking_write"
    "bw_written (sw_writer ?s) + 4 < bw_fail_after (sw_writer ?s)" by (simp_all add: writer_ok_def writer_new_def)
  from breaking_write_message(1) [OF text_encodes [OF assms(1)] this(1,2) assms(2) this(3)] show ?thesis
    by (auto simp: test_io_error_def judged_def)
qed

text \<open>One call on a reader of the library.\<close>

lemma read_once:
  assumes "library_deframer cursor_read fmt dfr"
  shows "next_frame fmt wire = Bad e \<Longrightarrow> map_option fst (read_message (test_reader wire dfr)) = Some (Err e)"
    and "next_frame fmt wire = Frame p rest \<Longrightarrow> map_option fst (read_message (test_reader wire dfr)) = Some (Ok (Some p))"
  using fault_reader.read_message_or_fault [OF library_deframer_or_fault [OF assms cursor_source.byte_source_axioms]
      test_reader_simps(1) TrueI, of wire] by (auto simp: cursor_source.not_faulted)

lemma nth_le_bytes: "k < n \<Longrightarrow> le_bytes n w ! k = ucast (drop_bit (8 * k) w)"
proof (induction n arbitrary: k w)
  case (Suc n)
  then show ?case by (cases k) (simp_all add: drop_bit_drop_bit add.commute)
qed simp

text \<open>A byte changed in an encoding is the byte changed in the value.\<close>

lemma le_bytes_xor:
  assumes "k < n" and "8 * n \<le> LENGTH('a)"
  shows "(le_bytes n (w :: 'a::len word))[k := le_bytes n w ! k XOR b] = le_bytes n (w XOR push_bit (8 * k) (ucast b))"
proof (rule nth_equalityI)
  fix j assume "j < length ((le_bytes n w)[k := le_bytes n w ! k XOR b])"
  then have j: "j < n" by simp
  have "(ucast (drop_bit (8 * j) (w XOR push_bit (8 * k) (ucast b))) :: u8) =
      (if j = k then ucast (drop_bit (8 * k) w) XOR b else ucast (drop_bit (8 * j) w))"
  proof (rule bit_word_eqI)
    fix i assume "i < LENGTH(8)"
    moreover have "bit b (8 * j + i - 8 * k) \<longrightarrow> 8 * j + i - 8 * k < 8"
      using bit_imp_le_length [of b "8 * j + i - 8 * k"] by auto
    ultimately show "bit (ucast (drop_bit (8 * j) (w XOR push_bit (8 * k) (ucast b))) :: u8) i =
        bit (if j = k then ucast (drop_bit (8 * k) w) XOR b else ucast (drop_bit (8 * j) w)) i"
      using j assms by (cases j k rule: linorder_cases) (auto simp: bit_simps)
  qed
  with j assms(1) show "(le_bytes n w)[k := le_bytes n w ! k XOR b] ! j = le_bytes n (w XOR push_bit (8 * k) (ucast b)) ! j"
    by (simp add: nth_list_update nth_le_bytes)
qed simp

lemma xxhash_frame_checked:
  assumes "length p \<le> u32_max" and "length p \<le> limit" and "v \<noteq> xxh3_64 p"
  shows "next_frame (checksum_format (XxHash64 xxh3_64) limit) (le_bytes 4 (u32_of_usize (length p)) @ le_bytes 8 v @ p) =
    Bad (checksum_mismatch v (xxh3_64 p))"
proof -
  have mask: "width_mask 8 = - 1" by (simp add: width_mask_def)
  have "read_bytes_default 8 (le_bytes 8 v) = Some v"
    using read_bytes_default_field [of 8 v "[]"] by (simp add: mask take_le_bytes)
  moreover have "declared_len (le_bytes 4 (u32_of_usize (length p)) @ le_bytes 8 v @ p) = length p"
    using assms(1) unat_header_roundtrip [of "length p"] by (simp add: declared_len_def)
  moreover have "cs_verify (XxHash64 xxh3_64) v p = Err (checksum_mismatch v (xxh3_64 p))"
    using assms(3) by (simp add: XxHash64_def checksum_default_def verify_default_def mask Let_def)
  ultimately show ?thesis using assms(2)
    by (simp add: next_frame_def checksum_format_def XxHash64_def checksum_default_def error_of_def Let_def flip: length_0_conv)
qed

lemma xor_unchanged_iff: "(a :: 'a::len word) XOR b = a \<longleftrightarrow> b = 0"
  by (auto simp: bit_eq_iff bit_simps)

lemma checksum_mismatch_seen:
  assumes "string_roots ops sb enc" and "length (enc ''Valid message'') \<le> fb_max" and "fb_max \<le> u32_max"
  shows "test_checksum_mismatch fb_max ops sb xxh3_64 = Some (Ok (Confirmed
    (xxh3_64 (enc ''Valid message'') XOR push_bit 8 0xFF, xxh3_64 (enc ''Valid message''))))"
proof -
  let ?p = "enc ''Valid message''" and ?alg = "XxHash64 xxh3_64"
  let ?h = "xxh3_64 ?p" and ?d = "\<lparr>cd_checksum_alg = XxHash64 xxh3_64, cd_max_frame_len = fb_max\<rparr>"
  let ?bad = "le_bytes 4 (u32_of_usize (length ?p)) @ le_bytes 8 (?h XOR push_bit 8 0xFF) @ ?p"
  have small: "length ?p \<le> u32_max" using assms(2,3) by simp
  have new: "checksum_framer_new ?alg = Some ?alg" "checksum_deframer_new fb_max ?alg = Some ?d"
    by (simp_all add: checksum_framer_new_def checksum_deframer_new_def XxHash64_def checksum_default_def DEFAULT_MAX_FRAME_LEN_def)
  have field: "checksum_field ?alg ?p = le_bytes 8 ?h" by (simp add: XxHash64_def default_checksum_field)
  have lib: "library_framer cursor_write (checksum_field ?alg) (\<lambda>p. length p \<le> u32_max) (ChecksumFramer ?alg cursor_write :: (cursor, unit) framer)"
    by (rule checksummed_framer [OF xxhash64.lawful_checksum_axioms])
  have frame: "encode_frame (checksum_field ?alg) ?p = le_bytes 4 (u32_of_usize (length ?p)) @ le_bytes 8 ?h @ ?p"
    by (simp add: encode_frame_def field)
  have "(le_bytes 8 ?h)[1 := le_bytes 8 ?h ! 1 XOR 0xFF] = le_bytes 8 (?h XOR push_bit 8 0xFF)"
    using le_bytes_xor [of 1 8 ?h "0xFF"] by (simp add: unsigned_numeral)
  then have flip: "flip_checksum (encode_frame (checksum_field ?alg) ?p) = Some ?bad"
    unfolding flip_checksum_def frame by (simp add: list_update_append nth_append)
  have "?h XOR push_bit 8 0xFF \<noteq> ?h" by (simp add: xor_unchanged_iff)
  from xxhash_frame_checked [of ?p fb_max "?h XOR push_bit 8 0xFF" xxh3_64, OF small assms(2) this] have bad:
    "next_frame (checksum_format ?alg fb_max) ?bad = Bad (checksum_mismatch (?h XOR push_bit 8 0xFF) ?h)" .
  have "library_deframer cursor_read (checksum_format ?alg fb_max) (ChecksumDeframer cursor_read ?d)"
    using checksummed_deframer [where d = ?d] xxhash64.lawful_checksum_axioms by simp
  from read_once(1) [OF this bad] obtain s' where
    "read_message (test_reader ?bad (ChecksumDeframer cursor_read ?d)) = Some (Err (checksum_mismatch (?h XOR push_bit 8 0xFF) ?h), s')"
    by auto
  then show ?thesis
    by (simp add: test_checksum_mismatch_def with_framer_def deframer_for_def new written_wire_exact [OF lib assms(1) small] flip
        judged_def mismatch_part_def into_kind_def checksum_mismatch_def error_of_kind_def)
qed

lemma plain_reader_library:
  "library_deframer cursor_read (plain_format fb_max) (DefaultDeframer cursor_read (default_deframer_new fb_max))"
  using plain_deframer [where d = "default_deframer_new fb_max"]
  by (simp add: default_deframer_new_def DEFAULT_MAX_FRAME_LEN_def)

text \<open>A header that declares more than follows it.\<close>

lemma short_frame:
  assumes "length body < unat (n :: u32)"
  shows "next_frame (plain_format limit) (le_bytes 4 n @ body) =
    Bad (if limit < unat n then frame_too_long (unat n) limit else unexpected_eof)"
proof -
  have "declared_len (le_bytes 4 n @ body) = unat n" by (simp add: declared_len_def from_le_u32)
  then show ?thesis using assms
    by (simp add: next_frame_def plain_format_def Let_def flip: length_0_conv)
qed

lemma invalid_frame_seen: "test_invalid_frame fb_max = Some (Ok (Confirmed ()))"
proof -
  have "next_frame (plain_format fb_max) (le_bytes 4 (100000000 :: u32) @ byte_string ''some data'') =
      Bad (if fb_max < 100000000 then frame_too_long 100000000 fb_max else unexpected_eof)"
    by (subst short_frame) (simp_all add: byte_string_def)
  note run = read_once(1) [OF plain_reader_library this]
  show ?thesis unfolding test_invalid_frame_def Let_def plain_reader_def run
    by (simp add: judged_def frame_too_long_def into_kind_def error_defs)
qed

lemma unexpected_eof_seen:
  assumes "100 \<le> fb_max"
  shows "test_unexpected_eof fb_max = Some (Ok (Confirmed ()))"
proof -
  have "next_frame (plain_format fb_max) (le_bytes 4 (100 :: u32) @ []) = Bad unexpected_eof"
    using assms by (subst short_frame) simp_all
  note run = read_once(1) [OF plain_reader_library this, unfolded append_Nil2]
  show ?thesis unfolding test_unexpected_eof_def Let_def plain_reader_def run
    by (simp add: judged_def into_kind_def error_defs)
qed

lemma count_until_eof_frames:
  assumes "library_deframer cursor_read fmt (sr_deframer s)" and "speaks field fmt ok"
    and "list_all (\<lambda>p. fits fmt p \<and> ok p) ps" and "cursor_rest (sr_reader s) = encode_stream field ps"
  shows "count_until_eof (s, k) = Some (Ok (Confirmed (k + length ps)))"
  using assms(1,3,4)
proof (induction ps arbitrary: s k)
  case Nil
  from read_next [OF Nil.prems(1) assms(2) Nil.prems(2,3)] show ?case by (subst count_until_eof.simps) auto
next
  case (Cons p ps)
  from read_next [OF Cons.prems(1) assms(2) Cons.prems(2,3)] obtain s' where
    "read_message s = Some (Ok (Some p), s')" "sr_deframer s' = sr_deframer s"
    "cursor_rest (sr_reader s') = encode_stream field ps" by auto
  with Cons.IH [of s' "k + 1"] Cons.prems(1,2) show ?case by (subst count_until_eof.simps) simp
qed

lemma clean_eof_seen:
  assumes "string_roots ops sb enc" and "list_all (\<lambda>s. length (enc s) \<le> fb_max) [''Message 1'', ''Message 2'']"
    and "fb_max \<le> u32_max"
  shows "test_clean_eof fb_max ops sb = Some (Ok (Confirmed 2, Confirmed 2))"
proof -
  let ?ps = "map enc [''Message 1'', ''Message 2'']"
  have items: "list_all2 (encodes ops (\<lambda>_. True)) (map (text_serialize sb) [''Message 1'', ''Message 2'']) ?ps"
    by (rule map_encodes) (rule text_encodes [OF assms(1)])
  have small: "list_all (\<lambda>p. length p \<le> u32_max) ?ps" using assms(2,3) by auto
  have fit: "list_all (\<lambda>p. fits (plain_format fb_max) p \<and> True) ?ps"
    using assms(2,3) by (auto simp: fits_def plain_format_def)
  have manual: "count_until_eof (plain_reader fb_max (encode_stream (\<lambda>_. []) ?ps), 0) = Some (Ok (Confirmed 2))"
    using count_until_eof_frames [OF _ speaks_plain fit, of "plain_reader fb_max (encode_stream (\<lambda>_. []) ?ps)" 0]
    by (simp add: plain_reader_def plain_reader_library)
  have "scan (plain_format fb_max) (encode_stream (\<lambda>_. []) ?ps) = (?ps, Clean)"
    using wire_codec.scan_encode [OF speaks_wire_codec [OF speaks_plain] fit, of "[]"] by simp
  with frame_reader.process_all_scan [OF library_deframer_contract [OF plain_reader_library [of fb_max] cursor_source.reliable_source_axioms]
      test_reader_simps(1) TrueI, of count_frames "encode_stream (\<lambda>_. []) ?ps" 0] feed_count [of ?ps 0]
  obtain s' where "process_all count_frames (plain_reader fb_max (encode_stream (\<lambda>_. []) ?ps), 0) = Some (Ok (), s', 2)"
    by (auto simp: processed_def plain_reader_def)
  with manual show ?thesis
    unfolding test_clean_eof_def run_simple_exact [OF items small] by (simp del: encode_stream_simps list.map)
qed

lemma error_handling_runs:
  assumes "string_roots ops sb enc" and "100 \<le> fb_max" and "fb_max \<le> u32_max"
    and "list_all (\<lambda>s. length (enc s) \<le> fb_max)
      [''Valid message'', ''Message 1'', ''Message 2'', ''This message will fail to write completely'']"
  shows "error_handling_main fb_max ops sb xxh3_64 = Some (Ok ())"
proof -
  have lens: "length (enc ''This message will fail to write completely'') \<le> u32_max" "length (enc ''Valid message'') \<le> fb_max"
    "list_all (\<lambda>s. length (enc s) \<le> fb_max) [''Message 1'', ''Message 2'']" using assms(3,4) by simp_all
  show ?thesis
    unfolding error_handling_main_def io_error_test_sees_no_error [OF assms(1) lens(1)] checksum_mismatch_seen [OF assms(1) lens(2) assms(3)]
      invalid_frame_seen unexpected_eof_seen [OF assms(2)] clean_eof_seen [OF assms(1) lens(3) assms(3)] demo_bind_simps by (rule refl)
qed

section \<open>Where the text is found\<close>

lemma zero_copy_shown:
  assumes "string_roots ops sb enc" and "\<And>s. sublist (byte_string s) (enc s)"
    and "\<And>s. s \<in> set (zero_copy_data # zero_copy_messages) \<Longrightarrow> length (enc s) \<le> fb_max" and "fb_max \<le> u32_max"
  shows "\<exists>pos. verify_simple_mode_zero_copy ops sb zero_copy_data = Some (Ok (Some pos)) \<and>
      verify_expert_mode_zero_copy ops sb zero_copy_data = Some (Ok (Some pos))"
    and "\<exists>found. verify_reading_zero_copy fb_max ops sb = Some (Ok found) \<and> length found = 3 \<and> None \<notin> set found"
    and "zero_copy_main fb_max ops sb = Some (Ok ())"
proof -
  have small: "s \<in> set (zero_copy_data # zero_copy_messages) \<Longrightarrow> length (enc s) \<le> u32_max" for s
    using assms(3) [of s] assms(4) by simp
  have found: "needle \<noteq> [] \<Longrightarrow> sublist needle hay \<Longrightarrow> \<exists>pos. find_pattern hay needle = (Ok (Some pos) :: (error, nat option) outcome)" for needle hay
    using find_pattern_first by blast
  let ?p = "enc zero_copy_data" and ?w = "encode_stream (\<lambda>_. []) [enc zero_copy_data]"
  have p: "length ?p \<le> u32_max" using small by simp
  have "list_all2 (encodes ops (\<lambda>_. True)) [text_serialize sb zero_copy_data] [?p]" using text_encodes [OF assms(1)] by simp
  from run_simple_exact [OF this] p have simple: "run_simple ops [text_serialize sb zero_copy_data] = Some (Ok ?w)" by simp
  from text_encodes [OF assms(1), of zero_copy_data] obtain b where b:
    "text_serialize sb zero_copy_data (b_reset ops (b_new ops)) = Some (Ok (), b)" "b_finished_data ops b = Some ?p"
    unfolding encodes_def by blast
  from write_finished_at_end [OF plain_vec_writer(1) [of ops] b(2) p plain_vec_writer(5)] obtain w' where
    "write_finished ops b (vec_writer ops) = Some (Ok (), w')" "cursor_data (sw_writer w') = ?w"
    by (auto simp: plain_vec_writer(6))
  then have expert: "run_writer (unwrapped (write_finished ops b)) (vec_writer ops) = Some (Ok ((), ?w))"
    by (simp add: run_writer_def unwrapped_def)
  have "sublist (byte_string zero_copy_data) ?w"
    using assms(2) [of zero_copy_data] by (auto simp: encode_frame_def sublist_def) (metis append.assoc)
  then obtain pos where "find_pattern ?w (byte_string zero_copy_data) = (Ok (Some pos) :: (error, nat option) outcome)"
    using found by (fastforce simp: byte_string_def zero_copy_data_def)
  then have "pattern_in ?w = Some (Ok (Some pos))" by (simp add: pattern_in_def zero_copy_data_def)
  with simple expert b unwrapped_eval(1) [of "text_serialize sb zero_copy_data", OF b(1)]
  show one: "\<exists>pos. verify_simple_mode_zero_copy ops sb zero_copy_data = Some (Ok (Some pos)) \<and>
      verify_expert_mode_zero_copy ops sb zero_copy_data = Some (Ok (Some pos))"
    unfolding verify_simple_mode_zero_copy_def verify_expert_mode_zero_copy_def by (intro exI [of _ pos]) simp
  let ?ps = "map enc zero_copy_messages"
  have feed: "list_all (sublist (byte_string ''UNIQUEPATTERN'')) ps \<Longrightarrow>
      \<exists>more. feed note_pattern ps u = Some (Ok (), [], u @ more) \<and> length more = length ps \<and> None \<notin> set more" for ps u
  proof (induction ps arbitrary: u)
    case (Cons q ps)
    then obtain pos where "find_pattern q (byte_string ''UNIQUEPATTERN'') = (Ok (Some pos) :: (error, nat option) outcome)"
      using found [of "byte_string ''UNIQUEPATTERN''" q] by (auto simp: byte_string_def)
    then have "note_pattern q u = Some (Ok (), u @ [Some pos])" by (simp add: note_pattern_def)
    moreover from Cons obtain rest where "feed note_pattern ps (u @ [Some pos]) = Some (Ok (), [], (u @ [Some pos]) @ rest)"
      "length rest = length ps" "None \<notin> set rest" by fastforce
    ultimately show ?case by (intro exI [of _ "Some pos # rest"]) simp
  qed simp
  have "sublist (byte_string ''UNIQUEPATTERN'') (byte_string s)" if "s \<in> set zero_copy_messages" for s
  proof -
    from that obtain i where "s = (''Message_'' @ dec i @ ''_'') @ ''UNIQUEPATTERN''" by (auto simp: zero_copy_messages_def)
    then show ?thesis by (simp only: byte_string_def map_append sublist_append_leftI)
  qed
  with assms(2) have "list_all (sublist (byte_string ''UNIQUEPATTERN'')) ?ps"
    by (auto simp: list_all_iff intro: sublist_order.order_trans)
  from feed [OF this, of "[]"] obtain more where more: "feed note_pattern ?ps [] = Some (Ok (), [], more)"
    "length more = 3" "None \<notin> set more" by (auto simp: zero_copy_messages_def)
  have items: "list_all2 (encodes ops (\<lambda>_. True)) (map (text_serialize sb) zero_copy_messages) ?ps"
    by (rule map_encodes) (rule text_encodes [OF assms(1)])
  have lens: "list_all (\<lambda>p. length p \<le> u32_max) ?ps" using small by (auto simp: list_all_iff)
  have "list_all (\<lambda>p. fits (plain_format fb_max) p \<and> True) ?ps"
    using assms(3) small by (auto simp: list_all_iff fits_def plain_format_def)
  from run_reader_frames [OF plain_reader_library speaks_plain this more(1)] more(2,3)
  show two: "\<exists>found. verify_reading_zero_copy fb_max ops sb = Some (Ok found) \<and> length found = 3 \<and> None \<notin> set found"
    by (simp add: verify_reading_zero_copy_def run_simple_exact [OF items lens] unwrap_run_def)
  from one two show "zero_copy_main fb_max ops sb = Some (Ok ())" by (auto simp: zero_copy_main_def)
qed

section \<open>Composition\<close>

text \<open>The sum as a natural number; a payload in memory never makes it leave \<^verbatim>\<open>u64\<close>, and it would not matter.\<close>

lemma simple_sum_nat: "unat (simple_sum_calculate p) = sum_list (map unat p) mod 2 ^ 32"
proof -
  have "sum_list (map ucast p) = (word_of_nat (sum_list (map unat p)) :: u64)"
    by (induction p) simp_all
  moreover have "(0xFFFFFFFF :: u64) = mask 32" by (simp add: mask_eq_exp_minus_1)
  ultimately have "simple_sum_calculate p = take_bit 32 (word_of_nat (sum_list (map unat p)))"
    by (simp only: simple_sum_calculate_def take_bit_eq_mask)
  then have "unat (simple_sum_calculate p) = take_bit 32 (sum_list (map unat p) mod 2 ^ 64)"
    by (simp add: unsigned_take_bit_eq unat_of_nat)
  also have "\<dots> = sum_list (map unat p) mod 2 ^ 32"
    by (simp add: take_bit_eq_mod mod_mod_cancel)
  finally show ?thesis .
qed

lemma simple_sum_width: "simple_sum_calculate p AND width_mask 4 = simple_sum_calculate p"
proof -
  have "(0xFFFFFFFF :: u64) = width_mask 4" by (simp add: width_mask_def)
  then show ?thesis by (simp add: simple_sum_calculate_def and.assoc)
qed

lemma SimpleSum_lawful: "lawful_checksum SimpleSum"
proof -
  note d = lawful_checksum.scratch_length lawful_checksum.wire_form lawful_checksum.read_back lawful_checksum.read_total
  from d [OF checksum_default_lawful [of 4 simple_sum_calculate]] simple_sum_width show ?thesis
    by unfold_locales (auto simp: SimpleSum_def checksum_default_def simple_sum_verify_def Let_def)
qed

interpretation simple_sum: lawful_checksum SimpleSum
  by (rule SimpleSum_lawful)

lemma simple_sum_frame:
  assumes "length q = length p" and "length p \<le> limit" and "limit \<le> u32_max"
  shows "next_frame (checksum_format SimpleSum limit) (le_bytes 4 (u32_of_usize (length p)) @ checksum_field SimpleSum p @ q) =
    (if simple_sum_calculate q = simple_sum_calculate p then Frame q []
     else Bad (checksum_mismatch (simple_sum_calculate p) (simple_sum_calculate q)))"
proof -
  have field: "checksum_field SimpleSum p = le_bytes 4 (simple_sum_calculate p)"
    by (simp add: checksum_field_def SimpleSum_def checksum_default_def write_bytes_default_def take_le_bytes)
  have "read_bytes_default 4 (le_bytes 4 (simple_sum_calculate p)) = Some (simple_sum_calculate p)"
    using read_bytes_default_field [of 4 "simple_sum_calculate p" "[]"] by (simp add: simple_sum_width take_le_bytes)
  moreover have "declared_len (le_bytes 4 (u32_of_usize (length p)) @ le_bytes 4 (simple_sum_calculate p) @ q) = length p"
    using assms(2,3) unat_header_roundtrip [of "length p"] by (simp add: declared_len_def)
  ultimately show ?thesis using assms unfolding field
    by (simp add: next_frame_def checksum_format_def SimpleSum_def checksum_default_def simple_sum_verify_def error_of_def Let_def
        flip: length_0_conv)
qed

lemma messages_of_three_types:
  assumes "string_roots ops sb enc" and "vector_roots ops vb venc"
    and "length (enc (''sensor:42,value:'' @ show_f64 (f_lit F (235 / 10)))) \<le> u32_max"
    and "length (enc ''[INFO] System started'') \<le> u32_max" and "length (venc [0xDE, 0xAD, 0xBE, 0xEF]) \<le> u32_max"
  shows "demonstrate_message_types F show_f64 ops sb vb = Some (Ok (length (encode_stream (\<lambda>_. [])
    [enc (''sensor:42,value:'' @ show_f64 (f_lit F (235 / 10))), enc ''[INFO] System started'', venc [0xDE, 0xAD, 0xBE, 0xEF]])))"
proof -
  let ?sensor = "\<lparr>sr_sensor_id = 42, sr_value = f_lit F (235 / 10)\<rparr>" and ?log = "\<lparr>lm_level = ''INFO'', lm_message = ''System started''\<rparr>"
  have "dec 42 = ''42''" by code_simp
  then have "encodes ops (\<lambda>_. True) (sensor_serialize show_f64 sb ?sensor) (enc (''sensor:42,value:'' @ show_f64 (f_lit F (235 / 10))))"
    "encodes ops (\<lambda>_. True) (log_serialize sb ?log) (enc ''[INFO] System started'')"
    "encodes ops (\<lambda>_. True) (binary_serialize vb data) (venc data)" for data
    using string_encodes [OF assms(1)] blob_encodes [OF assms(2), of data]
    by (simp_all add: encodes_def str_serialize_def sensor_serialize_def log_serialize_def binary_serialize_def blob_serialize_def)
  then have "list_all2 (encodes ops (\<lambda>_. True))
      [sensor_serialize show_f64 sb ?sensor, log_serialize sb ?log, binary_serialize vb [0xDE, 0xAD, 0xBE, 0xEF]]
      [enc (''sensor:42,value:'' @ show_f64 (f_lit F (235 / 10))), enc ''[INFO] System started'', venc [0xDE, 0xAD, 0xBE, 0xEF]]"
    by simp
  from run_simple_exact [OF this] assms(3-5) show ?thesis by (simp add: demonstrate_message_types_def Let_def)
qed

context reliable_sink
begin

text \<open>The custom framer never rejects, whatever the length; what it writes begins with its header.\<close>

lemma custom_header_exact:
  assumes "open_sink (tx_sink s)"
  shows "\<exists>s'. CustomHeaderFramer header wr p s = Some (Ok (), s') \<and> open_sink (tx_sink s') \<and>
    written (tx_sink s') = written (tx_sink s) @ byte_string header @ le_bytes 4 (u32_of_usize (length p)) @ p"
proof -
  from write_all_tx_Ok [OF assms, of "byte_string header"] obtain w1 where
    w1: "write_all_tx wr (byte_string header) s = Some (Ok (), s\<lparr>tx_sink := w1\<rparr>)" "open_sink w1"
    "written w1 = written (tx_sink s) @ byte_string header" by blast
  then have "open_sink (tx_sink (s\<lparr>tx_sink := w1\<rparr>))" by simp
  from write_two_Ok [OF this, of "le_bytes 4 (u32_of_usize (length p))" p] obtain w2 where
    "bindp (write_all_tx wr (le_bytes 4 (u32_of_usize (length p)))) (\<lambda>_. write_all_tx wr p) (s\<lparr>tx_sink := w1\<rparr>)
      = Some (Ok (), s\<lparr>tx_sink := w1, tx_sink := w2\<rparr>)" "open_sink w2"
    "written w2 = written w1 @ le_bytes 4 (u32_of_usize (length p)) @ p" by auto
  with w1 show ?thesis by (simp add: CustomHeaderFramer_def bindp_Ok Let_def)
qed

end

lemma custom_header_wire:
  assumes "string_roots ops sb enc"
  shows "written_wire ops sb (CustomHeaderFramer header cursor_write) s =
    Some (Ok (byte_string header @ le_bytes 4 (u32_of_usize (length (enc s))) @ enc s))"
proof -
  let ?w = "writer_new ops (cursor_new []) (CustomHeaderFramer header cursor_write) () :: (cursor, unit, 'a, unit, unit) stream_writer"
  have ok: "writer_ok (\<lambda>_. True) ?w" by (simp add: writer_ok_def)
  from reliable_sink.custom_header_exact [OF cursor_sink.reliable_sink_axioms,
      of "\<lparr>tx_sink = cursor_new [], tx_world = ()\<rparr>" header "enc s"] obtain t :: "(cursor, unit) tx" where
    t: "CustomHeaderFramer header cursor_write (enc s) \<lparr>tx_sink = cursor_new [], tx_world = ()\<rparr> = Some (Ok (), t)"
    "cursor_data (tx_sink t) = byte_string header @ le_bytes 4 (u32_of_usize (length (enc s))) @ enc s"
    by (auto simp: cursor_new_def)
  then have "sw_framer ?w (enc s) \<lparr>tx_sink = sw_writer ?w, tx_world = sw_world ?w\<rparr> = Some (Ok (), t)"
    by (simp add: writer_new_def)
  from writer_write_after [OF ok string_encodes [OF assms, of s] this] t(2) show ?thesis
    by (auto simp: written_wire_def run_writer_def)
qed

lemma framer_strategies_differ:
  assumes "string_roots ops sb enc" and "4 \<le> length (enc ''Default framing'')"
    and "\<And>s. s \<in> {''Default framing'', ''Custom framing'', ''Checksummed data''} \<Longrightarrow> length (enc s) \<le> u32_max"
  shows "demonstrate_framer_strategies ops sb xxh3_64 = Some (Ok
    (le_bytes 4 (u32_of_usize (length (enc ''Default framing''))) @ take 4 (enc ''Default framing''),
     byte_string ''HDR:'' @ le_bytes 4 (u32_of_usize (length (enc ''Custom framing'')))))"
proof -
  have plain: "library_framer cursor_write (\<lambda>_. []) (\<lambda>p. length p \<le> u32_max) (DefaultFramer cursor_write :: (cursor, unit) framer)"
    by (rule plain_framer)
  have lib: "library_framer cursor_write (checksum_field (XxHash64 xxh3_64)) (\<lambda>p. length p \<le> u32_max)
      (ChecksumFramer (XxHash64 xxh3_64) cursor_write :: (cursor, unit) framer)"
    by (rule checksummed_framer [OF xxhash64.lawful_checksum_axioms])
  have new: "checksum_framer_new (XxHash64 xxh3_64) = Some (XxHash64 xxh3_64)"
    by (simp add: checksum_framer_new_def XxHash64_def checksum_default_def)
  have w: "written_wire ops sb (DefaultFramer cursor_write) ''Default framing'' = Some (Ok (encode_frame (\<lambda>_. []) (enc ''Default framing'')))"
    "written_wire ops sb (ChecksumFramer (XxHash64 xxh3_64) cursor_write) ''Checksummed data'' =
      Some (Ok (encode_frame (checksum_field (XxHash64 xxh3_64)) (enc ''Checksummed data'')))"
    using assms(3) by (simp_all add: written_wire_exact [OF plain assms(1)] written_wire_exact [OF lib assms(1)])
  have s: "slice_of (encode_frame (\<lambda>_. []) (enc ''Default framing'')) 0 8 =
      (Ok (le_bytes 4 (u32_of_usize (length (enc ''Default framing''))) @ take 4 (enc ''Default framing'')) :: (error, bytes) outcome)"
    "slice_of (byte_string ''HDR:'' @ le_bytes 4 (u32_of_usize (length (enc ''Custom framing''))) @ enc ''Custom framing'') 0 8 =
      (Ok (byte_string ''HDR:'' @ le_bytes 4 (u32_of_usize (length (enc ''Custom framing'')))) :: (error, bytes) outcome)"
    using assms(2) by (simp_all add: slice_of_def encode_frame_def byte_string_def)
  show ?thesis unfolding demonstrate_framer_strategies_def w custom_header_wire [OF assms(1)] demo_bind_simps s with_framer_def new
    by (simp add: w)
qed

lemma custom_checksum_verified:
  assumes "string_roots ops sb enc" and "length (enc ''Test data for simple sum'') \<le> fb_max" and "fb_max \<le> u32_max"
  shows "demonstrate_custom_checksum fb_max ops sb = Some (Ok (Confirmed (length (enc ''Test data for simple sum''))))"
proof -
  let ?p = "enc ''Test data for simple sum''" and ?d = "\<lparr>cd_checksum_alg = SimpleSum, cd_max_frame_len = fb_max\<rparr>"
  have lib: "library_framer cursor_write (checksum_field SimpleSum) (\<lambda>p. length p \<le> u32_max) (ChecksumFramer SimpleSum cursor_write :: (cursor, unit) framer)"
    by (rule checksummed_framer [OF SimpleSum_lawful])
  have new: "checksum_framer_new SimpleSum = Some SimpleSum" "checksum_deframer_new fb_max SimpleSum = Some ?d"
    by (simp_all add: checksum_framer_new_def checksum_deframer_new_def SimpleSum_def checksum_default_def DEFAULT_MAX_FRAME_LEN_def)
  have "next_frame (checksum_format SimpleSum fb_max) (encode_frame (checksum_field SimpleSum) ?p) = Frame ?p []"
    using simple_sum_frame [OF refl assms(2,3)] by (simp add: encode_frame_def)
  moreover have "library_deframer cursor_read (checksum_format SimpleSum fb_max) (ChecksumDeframer cursor_read ?d)"
    using checksummed_deframer [where d = ?d] SimpleSum_lawful by simp
  ultimately obtain s' where "read_message (test_reader (encode_frame (checksum_field SimpleSum) ?p) (ChecksumDeframer cursor_read ?d)) =
      Some (Ok (Some ?p), s')" using read_once(2) by fastforce
  with assms show ?thesis
    by (simp add: demonstrate_custom_checksum_def with_framer_def deframer_for_def new written_wire_exact [OF lib assms(1)])
qed

lemma composability_runs:
  assumes "string_roots ops sb enc" and "vector_roots ops vb venc" and "4 \<le> length (enc ''Default framing'')"
    and "length (enc (''sensor:42,value:'' @ show_f64 (f_lit F (235 / 10)))) \<le> u32_max"
    and "list_all (\<lambda>s. length (enc s) \<le> fb_max) [''[INFO] System started'', ''Default framing'', ''Custom framing'',
      ''Checksummed data'', ''Test data for simple sum'']"
    and "length (venc [0xDE, 0xAD, 0xBE, 0xEF]) \<le> u32_max" and "fb_max \<le> u32_max"
  shows "composability_main fb_max F show_f64 ops sb vb xxh3_64 = Some (Ok ())"
proof -
  have lens: "length (enc ''[INFO] System started'') \<le> u32_max" "length (enc ''Test data for simple sum'') \<le> fb_max"
    and names: "s \<in> {''Default framing'', ''Custom framing'', ''Checksummed data''} \<Longrightarrow> length (enc s) \<le> u32_max" for s
    using assms(5,7) by auto
  note one = messages_of_three_types [of ops sb enc vb venc show_f64 F, OF assms(1,2,4) lens(1) assms(6)]
  have two: "\<exists>heads. demonstrate_framer_strategies ops sb xxh3_64 = Some (Ok heads)"
    by (rule exI, rule framer_strategies_differ [OF assms(1,3)]) (rule names)
  from two custom_checksum_verified [OF assms(1) lens(2) assms(7)] show ?thesis
    by (auto simp: composability_main_def one)
qed

section \<open>The cost of a checksum\<close>

lemma length_replicated_stream: "length (encode_stream field (replicate n p)) = n * length (encode_frame field p)"
  by (induction n) simp_all

lemma measure_exact:
  assumes "library_framer cursor_write field (\<lambda>p. length p \<le> u32_max) framer" and "library_deframer cursor_read fmt deframer"
    and "speaks field fmt ok" and "string_roots ops sb enc" and "length (enc msg) \<le> u32_max" and "fits fmt (enc msg)" and "ok (enc msg)"
  shows "measure_checksum_performance ops sb msg n framer deframer = Some (Ok (n * (4 + ff_width fmt + length (enc msg))))"
proof -
  let ?w = "writer_new ops (cursor_new []) framer () :: (cursor, unit, 'a, unit, unit) stream_writer" and ?ps = "replicate n (enc msg)"
  have w: "library_framer cursor_write field (\<lambda>p. length p \<le> u32_max) (sw_framer ?w)"
    "cursor_pos (sw_writer ?w) = length (cursor_data (sw_writer ?w))" "writer_ok (\<lambda>_. True) ?w" "cursor_data (sw_writer ?w) = []"
    using assms(1) by (simp_all add: writer_new_def cursor_new_def writer_ok_def)
  have items: "list_all2 (encodes ops (\<lambda>_. True)) (replicate n (str_serialize (fst sb) (snd sb) msg)) ?ps"
    using string_encodes [OF assms(4), of msg] by (simp add: list_all2_conv_all_nth)
  have small: "list_all (\<lambda>p. length p \<le> u32_max) ?ps" "takeWhile (\<lambda>p. length p \<le> u32_max) ?ps = ?ps"
    using assms(5) by (simp_all add: list_all_iff)
  from exact_frame_writer.simple_loop_exact [OF library_framer_exact [OF w(1) cursor_sink.reliable_sink_axioms] items w(3) refl w(2)]
  have wrote: "run_writer (simple_loop ops (replicate n (str_serialize (fst sb) (snd sb) msg))) ?w = Some (Ok ((), encode_stream field ?ps))"
    using small w(4) by (auto simp: run_writer_def)
  have feed: "feed (\<lambda>_ u. Some (Ok (), u)) ps () = Some (Ok (), [], ())" for ps by (induction ps) simp_all
  have "list_all (\<lambda>p. fits fmt p \<and> ok p) ?ps" using assms(6,7) by (simp add: list_all_iff)
  from run_reader_frames [OF assms(2,3) this feed]
  have "run_reader (\<lambda>_ u. Some (Ok (), u)) deframer (encode_stream field ?ps) () = Some (Ok ())" .
  moreover have "length (encode_frame field (enc msg)) = 4 + ff_width fmt + length (enc msg)"
    using wire_codec.length_encode_frame [OF speaks_wire_codec [OF assms(3)]] by (simp add: frame_size_def)
  ultimately show ?thesis
    by (simp add: measure_checksum_performance_def wrote unwrap_run_def length_replicated_stream)
qed

lemma measure_with_exact:
  assumes "lawful_checksum alg" and "string_roots ops sb enc" and "length (enc msg) \<le> fb_max" and "fb_max \<le> u32_max"
  shows "measure_with fb_max ops sb msg n alg = Some (Ok (n * (4 + cs_SIZE alg + length (enc msg))))"
proof -
  let ?d = "\<lparr>cd_checksum_alg = alg, cd_max_frame_len = fb_max\<rparr>"
  have lib: "library_framer cursor_write (checksum_field alg) (\<lambda>p. length p \<le> u32_max) (ChecksumFramer alg cursor_write :: (cursor, unit) framer)"
    by (rule checksummed_framer [OF assms(1)])
  have dfr: "library_deframer cursor_read (checksum_format alg fb_max) (ChecksumDeframer cursor_read ?d)"
    using checksummed_deframer [where d = ?d] assms(1) by simp
  have "fits (checksum_format alg fb_max) (enc msg)" "length (enc msg) \<le> u32_max"
    using assms(3,4) by (simp_all add: fits_def checksum_format_fields)
  from measure_exact [OF lib dfr speaks_checksum [OF assms(1)] assms(2) this(2,1) TrueI]
  have "measure_checksum_performance ops sb msg n (ChecksumFramer alg cursor_write) (ChecksumDeframer cursor_read ?d) =
      Some (Ok (n * (4 + cs_SIZE alg + length (enc msg))))" by (simp add: checksum_format_fields)
  with lawful_checksum.size_le_8 [OF assms(1)] show ?thesis
    by (simp add: measure_with_def with_framer_def deframer_for_def checksum_framer_new_def checksum_deframer_new_def DEFAULT_MAX_FRAME_LEN_def)
qed

text \<open>The comparison of the program: a message costs its header, the width of its checksum and itself.\<close>

lemma checksums_compared:
  assumes "string_roots ops sb enc" and "length (enc msg) \<le> fb_max" and "fb_max \<le> u32_max"
  shows "compare_checksums fb_max ops sb xxh3_64 crc32fast_hash crc16_xmodem msg n =
    Some (Ok (map (\<lambda>width. n * (4 + width + length (enc msg))) [0, 2, 4, 8]))"
proof -
  have plain: "library_framer cursor_write (\<lambda>_. []) (\<lambda>p. length p \<le> u32_max) (DefaultFramer cursor_write :: (cursor, unit) framer)"
    by (rule plain_framer)
  have "fits (plain_format fb_max) (enc msg)" "length (enc msg) \<le> u32_max"
    using assms(2,3) by (simp_all add: fits_def plain_format_def)
  from measure_exact [OF plain plain_reader_library speaks_plain assms(1) this(2,1) TrueI]
  have "measure_checksum_performance ops sb msg n (DefaultFramer cursor_write) (DefaultDeframer cursor_read (default_deframer_new fb_max)) =
      Some (Ok (n * (4 + length (enc msg))))" by (simp add: plain_format_def)
  with measure_with_exact [OF crc16.lawful_checksum_axioms assms] measure_with_exact [OF crc32.lawful_checksum_axioms assms]
    measure_with_exact [OF xxhash64.lawful_checksum_axioms assms]
  show ?thesis by (simp add: compare_checksums_def Crc16_def Crc32_def XxHash64_def checksum_default_def)
qed

lemma checksum_comparison_runs:
  assumes "string_roots ops sb enc" and "\<And>s. s \<in> {small_text, medium_text, large_text} \<Longrightarrow> length (enc s) \<le> fb_max" and "fb_max \<le> u32_max"
  shows "checksum_comparison_main fb_max ops sb xxh3_64 crc32fast_hash crc16_xmodem =
    Some (Ok [map (\<lambda>width. 1000 * (4 + width + length (enc small_text))) [0, 2, 4, 8],
      map (\<lambda>width. 1000 * (4 + width + length (enc medium_text))) [0, 2, 4, 8],
      map (\<lambda>width. 100 * (4 + width + length (enc large_text))) [0, 2, 4, 8]])"
proof -
  have "length (enc small_text) \<le> fb_max" "length (enc medium_text) \<le> fb_max" "length (enc large_text) \<le> fb_max"
    using assms(2) by auto
  note runs = checksums_compared [OF assms(1) this(1) assms(3)] checksums_compared [OF assms(1) this(2) assms(3)]
    checksums_compared [OF assms(1) this(3) assms(3)]
  show ?thesis unfolding checksum_comparison_main_def runs demo_bind_simps by (rule refl)
qed

lemma sum_moves:
  assumes "a < (256 :: nat)" and "b < 256" and "a \<noteq> b"
  shows "(r + a) mod 2 ^ 32 \<noteq> (r + b) mod 2 ^ 32"
proof -
  have "(r + y) mod 2 ^ 32 \<noteq> (r + x) mod 2 ^ 32" if "x < y" "y < 256" for x y :: nat
  proof
    assume "(r + y) mod 2 ^ 32 = (r + x) mod 2 ^ 32"
    then have "2 ^ 32 dvd y - x" using that mod_eq_dvd_iff_nat [of "r + x" "r + y" "2 ^ 32"] by simp
    then show False using that dvd_imp_le [of "2 ^ 32" "y - x"] by simp
  qed
  from this [of a b] this [of b a] assms show ?thesis by (cases "a < b") simp_all
qed

section \<open>Properties\<close>

text \<open>The checksum of the composability demonstration, used like the library's own, notices every change
  of a single byte of a payload, and never notices that bytes of it have been reordered: such a frame is
  handed out as sound.\<close>

lemma simple_sum_detection:
  assumes "length p \<le> cd_max_frame_len d" and "cd_max_frame_len d \<le> u32_max" and "cd_checksum_alg d = SimpleSum"
  shows "(\<forall>q. mset q = mset p \<longrightarrow> map_option fst (read_message (test_reader
        (le_bytes 4 (u32_of_usize (length p)) @ checksum_field SimpleSum p @ q) (ChecksumDeframer cursor_read d))) =
      Some (Ok (Some q))) \<and>
    (\<forall>i < length p. \<forall>x. x \<noteq> p ! i \<longrightarrow> (\<exists>a b. map_option fst (read_message (test_reader
        (le_bytes 4 (u32_of_usize (length p)) @ checksum_field SimpleSum p @ p[i := x]) (ChecksumDeframer cursor_read d))) =
      Some (Err (checksum_mismatch a b))))"
proof (intro conjI allI impI)
  have dfr: "library_deframer cursor_read (checksum_format SimpleSum (cd_max_frame_len d)) (ChecksumDeframer cursor_read d)"
    using checksummed_deframer [where d = d] SimpleSum_lawful assms(3) by simp
  note frame = simple_sum_frame [OF _ assms(1,2)]
  show "map_option fst (read_message (test_reader
      (le_bytes 4 (u32_of_usize (length p)) @ checksum_field SimpleSum p @ q) (ChecksumDeframer cursor_read d))) = Some (Ok (Some q))"
    if "mset q = mset p" for q
  proof -
    have "length q = length p" using that by (metis size_mset)
    moreover have "sum_list (map unat q) = sum_list (map unat p)"
      using that by (metis mset_map sum_mset_sum_list)
    then have "simple_sum_calculate q = simple_sum_calculate p" by (simp add: word_unat_eq_iff simple_sum_nat)
    ultimately show ?thesis using read_once(2) [OF dfr] frame by simp
  qed
  show "\<exists>a b. map_option fst (read_message (test_reader
      (le_bytes 4 (u32_of_usize (length p)) @ checksum_field SimpleSum p @ p[i := x]) (ChecksumDeframer cursor_read d))) =
      Some (Err (checksum_mismatch a b))" if i: "i < length p" and x: "x \<noteq> p ! i" for i x
  proof -
    let ?rest = "sum_list (map unat (take i p)) + sum_list (map unat (drop (Suc i) p))"
    have split: "sum_list (map unat (p[i := y])) = ?rest + unat y" for y
      using i by (simp add: upd_conv_take_nth_drop)
    have "p[i := p ! i] = p" by simp
    then have old: "sum_list (map unat p) = ?rest + unat (p ! i)" using split [of "p ! i"] by simp
    have "unat x < 256" "unat (p ! i) < 256" using unsigned_less [where ?'a = nat and w = x] unsigned_less [where ?'a = nat and w = "p ! i"] by simp_all
    moreover have "unat x \<noteq> unat (p ! i)" using x by (simp add: word_unat_eq_iff)
    ultimately have "(?rest + unat x) mod 2 ^ 32 \<noteq> (?rest + unat (p ! i)) mod 2 ^ 32" by (rule sum_moves)
    then have "simple_sum_calculate (p[i := x]) \<noteq> simple_sum_calculate p"
      by (metis simple_sum_nat split old)
    then have "next_frame (checksum_format SimpleSum (cd_max_frame_len d))
        (le_bytes 4 (u32_of_usize (length p)) @ checksum_field SimpleSum p @ p[i := x]) =
      Bad (checksum_mismatch (simple_sum_calculate p) (simple_sum_calculate (p[i := x])))" using frame [of "p[i := x]"] by simp
    from read_once(1) [OF dfr this] show ?thesis by (intro exI)
  qed
qed

lemma simple_sum_detection_witness:
  "map_option fst (read_message (test_reader
      (le_bytes 4 (u32_of_usize 2) @ checksum_field SimpleSum [1, 2] @ [2, 1])
      (ChecksumDeframer cursor_read \<lparr>cd_checksum_alg = SimpleSum, cd_max_frame_len = 100\<rparr>))) = Some (Ok (Some [2, 1]))"
proof -
  have "u32_max \<ge> 100" by (simp add: u32_max_def)
  with simple_sum_detection [of "[1, 2]" "\<lparr>cd_checksum_alg = SimpleSum, cd_max_frame_len = 100\<rparr>"]
  have "\<forall>q. mset q = {#1, 2#} \<longrightarrow> map_option fst (read_message (test_reader
      (le_bytes 4 (u32_of_usize 2) @ checksum_field SimpleSum [1, 2] @ q)
      (ChecksumDeframer cursor_read \<lparr>cd_checksum_alg = SimpleSum, cd_max_frame_len = 100\<rparr>))) = Some (Ok (Some q))"
    by (simp add: numeral_2_eq_2)
  then show ?thesis by (auto simp: add_mset_commute dest: spec [of _ "[2, 1]"])
qed

text \<open>C40: What the error demonstration sees: a flipped byte of the checksum field is reported with the stored
  and the computed value, a length without its payload as an unexpected end, an absurd length as one of
  the two, and both ways of reading a stream count its messages to a clean end. Its device error it never
  sees: the failing writer looks at its limit only when a write begins, so it takes the payload whole.\<close>

theorem error_demonstration_verdicts:
  assumes "string_roots ops sb enc" and "100 \<le> fb_max" and "fb_max \<le> u32_max"
    and "\<forall>s \<in> {''Valid message'', ''Message 1'', ''Message 2'', ''This message will fail to write completely''}. length (enc s) \<le> fb_max"
  shows "test_io_error ops sb = Some (Ok NoError) \<and>
    (\<exists>stored. test_checksum_mismatch fb_max ops sb xxh3_64 = Some (Ok (Confirmed (stored, xxh3_64 (enc ''Valid message''))))) \<and>
    test_invalid_frame fb_max = Some (Ok (Confirmed ())) \<and> test_unexpected_eof fb_max = Some (Ok (Confirmed ())) \<and>
    test_clean_eof fb_max ops sb = Some (Ok (Confirmed 2, Confirmed 2))"
proof -
  have "length (enc ''This message will fail to write completely'') \<le> u32_max" using assms(3,4) by simp
  moreover have "length (enc ''Valid message'') \<le> fb_max" "list_all (\<lambda>s. length (enc s) \<le> fb_max) [''Message 1'', ''Message 2'']"
    using assms(4) by simp_all
  ultimately show ?thesis
    using io_error_test_sees_no_error [OF assms(1)] checksum_mismatch_seen [OF assms(1) _ assms(3)] invalid_frame_seen
      unexpected_eof_seen [OF assms(2)] clean_eof_seen [OF assms(1) _ assms(3)] by blast
qed

theorem error_demonstration_verdicts_witness:
  "test_io_error sample_builder sample_strings = Some (Ok NoError) \<and>
   test_clean_eof 1000 sample_builder sample_strings = Some (Ok (Confirmed 2, Confirmed 2))"
  using error_demonstration_verdicts [OF sample_string_roots, of 1000] by (simp add: byte_string_def u32_max_def)

end
