(* ===== verification/Spec2Isabelle.thy ===== *)
theory Spec2Isabelle
  imports FS_Reader FS_Writer FS_Recover FS_Faults FS_Unit_Tests FS_Magic FS_Lobster FS_Examples FS_Demos FS_Observers FS_Flatc FS_Agent FS_Ingest FS_Clients FS_Wire_Check FS_Modes FS_Experiments
begin

text \<open>
  A model of the Rust crate \<^verbatim>\<open>flatstream\<close> (\<^verbatim>\<open>src/src/*.rs\<close>, version 0.2.7): length-prefixed,
  optionally checksummed frames written to and read from byte streams, with pluggable
  validation, memory reclamation and crash recovery of append-only journals.

  \<^bold>\<open>The parts and their theories.\<close> Paths are relative to the repository.

  \<^item> \<^verbatim>\<open>FS_Prelude\<close>: bytes and words, the outcome of a fallible call (\<open>Ok\<close>, \<open>Err\<close>, \<open>Panic\<close>), programs
    as functions from a state to an optional outcome and state (\<open>None\<close> is a call that does not
    return), little-endian fields, saturating arithmetic and \<^verbatim>\<open>Vec<u8>\<close> with its capacity.
  \<^item> \<^verbatim>\<open>FS_Error\<close>: \<^verbatim>\<open>src/error.rs\<close>, the error kinds, constructors, conversions and messages.
  \<^item> \<^verbatim>\<open>FS_Std_IO\<close>: what is used of \<^verbatim>\<open>std::io\<close>: \<^verbatim>\<open>read_exact\<close> and \<^verbatim>\<open>write_all\<close> as loops over an
    arbitrary \<^verbatim>\<open>Read\<close> or \<^verbatim>\<open>Write\<close>, seeking, and the in-memory \<^verbatim>\<open>Cursor\<close> and \<^verbatim>\<open>Vec\<close>. The contracts of
    readers and writers are the locales \<open>byte_source\<close> (every read delivers a prefix of what is left),
    \<open>honest_source\<close> (no failed read claims to be an end of file; needed for the custom deframer only), \<open>reliable_source\<close> (reads fail only
    by interruption), \<open>byte_sink\<close>, \<open>reliable_sink\<close> and \<open>seekable_source\<close>, interpreted on the cursor,
    the vector and the injectors.
  \<^item> \<^verbatim>\<open>FS_Checksum\<close>: \<^verbatim>\<open>src/checksum.rs\<close>, the trait with its provided methods and the algorithms.
  \<^item> \<^verbatim>\<open>FS_Validation\<close>: \<^verbatim>\<open>src/validation.rs\<close>.
  \<^item> \<^verbatim>\<open>FS_Wire\<close>: the abstract wire format. \<open>next_frame\<close> parses one frame off a byte string, \<open>scan\<close> a whole
    stream, \<open>encode_stream\<close> is what a writer leaves, and \<open>speaks\<close> pairs the two. This is the
    specification the concrete code is shown to refine.
  \<^item> \<^verbatim>\<open>FS_Framing\<close> and \<^verbatim>\<open>FS_Deframing\<close>: the two halves of \<^verbatim>\<open>src/framing.rs\<close>. \<open>library_framer\<close> and
    \<open>library_deframer\<close> are the stacks one can build from the crate's framers and adapters; the
    locales \<open>frame_writer\<close>, \<open>exact_frame_writer\<close>, \<open>fault_reader\<close> and \<open>frame_reader\<close> are their contracts.
  \<^item> \<^verbatim>\<open>FS_Policy\<close>: \<^verbatim>\<open>src/policy.rs\<close>, the memory policies and their clocks.
  \<^item> \<^verbatim>\<open>FS_Reader\<close> and \<^verbatim>\<open>FS_Writer\<close>: \<^verbatim>\<open>src/reader.rs\<close>, \<^verbatim>\<open>src/writer.rs\<close> and \<^verbatim>\<open>src/traits.rs\<close>.
  \<^item> \<^verbatim>\<open>FS_Recover\<close>: \<^verbatim>\<open>src/recover.rs\<close>, recovery of a journal through a counting reader.
  \<^item> \<^verbatim>\<open>FS_Faults\<close>: the fault injectors of \<^verbatim>\<open>tests/harness/faulty_reader.rs\<close> and
    \<^verbatim>\<open>tests/io_fault_injection.rs\<close>.
  \<^item> \<^verbatim>\<open>FS_Unit_Tests\<close>: the unit tests inside \<^verbatim>\<open>src/*.rs\<close> as truth values, with lemmas that they hold of the
    model for every builder and hash function that keeps its documented contract.
  \<^item> \<^verbatim>\<open>FS_Magic\<close>: \<^verbatim>\<open>examples/custom_framer_example.rs\<close>, a framer and deframer of a client's own over the traits
    of the crate, with the parser of its format.
  \<^item> \<^verbatim>\<open>FS_Lobster\<close>: \<^verbatim>\<open>examples/ingest_lobster.rs\<close>, a client in expert mode: integer columns, the levels of an
    order book, and the loop that writes two streams in step.
  \<^item> \<^verbatim>\<open>FS_Examples\<close>: \<^verbatim>\<open>examples/adaptive_policy.rs\<close>, a policy around a policy, and the run of a burst and its
    end through the writer, the adaptive policy and the builder factory.
  \<^item> \<^verbatim>\<open>FS_Demos\<close>: \<^verbatim>\<open>examples/sized_checksums_example.rs\<close>, \<^verbatim>\<open>bounded_adapters_example.rs\<close>,
    \<^verbatim>\<open>multiple_builders_example.rs\<close> and \<^verbatim>\<open>typed_reading_example.rs\<close>, which check themselves: their assertions
    hold of the model for every builder with the documented contract.
  \<^item> \<^verbatim>\<open>FS_Observers\<close>: stacks without observers, what the observers of a framer and a deframer see, and
    \<^verbatim>\<open>examples/observer_adapters_example.rs\<close> and \<^verbatim>\<open>validation_example.rs\<close>, whose assertions hold of the model.
  \<^item> \<^verbatim>\<open>FS_Flatc\<close>: \<^verbatim>\<open>examples/generated/*.rs\<close>, the accessors and builders the FlatBuffers compiler wrote
    for the schemas of the examples, over the operations of the flatbuffers crate: the accessors of a
    checked table read only what the verifier has accepted there, at that type, and what the builders wrote reads back.
  \<^item> \<^verbatim>\<open>FS_Float\<close> and \<^verbatim>\<open>FS_Agent\<close>: \<^verbatim>\<open>examples/telemetry_agent.rs\<close> over \<^verbatim>\<open>f64\<close> operations that obey
    IEEE 754: exact sums and averages, bounded rounding, the typed scan and the iteration that stops early.
  \<^item> \<^verbatim>\<open>FS_Ingest\<close>: the archives a directory of the ingestion example offers (\<^verbatim>\<open>tests/harness/lobster_common.rs\<close>)
    and the main function of \<^verbatim>\<open>ingest_lobster.rs\<close>: which archives are selected, and what a run leaves of each.
  \<^item> \<^verbatim>\<open>FS_Clients\<close>: \<^verbatim>\<open>examples/ergonomics_example.rs\<close>, \<^verbatim>\<open>custom_allocator_example.rs\<close>,
    \<^verbatim>\<open>typed_reading_flatc_example.rs\<close>, the main function of \<^verbatim>\<open>custom_framer_example.rs\<close> and the corrupted byte of
    \<^verbatim>\<open>sized_checksums_example.rs\<close>: their assertions hold of the model.
  \<^item> \<^verbatim>\<open>FS_Wire_Check\<close>: \<^verbatim>\<open>experiments/v2_6/wire_format_verification.rs\<close>, which takes written frames apart at fixed
    places: what it finds there are the length, the checksum and the payload.
  \<^item> \<^verbatim>\<open>FS_Modes\<close>: the measuring programs under \<^verbatim>\<open>experiments/v2_6\<close> (\<^verbatim>\<open>performance_comparison.rs\<close>,
    \<^verbatim>\<open>overhead_analysis.rs\<close>, \<^verbatim>\<open>large_message_test.rs\<close>, \<^verbatim>\<open>memory_usage_test.rs\<close>,
    \<^verbatim>\<open>builder_reuse_verification.rs\<close>, \<^verbatim>\<open>throughput_measurement.rs\<close>): simple and expert mode leave the same
    streams, what a builder has seen in each, what one that only grows keeps, and a capture that ends by the clock.
  \<^item> \<^verbatim>\<open>FS_Experiments\<close>: the programs there that check claims (\<^verbatim>\<open>error_handling_verification.rs\<close>,
    \<^verbatim>\<open>zero_copy_verification.rs\<close>, \<^verbatim>\<open>trait_composability_demo.rs\<close>, \<^verbatim>\<open>checksum_performance_comparison.rs\<close>):
    the verdicts they print, where they find their text, what a sum of bytes detects, and what a checksum costs.

  \<^bold>\<open>How they interact.\<close> A \<^verbatim>\<open>StreamWriter\<close> serializes an item into its builder, hands the finished payload
  to its framer, which validates, bounds, checksums and writes it, and then consults its policy. A
  \<^verbatim>\<open>StreamReader\<close> lends its source and buffer to its deframer, which leaves the payload at the front
  of the buffer, and then consults its policy; a shrink is deferred to the next read. Recovery
  drives a deframer over a reader that counts bytes. In the model a deframer acts on the record
  \<open>rx\<close> (source, buffer, the observers' world), a framer on \<open>tx\<close>, and the reader and writer lend
  these parts of their own records, as the borrows of the code do.

  \<^bold>\<open>What is shown.\<close> Each deframer refines one step of \<open>next_frame\<close> and each framer writes one frame or a
  proper prefix of it; the loops therefore refine \<open>scan\<close> and \<open>encode_stream\<close>. On top of that come the
  end-to-end round trip, what recovery reports after a cut, a crash, a fault or a corruption, the
  bounds on buffers, the exact firing conditions of the policies and their invisibility in the
  results. Properties that only one part is about are in its theory; those below span several.

  \<^bold>\<open>Termination and fuel.\<close> No fuel is used. Loops that depend on a reader or writer are
  \<open>partial_function (option)\<close>, and the theorems that they return rest on \<open>patience\<close>, a bound on how
  often a source may still interrupt in a row, and on the length of what is left to read.

  \<^bold>\<open>Parameters.\<close> The hash functions, the FlatBuffers verifier and builder and user closures come from
  outside the repository and are arguments of the definitions. What is relied on is stated where it
  is used: \<open>lawful_checksum\<close> and \<open>lawful_validator\<close> (they do not unwind and agree with their declared
  width), \<open>encodes\<close> (serialization into a reset builder does not depend on its history).

  \<^bold>\<open>Not modelled.\<close> Failure of an allocation and unwinding inside user code; \<^verbatim>\<open>Cursor\<close>'s own
  \<^verbatim>\<open>read_exact\<close>, which agrees with the provided one up to the contents of the slice after an error;
  targets whose \<^verbatim>\<open>usize\<close> is not 64 bits wide; the overflow checks of a debug build on the \<^verbatim>\<open>u64\<close>
  counters of recovery, which wrap here; lifetimes, \<^verbatim>\<open>Send\<close> and the layout of types. \<^verbatim>\<open>Instant\<close> is a
  machine whose ticks do not go back. Left out are the benchmarks and the fuzz targets, which time or feed
  the interface; \<^verbatim>\<open>experiments/OLD_v2_benches/benchmarks.rs\<close>, a timing harness for methods the crate no longer has; the
  times, addresses and sizes of types that the other experiments print; and the
  drivers of the integration tests. The parsing of floating-point numbers, CSV, ZIP, SHA-256 and the file system of the
  examples are parameters.
\<close>

section \<open>A slow reader\<close>

definition slow_reader :: "(cursor faulty_reader, unit, unit) stream_reader" where
  "slow_reader = reader_new (faulty_reader_new (cursor_new [1, 0, 0, 0, 9, 2, 0, 0, 0, 8, 7]) OneByteChunks)
     (DefaultDeframer (faulty_read cursor_read) \<lparr>dd_max_frame_len = 16\<rparr>) ()"

section \<open>A journal on a device that fails\<close>

text \<open>One whole frame is on the device, which fails after three more bytes.\<close>

definition crashing_writer ::
  "(failing_writer \<times> bytes, unit, nat \<times> bytes option, unit, unit) stream_writer" where
  "crashing_writer = writer_new sample_builder
     (\<lparr>fw_written = 5, fw_fail_after = 8\<rparr>, encode_stream (\<lambda>_. []) [[9]]) (DefaultFramer (recorded failing_write)) ()"

section \<open>Properties that span components\<close>

subsection \<open>Writer, wire and reader\<close>

text \<open>C1: What a writer streams, a reader processes: a run of simple-mode writes of acceptable payloads to
  a reliable, empty writer succeeds, and on every reliable reader over the bytes it left, with a
  deframer that speaks the framer's format, the closure gets exactly those payloads in order and the
  loop ends as the closure or the clean end of the stream ends it. The framers, deframers, memory
  policies, builders and buffer capacities of the two sides are arbitrary.\<close>

theorem stream_round_trip:
  assumes "library_framer wr field accept (sw_framer w)" and "reliable_sink wr written wpatience open_sink"
    and "open_sink (sw_writer w)" and "written (sw_writer w) = []" and "writer_ok good w"
    and "list_all2 (encodes ops good) items ps" and "list_all accept ps"
    and "speaks field fmt ok" and "list_all (\<lambda>p. fits fmt p \<and> ok p) ps"
    and "reliable_source rd content patience healthy"
  shows "\<exists>w'. write_items ops items w = Some (Ok (), w') \<and>
    (\<forall>s :: ('r, 'o, 'p) stream_reader. library_deframer rd fmt (sr_deframer s) \<and> healthy (sr_reader s) \<and>
         content (sr_reader s) = written (sw_writer w') \<longrightarrow>
       map_option (\<lambda>(out, s', u'). (out, u')) (process_all f (s, u)) =
       map_option (\<lambda>(out, left, u'). (out, u')) (feed f ps u))"
proof -
  have whole: "takeWhile accept ps = ps" using assms(7) by (simp add: takeWhile_eq_all_conv list_all_iff)
  from exact_frame_writer.write_items_exact [OF library_framer_exact [OF assms(1,2)] assms(6,5) refl assms(3)]
  obtain w' where w': "write_items ops items w = Some (Ok (), w')"
    "written (sw_writer w') = encode_stream field ps"
    using assms(4,7) unfolding whole by auto
  have scanned: "scan fmt (encode_stream field ps) = (ps, Clean)"
    using wire_codec.scan_encode [OF speaks_wire_codec [OF assms(8)] assms(9), of "[]"] by simp
  show ?thesis
  proof (intro exI [of _ w'] conjI allI impI)
    fix s :: "('r, 'o, 'p) stream_reader"
    assume "library_deframer rd fmt (sr_deframer s) \<and> healthy (sr_reader s) \<and>
      content (sr_reader s) = written (sw_writer w')"
    with frame_reader.process_all_scan [OF library_deframer_contract [OF _ assms(10)] refl, of fmt s f u] w'(2)
    have "processed content healthy fmt f (encode_stream field ps) u (process_all f (s, u))" by simp
    then show "map_option (\<lambda>(out, s', u'). (out, u')) (process_all f (s, u)) =
        map_option (\<lambda>(out, left, u'). (out, u')) (feed f ps u)"
      by (auto simp: processed_def scanned split: option.splits if_splits)
  qed (rule w'(1))
qed

theorem stream_round_trip_witness:
  "\<exists>w'. write_items sample_builder [sample_item [9], sample_item [8, 7]] sample_writer = Some (Ok (), w') \<and>
     map_option (\<lambda>(out, s', u'). (out, u')) (process_all collect
       (reader_new (cursor_new (sw_writer w')) (sr_deframer sample_reader) ()
          :: (cursor, unit, unit) stream_reader, [])) = Some (Ok (), [[9], [8, 7]])"
proof -
  have lib: "library_framer vec_write (\<lambda>_. []) (\<lambda>p. length p \<le> u32_max) (sw_framer sample_writer)"
    by (simp add: sample_writer_fields plain_framer)
  have items: "list_all2 (encodes sample_builder (\<lambda>_. True)) [sample_item [9], sample_item [8, 7]] [[9], [8, 7]]"
    by (simp add: sample_encodes)
  have small: "list_all (\<lambda>p. length p \<le> u32_max) [[9], [8, 7 :: 8 word]]"
    by (simp add: u32_max_def)
  have fits: "list_all (\<lambda>p. fits (plain_format 16) p \<and> True) [[9], [8, 7]]"
    by (simp add: fits_def plain_format_def u32_max_def)
  from stream_round_trip [OF lib vec_sink.reliable_sink_axioms TrueI sample_writer_fields(2)
      sample_writer_fields(5) items small speaks_plain fits cursor_source.reliable_source_axioms,
      of collect "[]"]
  obtain w' where "write_items sample_builder [sample_item [9], sample_item [8, 7]] sample_writer = Some (Ok (), w')"
    and "\<forall>s. library_deframer cursor_read (plain_format 16) (sr_deframer s) \<and> True \<and>
         cursor_rest (sr_reader s) = sw_writer w' \<longrightarrow>
       map_option (\<lambda>(out, s', u'). (out, u')) (process_all collect (s :: (cursor, unit, unit) stream_reader, [])) =
       map_option (\<lambda>(out, left, u'). (out, u')) (feed collect [[9], [8, 7]] [])"
    by blast
  with sample_library show ?thesis
    by (intro exI [of _ w']) (simp add: reader_new_def collect_def)
qed

subsection \<open>Writer, crash and recovery\<close>

text \<open>C7: What recovery finds after a crash is what was acknowledged: a run of writes to a journal of whole
  frames stops at the first that fails, wherever it fails, inside a frame included; recovery of the bytes on the
  device then reports exactly the frames that were there and those whose writes returned success, at the offset
  where they end, and calls the end torn if and only if the failed write left something behind.\<close>

theorem crash_then_recover:
  assumes "library_framer wr field accept (sw_framer w)" and "byte_sink wr written wpatience open_sink"
    and "open_sink (sw_writer w)" and "written (sw_writer w) = encode_stream field qs"
    and "writer_ok good w" and "list_all2 (encodes ops good) items ps"
    and "library_deframer (counting_read rd) fmt dfr" and "reliable_source rd content patience healthy"
    and "speaks field fmt ok" and "list_all (\<lambda>q. fits fmt q \<and> ok q) (qs @ ps)"
  shows "\<exists>out w' k w1. write_items ops items w = Some (out, w') \<and> k \<le> length items \<and>
    write_items ops (take k items) w = Some (Ok (), w1) \<and>
    (if k = length items then out = Ok () \<and> w' = w1
     else (\<exists>e. out = Err e) \<and> writer_write ops (items ! k) w1 = Some (out, w')) \<and>
    (\<forall>r :: 'r. healthy r \<and> content r = written (sw_writer w') \<longrightarrow>
       (let acked = qs @ take k ps in
        \<exists>s'. recover dfr r world = Some (Ok
          \<lparr>rep_frames = word_of_nat (length acked),
           rep_last_good_offset = word_of_nat (stream_size fmt acked),
           rep_end = (if written (sw_writer w') = encode_stream field acked then CleanEof else TornTail)\<rparr>, s')))"
proof -
  have codec: "wire_codec fmt field ok" using assms(9) by (rule speaks_wire_codec)
  have len: "length items = length ps" using assms(6) by (rule list_all2_lengthD)
  from frame_writer.write_items_framed [OF library_framer_contract [OF assms(1,2)] assms(6,5) refl assms(3)]
  obtain out w' k w1 where run: "write_items ops items w = Some (out, w')" "k \<le> length ps"
    "write_items ops (take k items) w = Some (Ok (), w1)"
    and left: "written (sw_writer w1) = encode_stream field (qs @ take k ps)"
    and stop: "if k = length ps then out = Ok () \<and> w' = w1
     else (\<exists>e. out = Err e) \<and> writer_write ops (items ! k) w1 = Some (out, w') \<and>
       (\<exists>j < length (encode_frame field (ps ! k)).
          written (sw_writer w') = written (sw_writer w1) @ take j (encode_frame field (ps ! k)))"
    unfolding assms(4) encode_stream_simps by blast
  let ?acked = "qs @ take k ps" and ?left = "written (sw_writer w')"
  have good: "list_all (\<lambda>q. fits fmt q \<and> ok q) ?acked"
    using assms(10) by (auto simp: list_all_iff dest: in_set_takeD)
  have "scan fmt ?left = (?acked, if ?left = encode_stream field ?acked then Clean else Stopped unexpected_eof)"
  proof (cases "k = length ps")
    case True
    with stop left wire_codec.scan_encode [OF codec good, of "[]"] show ?thesis by simp
  next
    case False
    with stop left obtain j where j: "j < length (encode_frame field (ps ! k))"
      "?left = encode_stream field ?acked @ take j (encode_frame field (ps ! k))" by auto
    have "fits fmt (ps ! k) \<and> ok (ps ! k)" using False run(2) assms(10) by (auto simp: list_all_iff)
    with good have "list_all (\<lambda>q. fits fmt q \<and> ok q) (?acked @ [ps ! k])" by simp
    from wire_codec.scan_acknowledged(2) [OF codec this j(1)] j show ?thesis by (cases "j = 0") auto
  qed
  then have report: "recover_spec fmt ?left = Ok
      \<lparr>rep_frames = word_of_nat (length ?acked), rep_last_good_offset = word_of_nat (stream_size fmt ?acked),
       rep_end = (if ?left = encode_stream field ?acked then CleanEof else TornTail)\<rparr>"
    by (simp add: recover_spec_result Let_def)
  have rep: "\<forall>r. healthy r \<and> content r = ?left \<longrightarrow>
      (let acked = ?acked in
       \<exists>s'. recover dfr r world = Some (Ok
         \<lparr>rep_frames = word_of_nat (length acked), rep_last_good_offset = word_of_nat (stream_size fmt acked),
          rep_end = (if ?left = encode_stream field acked then CleanEof else TornTail)\<rparr>, s'))"
    unfolding Let_def report [symmetric] using library_recover [OF assms(7,8), of _ world] by metis
  have stop': "if k = length items then out = Ok () \<and> w' = w1
      else (\<exists>e. out = Err e) \<and> writer_write ops (items ! k) w1 = Some (out, w')"
    using stop len by (auto split: if_splits)
  show ?thesis
    by (rule exI [of _ out], rule exI [of _ w'], rule exI [of _ k], rule exI [of _ w1], intro conjI)
      (rule run(1) run(3) stop' rep run(2) [folded len])+
qed

theorem crash_then_recover_witness:
  "\<exists>out w' k. write_items sample_builder [sample_item [8, 7], sample_item [6]] crashing_writer = Some (out, w') \<and> k \<le> 2 \<and>
    (out = Ok () \<longleftrightarrow> k = 2) \<and>
    (\<exists>s'. recover (DefaultDeframer (counting_read cursor_read) \<lparr>dd_max_frame_len = 16\<rparr>)
        (cursor_new (snd (sw_writer w'))) () = Some (Ok
          \<lparr>rep_frames = word_of_nat (length ([9] # take k [[8, 7], [6 :: 8 word]])),
           rep_last_good_offset = word_of_nat (stream_size (plain_format 16) ([9] # take k [[8, 7], [6]])),
           rep_end = (if snd (sw_writer w') = encode_stream (\<lambda>_. []) ([9] # take k [[8, 7], [6]])
             then CleanEof else TornTail)\<rparr>, s'))"
proof -
  let ?items = "[sample_item [8, 7], sample_item [6]]" and ?ps = "[[8, 7], [6 :: 8 word]]"
  have lib: "library_framer (recorded failing_write) (\<lambda>_. []) (\<lambda>p. length p \<le> u32_max) (sw_framer crashing_writer)"
    and written: "snd (sw_writer crashing_writer) = encode_stream (\<lambda>_. []) [[9]]"
    and ok: "writer_ok (\<lambda>_. True) crashing_writer"
    by (simp_all add: crashing_writer_def writer_new_def plain_framer writer_ok_def)
  have items: "list_all2 (encodes sample_builder (\<lambda>_. True)) ?items ?ps" by (simp add: sample_encodes)
  have fits: "list_all (\<lambda>p. fits (plain_format 16) p \<and> True) ([[9]] @ ?ps)"
    by (simp add: fits_def plain_format_def u32_max_def)
  from crash_then_recover [OF lib failing_sink.byte_sink_axioms TrueI written ok items sample_deframer
      cursor_source.reliable_source_axioms speaks_plain fits, where world = "()"]
  obtain out w' k w1 where run: "write_items sample_builder ?items crashing_writer = Some (out, w')" "k \<le> length ?items"
    and ended: "if k = length ?items then out = Ok () \<and> w' = w1
      else (\<exists>e. out = Err e) \<and> writer_write sample_builder (?items ! k) w1 = Some (out, w')"
    and report: "\<forall>r. True \<and> cursor_rest r = snd (sw_writer w') \<longrightarrow>
       (let acked = [[9]] @ take k ?ps in
        \<exists>s'. recover (DefaultDeframer (counting_read cursor_read) \<lparr>dd_max_frame_len = 16\<rparr>) r () = Some (Ok
          \<lparr>rep_frames = word_of_nat (length acked),
           rep_last_good_offset = word_of_nat (stream_size (plain_format 16) acked),
           rep_end = (if snd (sw_writer w') = encode_stream (\<lambda>_. []) acked then CleanEof else TornTail)\<rparr>, s'))"
    by blast
  have stop: "out = Ok () \<longleftrightarrow> k = length ?items" using ended by (auto split: if_splits)
  have "cursor_rest (cursor_new (snd (sw_writer w'))) = snd (sw_writer w')" by simp
  with report have "\<exists>s'. recover (DefaultDeframer (counting_read cursor_read) \<lparr>dd_max_frame_len = 16\<rparr>)
      (cursor_new (snd (sw_writer w'))) () = Some (Ok
        \<lparr>rep_frames = word_of_nat (length ([9] # take k ?ps)),
         rep_last_good_offset = word_of_nat (stream_size (plain_format 16) ([9] # take k ?ps)),
         rep_end = (if snd (sw_writer w') = encode_stream (\<lambda>_. []) ([9] # take k ?ps) then CleanEof else TornTail)\<rparr>, s')"
    unfolding Let_def append.simps by blast
  moreover have "length ?items = 2" by simp
  ultimately show ?thesis using run stop by metis
qed

subsection \<open>Reader and injected faults\<close>

text \<open>C33: The injected faults a reader must absorb are invisible in its results: wrapped in an injector that
  delivers one byte at a time or interrupts at intervals, a reliable source gives the closure the
  same payloads and the loop the same outcome as it does bare.\<close>

theorem delivery_is_invisible:
  assumes "library_deframer (faulty_read rd) fmt (sr_deframer s1)" and "library_deframer rd fmt (sr_deframer s2)"
    and "reliable_source rd content patience healthy"
    and "healthy (fr_inner (sr_reader s1))" and "harmless (fr_mode (sr_reader s1))" and "healthy (sr_reader s2)"
    and "content (fr_inner (sr_reader s1)) = content (sr_reader s2)"
  shows "map_option (\<lambda>(out, s', u'). (out, u')) (process_all f (s1, u)) =
    map_option (\<lambda>(out, s', u'). (out, u')) (process_all f (s2, u))"
  using frame_reader.process_all_scan [OF library_deframer_contract
        [OF assms(1) reliable_source.faulty_reliable [OF assms(3)]] refl conjI [OF assms(4,5)], of f u]
    frame_reader.process_all_scan [OF library_deframer_contract [OF assms(2,3)] refl assms(6), of f u] assms(7)
  by (auto simp: processed_def split: option.splits if_splits)

theorem delivery_is_invisible_witness:
  "map_option (\<lambda>(out, s', u'). (out, u')) (process_all collect (slow_reader, [])) =
   map_option (\<lambda>(out, s', u'). (out, u')) (process_all collect (sample_reader, []))"
  by (rule delivery_is_invisible [OF _ sample_library cursor_source.reliable_source_axioms TrueI _ TrueI])
    (simp_all add: slow_reader_def reader_new_def faulty_reader_new_def harmless_def sample_deframer
      sample_reader_fields)

end
